(* ===== verification/Prelude.thy ===== *)
theory Prelude
  imports Main "HOL-Library.Word" "HOL-Library.Signed_Division" "HOL-Library.Multiset" "HOL-Library.Sublist"
begin

text \<open>
  Shared vocabulary of the development: the machine integers of the Rust sources, the
  \<^verbatim>\<open>Result\<close> plumbing behind the \<^verbatim>\<open>?\<close> operator, checked and saturating arithmetic,
  little-endian byte strings, and the parts of \<^verbatim>\<open>std::collections\<close> the crates use
  (\<^verbatim>\<open>BTreeMap\<close> as a key-sorted association list, \<^verbatim>\<open>BTreeSet\<close> as a strictly sorted
  list, \<^verbatim>\<open>HashMap\<close> as a partial function because the sources never iterate one).
\<close>

section \<open>Machine integers\<close>

type_synonym u8 = "8 word"
type_synonym u32 = "32 word"
type_synonym u64 = "64 word"
type_synonym u128 = "128 word"

text \<open>A signed 64-bit value is the same bit pattern, read with \<^term>\<open>sint\<close>; the Rust casts
  \<^verbatim>\<open>u64 as i64\<close> and \<^verbatim>\<open>i64 as u64\<close> are therefore the identity.\<close>

type_synonym i64 = "64 word"

named_theorems result_simps \<open>unfolding of the error-passing combinators\<close>
named_theorems domain_wf \<open>well-formedness predicates of the domain newtypes\<close>
named_theorems book_frame \<open>what an operation of the book leaves unchanged\<close>

section \<open>Results\<close>

text \<open>\<^verbatim>\<open>Result<A, E>\<close> is \<open>'e + 'a\<close>. \<open>rbind\<close> is the \<^verbatim>\<open>?\<close> operator, \<open>map_err\<close> is
  \<^verbatim>\<open>Result::map_err\<close>, \<open>rmap\<close> is \<^verbatim>\<open>Result::map\<close>, \<open>ok_or\<close> is \<^verbatim>\<open>Option::ok_or\<close> and
  \<open>ok\<close> is \<^verbatim>\<open>Result::ok\<close>.\<close>

definition rbind :: "'e + 'a \<Rightarrow> ('a \<Rightarrow> 'e + 'b) \<Rightarrow> 'e + 'b" where
  "rbind r f = (case r of Inl e \<Rightarrow> Inl e | Inr x \<Rightarrow> f x)"

definition map_err :: "('e \<Rightarrow> 'f) \<Rightarrow> 'e + 'a \<Rightarrow> 'f + 'a" where
  "map_err f r = (case r of Inl e \<Rightarrow> Inl (f e) | Inr x \<Rightarrow> Inr x)"

definition rmap :: "('a \<Rightarrow> 'b) \<Rightarrow> 'e + 'a \<Rightarrow> 'e + 'b" where
  "rmap f r = (case r of Inl e \<Rightarrow> Inl e | Inr x \<Rightarrow> Inr (f x))"

definition ok_or :: "'a option \<Rightarrow> 'e \<Rightarrow> 'e + 'a" where
  "ok_or x e = (case x of None \<Rightarrow> Inl e | Some v \<Rightarrow> Inr v)"

definition ok :: "'e + 'a \<Rightarrow> 'a option" where
  "ok r = (case r of Inl _ \<Rightarrow> None | Inr x \<Rightarrow> Some x)"

definition unwrap_or :: "'a option \<Rightarrow> 'a \<Rightarrow> 'a" where
  "unwrap_or x d = (case x of None \<Rightarrow> d | Some v \<Rightarrow> v)"

lemma rbind_simps [simp, result_simps]:
  "rbind (Inl e) f = Inl e" "rbind (Inr x) f = f x"
  by (simp_all add: rbind_def)

lemma map_err_simps [simp, result_simps]:
  "map_err g (Inl e) = Inl (g e)" "map_err g (Inr x) = Inr x"
  by (simp_all add: map_err_def)

lemma rmap_simps [simp, result_simps]:
  "rmap g (Inl e) = Inl e" "rmap g (Inr x) = Inr (g x)"
  by (simp_all add: rmap_def)

lemma ok_or_simps [simp, result_simps]:
  "ok_or None e = Inl e" "ok_or (Some x) e = Inr x"
  by (simp_all add: ok_or_def)

lemma ok_simps [simp, result_simps]:
  "ok (Inl e) = None" "ok (Inr x) = Some x"
  by (simp_all add: ok_def)

lemma unwrap_or_simps [simp, result_simps]:
  "unwrap_or None d = d" "unwrap_or (Some x) d = x"
  by (simp_all add: unwrap_or_def)

lemma rbind_Inr_iff: "rbind r f = Inr y \<longleftrightarrow> (\<exists>x. r = Inr x \<and> f x = Inr y)"
  by (cases r) auto

lemma map_err_Inr_iff [simp]: "map_err g r = Inr x \<longleftrightarrow> r = Inr x"
  by (cases r) auto

lemma rmap_Inr_iff: "rmap g r = Inr y \<longleftrightarrow> (\<exists>x. r = Inr x \<and> y = g x)"
  by (cases r) auto

section \<open>Checked and saturating arithmetic\<close>

definition checked_add :: "'a::len word \<Rightarrow> 'a word \<Rightarrow> 'a word option" where
  "checked_add a b = (if unat a + unat b < 2 ^ LENGTH('a) then Some (a + b) else None)"

definition checked_mul :: "'a::len word \<Rightarrow> 'a word \<Rightarrow> 'a word option" where
  "checked_mul a b = (if unat a * unat b < 2 ^ LENGTH('a) then Some (a * b) else None)"

definition saturating_sub :: "'a::len word \<Rightarrow> 'a word \<Rightarrow> 'a word" where
  "saturating_sub a b = (if a < b then 0 else a - b)"

text \<open>The same tests on integers, which evaluate in binary.\<close>

lemma unat_less_power_uint: "n < 2 ^ k \<longleftrightarrow> int n < 2 ^ k"
  by (metis of_nat_less_iff of_nat_numeral of_nat_power)

lemma checked_add_code [code]:
  "checked_add (a :: 'a::len word) b = (if uint a + uint b < 2 ^ LENGTH('a) then Some (a + b) else None)"
  by (simp add: checked_add_def unat_less_power_uint [of "unat a + unat b"])

lemma checked_mul_code [code]:
  "checked_mul (a :: 'a::len word) b = (if uint a * uint b < 2 ^ LENGTH('a) then Some (a * b) else None)"
  by (simp add: checked_mul_def unat_less_power_uint [of "unat a * unat b"])

lemma unat_add_no_wrap:
  "unat a + unat b < 2 ^ LENGTH('a) \<Longrightarrow> unat (a + b :: 'a::len word) = unat a + unat b"
  by (simp add: unat_word_ariths)

lemma unat_mul_no_wrap:
  "unat a * unat b < 2 ^ LENGTH('a) \<Longrightarrow> unat (a * b :: 'a::len word) = unat a * unat b"
  by (simp add: unat_word_ariths)

lemma checked_add_SomeD:
  "checked_add a b = Some c \<Longrightarrow> unat c = unat a + unat b"
  by (auto simp: checked_add_def unat_add_no_wrap split: if_splits)

lemma checked_mul_SomeD:
  "checked_mul a b = Some c \<Longrightarrow> unat c = unat a * unat b"
  by (auto simp: checked_mul_def unat_mul_no_wrap split: if_splits)

lemma checked_add_1_eq_None_iff: "checked_add w (1 :: u64) = None \<longleftrightarrow> unat w = 2 ^ 64 - 1"
  using unsigned_less [of w, where 'a = nat] by (auto simp: checked_add_def)

lemma unat_saturating_sub: "unat (saturating_sub a b) = unat a - unat b"
  by (auto simp: saturating_sub_def unat_sub word_less_nat_alt word_le_nat_alt not_less)

lemma unat_min: "unat (min a b) = min (unat a) (unat b)"
  by (simp add: min_def word_le_nat_alt)

lemma word_pos_unat: "w \<noteq> (0 :: 'a::len word) \<longleftrightarrow> 0 < unat w"
  by (simp add: unat_gt_0)

section \<open>Little-endian byte strings\<close>

text \<open>\<^verbatim>\<open>to_le_bytes\<close> and \<^verbatim>\<open>from_le_bytes\<close> of the integer types, and the in-memory image of
  a field of a \<^verbatim>\<open>#[repr(C, packed)]\<close> structure on the little-endian targets the wire crate
  restricts itself to.\<close>

primrec nat_to_le :: "nat \<Rightarrow> nat \<Rightarrow> u8 list" where
  "nat_to_le 0 n = []"
| "nat_to_le (Suc k) n = word_of_nat (n mod 256) # nat_to_le k (n div 256)"

primrec nat_of_le :: "u8 list \<Rightarrow> nat" where
  "nat_of_le [] = 0"
| "nat_of_le (b # bs) = unat b + 256 * nat_of_le bs"

definition to_le_bytes :: "'a::len word \<Rightarrow> u8 list" where
  "to_le_bytes w = nat_to_le (LENGTH('a) div 8) (unat w)"

definition from_le_bytes :: "u8 list \<Rightarrow> 'a::len word" where
  "from_le_bytes bs = word_of_nat (nat_of_le bs)"

lemma length_nat_to_le [simp]: "length (nat_to_le k n) = k"
  by (induction k arbitrary: n) auto

lemma nat_of_le_nat_to_le: "nat_of_le (nat_to_le k n) = n mod 256 ^ k"
proof (induction k arbitrary: n)
  case (Suc k)
  have "unat (word_of_nat (n mod 256) :: u8) = n mod 256"
    by (simp add: unat_of_nat)
  then show ?case by (simp add: Suc.IH mod_mult2_eq)
qed simp

lemma nat_to_le_nat_of_le: "nat_to_le (length bs) (nat_of_le bs) = bs"
proof (induction bs)
  case (Cons b bs)
  have "unat b < 256" using unsigned_less [of b, where 'a = nat] by simp
  then show ?case by (simp add: Cons.IH)
qed simp

lemma nat_of_le_less: "nat_of_le bs < 256 ^ length bs"
proof (induction bs)
  case (Cons b bs)
  have "unat b < 256" using unsigned_less [of b, where 'a = nat] by simp
  with Cons.IH show ?case by simp
qed simp

lemma length_to_le_bytes [simp]: "length (to_le_bytes (w :: 'a::len word)) = LENGTH('a) div 8"
  by (simp add: to_le_bytes_def)

lemma from_to_le_bytes:
  assumes "8 * (LENGTH('a) div 8) = LENGTH('a::len)"
  shows "from_le_bytes (to_le_bytes w) = (w :: 'a word)"
proof -
  have "(256 :: nat) ^ (LENGTH('a) div 8) = (2 ^ 8) ^ (LENGTH('a) div 8)" by simp
  also have "\<dots> = 2 ^ LENGTH('a)" by (simp only: power_mult [symmetric] assms)
  finally have "(256 :: nat) ^ (LENGTH('a) div 8) = 2 ^ LENGTH('a)" .
  then show ?thesis
    by (simp add: from_le_bytes_def to_le_bytes_def nat_of_le_nat_to_le)
qed

lemma to_from_le_bytes:
  assumes "8 * (LENGTH('a) div 8) = LENGTH('a::len)" "length bs = LENGTH('a) div 8"
  shows "to_le_bytes (from_le_bytes bs :: 'a word) = bs"
proof -
  have "(256 :: nat) ^ length bs = (2 ^ 8) ^ (LENGTH('a) div 8)" using assms(2) by simp
  also have "\<dots> = 2 ^ LENGTH('a)" by (simp only: power_mult [symmetric] assms(1))
  finally have "nat_of_le bs < 2 ^ LENGTH('a)" using nat_of_le_less [of bs] by simp
  then show ?thesis
    using nat_to_le_nat_of_le [of bs] assms(2)
    by (simp add: from_le_bytes_def to_le_bytes_def unat_of_nat)
qed

lemma le_bytes_id [simp]:
  "from_le_bytes (to_le_bytes a) = (a :: u8)"
  "from_le_bytes (to_le_bytes b) = (b :: u32)"
  "from_le_bytes (to_le_bytes c) = (c :: u64)"
  by (simp_all add: from_to_le_bytes)

text \<open>The same conversions on integers, which evaluate in binary.\<close>

primrec int_to_le :: "nat \<Rightarrow> int \<Rightarrow> u8 list" where
  "int_to_le 0 n = []"
| "int_to_le (Suc k) n = word_of_int n # int_to_le k (n div 256)"

primrec int_of_le :: "u8 list \<Rightarrow> int" where
  "int_of_le [] = 0"
| "int_of_le (b # bs) = uint b + 256 * int_of_le bs"

lemma int_to_le_nat: "int_to_le k (int n) = nat_to_le k n"
proof (induction k arbitrary: n)
  case (Suc k)
  have "(word_of_int (int n) :: u8) = word_of_nat (n mod 256)"
    by (rule word_unat_eq_iff [THEN iffD2]) (simp add: unat_of_nat)
  then show ?case using Suc [of "n div 256"] by (simp add: zdiv_int)
qed simp

lemma to_le_bytes_code [code]: "to_le_bytes (w :: 'a::len word) = int_to_le (LENGTH('a) div 8) (uint w)"
  using int_to_le_nat [of "LENGTH('a) div 8" "unat w"] by (simp add: to_le_bytes_def)

lemma int_of_le_nat: "int_of_le bs = int (nat_of_le bs)"
  by (induction bs) simp_all

lemma from_le_bytes_code [code]: "from_le_bytes bs = word_of_int (int_of_le bs)"
  by (simp add: from_le_bytes_def int_of_le_nat)

section \<open>Streams of encoded items\<close>

text \<open>Every prefix of a concatenation is whole items followed by a strict prefix of the next one.\<close>

lemma concat_map_prefix:
  assumes "prefix bs (concat (map f xs))"
  shows "\<exists>k part. k \<le> length xs \<and> bs = concat (map f (take k xs)) @ part \<and>
    (if k < length xs then strict_prefix part (f (xs ! k)) else part = [])"
  using assms
proof (induction xs arbitrary: bs)
  case (Cons x xs)
  show ?case
  proof (cases "strict_prefix bs (f x)")
    case True
    then show ?thesis by (intro exI [of _ 0] exI [of _ bs]) simp
  next
    case False
    then have "prefix (f x) bs"
      using Cons.prems by (auto simp: prefix_append strict_prefix_def dest: prefix_same_cases)
    then obtain bs1 where bs: "bs = f x @ bs1" by (auto elim: prefixE)
    then have "prefix bs1 (concat (map f xs))" using Cons.prems by simp
    then obtain k part where "k \<le> length xs" "bs1 = concat (map f (take k xs)) @ part"
        "if k < length xs then strict_prefix part (f (xs ! k)) else part = []"
      using Cons.IH by blast
    then show ?thesis by (intro exI [of _ "Suc k"] exI [of _ part]) (simp add: bs)
  qed
qed simp

section \<open>Ordered maps and sets\<close>

text \<open>\<^verbatim>\<open>BTreeMap<K, V>\<close>: an association list with strictly ascending keys. \<open>btm_get\<close>,
  \<open>btm_insert\<close>, \<open>btm_remove\<close>, \<open>btm_first_key\<close> (\<^verbatim>\<open>keys().next()\<close>) and \<open>btm_last_key\<close>
  (\<^verbatim>\<open>keys().next_back()\<close>) are the methods the book calls.\<close>

type_synonym ('k, 'v) btm = "('k \<times> 'v) list"

definition btm_ok :: "('k::linorder, 'v) btm \<Rightarrow> bool" where
  "btm_ok m \<longleftrightarrow> sorted_wrt (<) (map fst m)"

definition btm_get :: "('k, 'v) btm \<Rightarrow> 'k \<Rightarrow> 'v option" where
  "btm_get m k = map_of m k"

fun btm_insert :: "'k::linorder \<Rightarrow> 'v \<Rightarrow> ('k, 'v) btm \<Rightarrow> ('k, 'v) btm" where
  "btm_insert k v [] = [(k, v)]"
| "btm_insert k v ((k', v') # m) =
     (if k < k' then (k, v) # (k', v') # m
      else if k = k' then (k, v) # m
      else (k', v') # btm_insert k v m)"

definition btm_remove :: "'k \<Rightarrow> ('k, 'v) btm \<Rightarrow> ('k, 'v) btm" where
  "btm_remove k m = filter (\<lambda>(k', _). k' \<noteq> k) m"

definition btm_first_key :: "('k, 'v) btm \<Rightarrow> 'k option" where
  "btm_first_key m = (case m of [] \<Rightarrow> None | (k, _) # _ \<Rightarrow> Some k)"

definition btm_last_key :: "('k, 'v) btm \<Rightarrow> 'k option" where
  "btm_last_key m = (if m = [] then None else Some (fst (last m)))"

text \<open>\<^verbatim>\<open>BTreeSet<K>\<close>: a strictly ascending list.\<close>

definition bts_ok :: "'k::linorder list \<Rightarrow> bool" where
  "bts_ok s \<longleftrightarrow> sorted_wrt (<) s"

fun bts_insert :: "'k::linorder \<Rightarrow> 'k list \<Rightarrow> 'k list" where
  "bts_insert k [] = [k]"
| "bts_insert k (x # s) =
     (if k < x then k # x # s else if k = x then x # s else x # bts_insert k s)"

definition bts_remove :: "'k \<Rightarrow> 'k list \<Rightarrow> 'k list" where
  "bts_remove k s = filter (\<lambda>x. x \<noteq> k) s"

lemma btm_insert_keys: "set (map fst (btm_insert k v m)) = insert k (set (map fst m))"
  by (induction k v m rule: btm_insert.induct) auto

lemma btm_insert_ok: "btm_ok m \<Longrightarrow> btm_ok (btm_insert k v m)"
proof (induction k v m rule: btm_insert.induct)
  case (2 k v k' v' m)
  then show ?case
    using btm_insert_keys [of k v m] by (force simp: btm_ok_def)
qed (simp add: btm_ok_def)

lemma btm_get_insert: "btm_get (btm_insert k v m) j = (if j = k then Some v else btm_get m j)"
  by (induction k v m rule: btm_insert.induct) (auto simp: btm_get_def)

lemma btm_get_remove: "btm_get (btm_remove k m) j = (if j = k then None else btm_get m j)"
  by (induction m) (auto simp: btm_get_def btm_remove_def)

lemma btm_remove_ok: "btm_ok m \<Longrightarrow> btm_ok (btm_remove k m)"
  unfolding btm_ok_def btm_remove_def
  by (induction m) auto

lemma btm_ok_distinct: "btm_ok m \<Longrightarrow> distinct (map fst m)"
  by (simp add: btm_ok_def strict_sorted_iff)

lemma btm_get_eq_Some: "btm_ok m \<Longrightarrow> btm_get m k = Some v \<longleftrightarrow> (k, v) \<in> set m"
  by (simp add: btm_get_def btm_ok_distinct)

lemma btm_get_eq_None: "btm_get m k = None \<longleftrightarrow> k \<notin> fst ` set m"
  by (simp add: btm_get_def map_of_eq_None_iff)

text \<open>The three segments of a map around a key: below, at, above. Insertion and removal touch
  the middle one only, which is what makes the flattened view of a book side easy to follow.\<close>

definition btm_below :: "'k::linorder \<Rightarrow> ('k, 'v) btm \<Rightarrow> ('k, 'v) btm" where
  "btm_below k m = filter (\<lambda>(k', _). k' < k) m"

definition btm_above :: "'k::linorder \<Rightarrow> ('k, 'v) btm \<Rightarrow> ('k, 'v) btm" where
  "btm_above k m = filter (\<lambda>(k', _). k < k') m"

lemma btm_ok_Cons: "btm_ok ((k, v) # m) \<longleftrightarrow> (\<forall>p \<in> set m. k < fst p) \<and> btm_ok m"
  by (simp add: btm_ok_def)

lemma btm_ok_Nil [simp]: "btm_ok []"
  by (simp add: btm_ok_def)

lemma btm_ok_append:
  "btm_ok (xs @ ys) \<longleftrightarrow> btm_ok xs \<and> btm_ok ys \<and> (\<forall>p \<in> set xs. \<forall>q \<in> set ys. fst p < fst q)"
  by (auto simp: btm_ok_def sorted_wrt_append)

lemma btm_below_all: "(\<forall>p \<in> set m. k' < fst p) \<Longrightarrow> k \<le> k' \<Longrightarrow> btm_below k m = []"
  by (fastforce simp: btm_below_def filter_empty_conv)

lemma btm_above_all: "(\<forall>p \<in> set m. k' < fst p) \<Longrightarrow> k \<le> k' \<Longrightarrow> btm_above k m = m"
  by (fastforce simp: btm_above_def intro!: filter_True)

lemma btm_segments_Cons:
  assumes "btm_ok ((k', v') # m)"
  shows "btm_below k ((k', v') # m) = (if k' < k then (k', v') # btm_below k m else [])"
    "btm_above k ((k', v') # m) = (if k < k' then (k', v') # m else btm_above k m)"
    "k' = k \<Longrightarrow> btm_above k m = m"
  using assms btm_below_all [of m k' k] btm_above_all [of m k' k]
  by (auto simp: btm_ok_Cons btm_below_def btm_above_def)

lemma btm_insert_segments:
  "btm_ok m \<Longrightarrow> btm_insert k v m = btm_below k m @ (k, v) # btm_above k m"
proof (induction k v m rule: btm_insert.induct)
  case (2 k v k' v' m)
  then show ?case by (auto simp: btm_segments_Cons btm_ok_Cons)
qed (simp add: btm_below_def btm_above_def)

lemma btm_remove_segments: "btm_ok m \<Longrightarrow> btm_remove k m = btm_below k m @ btm_above k m"
proof (induction m)
  case (Cons p m)
  obtain k' v' where p: "p = (k', v')" by (cases p)
  have "k < k' \<Longrightarrow> btm_remove k m = m"
    using Cons.prems p by (auto simp: btm_remove_def btm_ok_Cons intro!: filter_True)
  moreover have "btm_remove k (p # m) = (if k' = k then btm_remove k m else p # btm_remove k m)"
    by (simp add: btm_remove_def p)
  moreover have "k' = k \<Longrightarrow> btm_below k m = []"
    using Cons.prems p btm_below_all [of m k k] by (simp add: btm_ok_Cons)
  ultimately show ?case
    using Cons by (auto simp: p btm_segments_Cons btm_ok_Cons)
qed (simp add: btm_below_def btm_above_def btm_remove_def)

lemma btm_segments:
  "btm_ok m \<Longrightarrow> m = btm_below k m @ (case btm_get m k of None \<Rightarrow> [] | Some v \<Rightarrow> [(k, v)]) @ btm_above k m"
proof (induction m)
  case (Cons p m)
  obtain k' v' where p: "p = (k', v')" by (cases p)
  have get: "btm_get (p # m) k = (if k' = k then Some v' else btm_get m k)"
    by (simp add: btm_get_def p)
  have "k < k' \<Longrightarrow> btm_get m k = None"
    using Cons.prems p by (force simp: btm_ok_Cons btm_get_eq_None)
  then show ?case
    using Cons unfolding get by (auto simp: p btm_segments_Cons btm_ok_Cons)
qed (simp add: btm_below_def btm_above_def btm_get_def)

lemma btm_below_keys: "p \<in> set (btm_below k m) \<longleftrightarrow> p \<in> set m \<and> fst p < k"
  by (auto simp: btm_below_def)

lemma btm_above_keys: "p \<in> set (btm_above k m) \<longleftrightarrow> p \<in> set m \<and> k < fst p"
  by (auto simp: btm_above_def)

lemma btm_first_key_None [simp]: "btm_first_key m = None \<longleftrightarrow> m = []"
  by (auto simp: btm_first_key_def split: list.splits)

lemma btm_last_key_None [simp]: "btm_last_key m = None \<longleftrightarrow> m = []"
  by (simp add: btm_last_key_def)

lemma btm_first_key_SomeD:
  assumes "btm_ok m" "btm_first_key m = Some k"
  shows "\<exists>v m'. m = (k, v) # m' \<and> btm_get m k = Some v \<and> (\<forall>p \<in> set m'. k < fst p)"
proof (cases m)
  case (Cons p m')
  then show ?thesis
    using assms by (cases p) (simp add: btm_first_key_def btm_ok_Cons btm_get_def)
qed (use assms in \<open>simp add: btm_first_key_def\<close>)

lemma btm_last_key_SomeD:
  assumes "btm_ok m" "btm_last_key m = Some k"
  shows "\<exists>v m'. m = m' @ [(k, v)] \<and> btm_get m k = Some v \<and> (\<forall>p \<in> set m'. fst p < k)"
proof (cases m rule: rev_cases)
  case (snoc m' p)
  obtain k' v where p: "p = (k', v)" by (cases p)
  then have "k' = k" "\<forall>q \<in> set m'. fst q < k"
    using assms snoc by (auto simp: btm_last_key_def btm_ok_append)
  then show ?thesis
    using assms snoc p by (auto simp: btm_get_eq_Some)
qed (use assms in \<open>simp add: btm_last_key_def\<close>)

lemma bts_insert_set [simp]: "set (bts_insert k s) = insert k (set s)"
  by (induction k s rule: bts_insert.induct) auto

lemma bts_remove_set [simp]: "set (bts_remove k s) = set s - {k}"
  by (auto simp: bts_remove_def)

lemma bts_insert_ok: "bts_ok s \<Longrightarrow> bts_ok (bts_insert k s)"
  by (induction k s rule: bts_insert.induct) (auto simp: bts_ok_def)

lemma bts_remove_ok: "bts_ok s \<Longrightarrow> bts_ok (bts_remove k s)"
  unfolding bts_ok_def bts_remove_def by (rule sorted_wrt_filter)

lemma bts_ok_distinct: "bts_ok s \<Longrightarrow> distinct s"
  by (simp add: bts_ok_def strict_sorted_iff)

end
