(* ===== verification/Domain.thy ===== *)
theory Domain
  imports Prelude
begin

text \<open>
  The \<^verbatim>\<open>domain\<close> crate: policy constants, the validated newtypes (\<^verbatim>\<open>Price\<close>, \<^verbatim>\<open>Qty\<close>,
  \<^verbatim>\<open>OrderId\<close>, \<^verbatim>\<open>AccountId\<close>), the checked counters (\<^verbatim>\<open>EngineSeq\<close>, \<^verbatim>\<open>TradeId\<close>), the
  timestamps, and the wire-stable enumerations with their \<^verbatim>\<open>u8\<close> discriminants. The fields of
  the Rust newtypes are private, so a value exists only if \<^verbatim>\<open>new\<close> accepted it; the predicates
  \<open>price_ok\<close>, \<open>qty_ok\<close>, \<open>order_id_ok\<close> and \<open>account_id_ok\<close> state what \<^verbatim>\<open>new\<close> guarantees.
\<close>

section \<open>Constants (\<^verbatim>\<open>consts.rs\<close>)\<close>

definition TICK_SIZE :: i64 where "TICK_SIZE = 1"
definition LOT_SIZE :: u64 where "LOT_SIZE = 1"
definition PRICE_BAND_BPS :: u32 where "PRICE_BAND_BPS = 500"
definition MAX_OPEN_ORDERS_PER_ACCT :: u32 where "MAX_OPEN_ORDERS_PER_ACCT = 1000"
definition MAX_NOTIONAL_PER_ACCT :: u128 where "MAX_NOTIONAL_PER_ACCT = 10000000000"

section \<open>Newtypes\<close>

datatype price = Price (as_ticks: i64)
datatype qty = Qty (as_lots: u64)
datatype order_id = OrderId (order_id_raw: u64)
datatype account_id = AccountId (account_id_raw: u32)
datatype engine_seq = EngineSeq (engine_seq_raw: u64)
datatype trade_id = TradeId (trade_id_raw: u64)
datatype client_ts = ClientTs (client_nanos: i64)
datatype recv_ts = RecvTs (recv_nanos: i64)

datatype price_error = PriceNonPositive | PriceTickViolation
datatype qty_error = QtyZero | QtyLotViolation
datatype order_id_error = OrderIdZero
datatype account_id_error = AccountIdZero
datatype engine_seq_error = EngineSeqOverflow
datatype trade_id_error = TradeIdOverflow

definition Price_new :: "i64 \<Rightarrow> price_error + price" where
  "Price_new ticks =
     (if sint ticks \<le> 0 then Inl PriceNonPositive
      else if sint ticks smod sint TICK_SIZE \<noteq> 0 then Inl PriceTickViolation
      else Inr (Price ticks))"

definition Qty_new :: "u64 \<Rightarrow> qty_error + qty" where
  "Qty_new lots =
     (if lots = 0 then Inl QtyZero
      else if lots mod LOT_SIZE \<noteq> 0 then Inl QtyLotViolation
      else Inr (Qty lots))"

definition Qty_MIN :: qty where "Qty_MIN = Qty LOT_SIZE"

definition OrderId_new :: "u64 \<Rightarrow> order_id_error + order_id" where
  "OrderId_new raw = (if raw = 0 then Inl OrderIdZero else Inr (OrderId raw))"

definition AccountId_new :: "u32 \<Rightarrow> account_id_error + account_id" where
  "AccountId_new raw = (if raw = 0 then Inl AccountIdZero else Inr (AccountId raw))"

definition EngineSeq_next :: "engine_seq \<Rightarrow> engine_seq_error + engine_seq" where
  "EngineSeq_next s =
     (case checked_add (engine_seq_raw s) 1 of
        Some v \<Rightarrow> Inr (EngineSeq v) | None \<Rightarrow> Inl EngineSeqOverflow)"

definition TradeId_next :: "trade_id \<Rightarrow> trade_id_error + trade_id" where
  "TradeId_next t =
     (case checked_add (trade_id_raw t) 1 of
        Some v \<Rightarrow> Inr (TradeId v) | None \<Rightarrow> Inl TradeIdOverflow)"

definition price_ok :: "price \<Rightarrow> bool" where
  "price_ok p \<longleftrightarrow> 0 < sint (as_ticks p)"

definition qty_ok :: "qty \<Rightarrow> bool" where
  "qty_ok q \<longleftrightarrow> as_lots q \<noteq> 0"

definition order_id_ok :: "order_id \<Rightarrow> bool" where
  "order_id_ok i \<longleftrightarrow> order_id_raw i \<noteq> 0"

definition account_id_ok :: "account_id \<Rightarrow> bool" where
  "account_id_ok a \<longleftrightarrow> account_id_raw a \<noteq> 0"

lemma smod_1 [simp]: "(x :: int) smod 1 = 0"
  by (simp add: signed_modulo_int_def)

lemma Price_new_iff: "Price_new t = Inr p \<longleftrightarrow> p = Price t \<and> 0 < sint t"
  by (auto simp: Price_new_def TICK_SIZE_def)

lemma Qty_new_iff: "Qty_new l = Inr q \<longleftrightarrow> q = Qty l \<and> l \<noteq> 0"
  by (auto simp: Qty_new_def LOT_SIZE_def)

lemma OrderId_new_iff: "OrderId_new r = Inr i \<longleftrightarrow> i = OrderId r \<and> r \<noteq> 0"
  by (auto simp: OrderId_new_def)

lemma AccountId_new_iff: "AccountId_new r = Inr a \<longleftrightarrow> a = AccountId r \<and> r \<noteq> 0"
  by (auto simp: AccountId_new_def)

lemmas newtype_iffs = Price_new_iff Qty_new_iff OrderId_new_iff AccountId_new_iff

lemma Price_new_as_ticks [simp]: "price_ok p \<Longrightarrow> Price_new (as_ticks p) = Inr p"
  by (cases p) (simp add: Price_new_iff price_ok_def)

lemma Qty_new_as_lots [simp]: "qty_ok q \<Longrightarrow> Qty_new (as_lots q) = Inr q"
  by (cases q) (simp add: Qty_new_iff qty_ok_def)

lemma OrderId_new_raw [simp]: "order_id_ok i \<Longrightarrow> OrderId_new (order_id_raw i) = Inr i"
  by (cases i) (simp add: OrderId_new_iff order_id_ok_def)

lemma AccountId_new_raw [simp]: "account_id_ok a \<Longrightarrow> AccountId_new (account_id_raw a) = Inr a"
  by (cases a) (simp add: AccountId_new_iff account_id_ok_def)

lemma Qty_new_ok: "ok (Qty_new l) = (if l = 0 then None else Some (Qty l))"
  by (simp add: Qty_new_def LOT_SIZE_def)

lemma Qty_MIN_ok: "qty_ok Qty_MIN"
  by (simp add: Qty_MIN_def qty_ok_def LOT_SIZE_def)

section \<open>Orders on the newtypes\<close>

text \<open>The derived \<^verbatim>\<open>Ord\<close> instances: signed for \<^verbatim>\<open>Price\<close>, unsigned for \<^verbatim>\<open>Qty\<close> and
  \<^verbatim>\<open>OrderId\<close>.\<close>

instantiation price :: linorder
begin
definition less_eq_price :: "price \<Rightarrow> price \<Rightarrow> bool" where
  "less_eq_price p q \<longleftrightarrow> sint (as_ticks p) \<le> sint (as_ticks q)"
definition less_price :: "price \<Rightarrow> price \<Rightarrow> bool" where
  "less_price p q \<longleftrightarrow> sint (as_ticks p) < sint (as_ticks q)"
instance
proof
  fix p q :: price
  show "p \<le> q \<Longrightarrow> q \<le> p \<Longrightarrow> p = q"
    by (cases p; cases q) (auto simp: less_eq_price_def word_eq_iff_signed [where 'a = int])
qed (auto simp: less_eq_price_def less_price_def)
end

instantiation qty :: linorder
begin
definition less_eq_qty :: "qty \<Rightarrow> qty \<Rightarrow> bool" where
  "less_eq_qty p q \<longleftrightarrow> as_lots p \<le> as_lots q"
definition less_qty :: "qty \<Rightarrow> qty \<Rightarrow> bool" where
  "less_qty p q \<longleftrightarrow> as_lots p < as_lots q"
instance
proof
  fix p q :: qty
  show "p \<le> q \<Longrightarrow> q \<le> p \<Longrightarrow> p = q"
    by (cases p; cases q) (simp add: less_eq_qty_def)
qed (auto simp: less_eq_qty_def less_qty_def)
end

instantiation order_id :: linorder
begin
definition less_eq_order_id :: "order_id \<Rightarrow> order_id \<Rightarrow> bool" where
  "less_eq_order_id p q \<longleftrightarrow> order_id_raw p \<le> order_id_raw q"
definition less_order_id :: "order_id \<Rightarrow> order_id \<Rightarrow> bool" where
  "less_order_id p q \<longleftrightarrow> order_id_raw p < order_id_raw q"
instance
proof
  fix p q :: order_id
  show "p \<le> q \<Longrightarrow> q \<le> p \<Longrightarrow> p = q"
    by (cases p; cases q) (simp add: less_eq_order_id_def)
qed (auto simp: less_eq_order_id_def less_order_id_def)
end

section \<open>Wire-stable enumerations\<close>

datatype side = Bid | Ask
datatype order_type = Limit | Market
datatype tif = Gtc | Ioc | PostOnly
datatype exec_state = Accepted | Rejected | PartiallyFilled | Filled | Cancelled | Replaced
datatype cancel_reason =
  CR_UserRequested | CR_MassCancel | CR_IocRemaining | CR_SelfTradePrevented | CR_Replaced
datatype reject_reason =
  KillSwitched | InvalidPrice | InvalidQty | TickViolation | LotViolation | PriceBand
| MaxOpenOrders | MaxNotional | UnknownOrderId | DuplicateOrderId | PostOnlyWouldCross
| SelfTradePrevented | MarketOrderInEmptyBook | UnknownAccount | MalformedMessage

datatype side_error = SideUnknown u8
datatype order_type_error = OrderTypeUnknown u8
datatype tif_error = TifUnknown u8
datatype exec_state_error = ExecStateUnknown u8
datatype cancel_reason_error = CancelReasonUnknown u8
datatype reject_reason_error = RejectReasonUnknown u8

primrec side_as_u8 :: "side \<Rightarrow> u8" where
  "side_as_u8 Bid = 1"
| "side_as_u8 Ask = 2"

definition side_try_from :: "u8 \<Rightarrow> side_error + side" where
  "side_try_from v = (if v = 1 then Inr Bid else if v = 2 then Inr Ask else Inl (SideUnknown v))"

primrec opposite :: "side \<Rightarrow> side" where
  "opposite Bid = Ask"
| "opposite Ask = Bid"

primrec order_type_as_u8 :: "order_type \<Rightarrow> u8" where
  "order_type_as_u8 Limit = 1"
| "order_type_as_u8 Market = 2"

definition order_type_try_from :: "u8 \<Rightarrow> order_type_error + order_type" where
  "order_type_try_from v =
     (if v = 1 then Inr Limit else if v = 2 then Inr Market else Inl (OrderTypeUnknown v))"

primrec tif_as_u8 :: "tif \<Rightarrow> u8" where
  "tif_as_u8 Gtc = 1"
| "tif_as_u8 Ioc = 2"
| "tif_as_u8 PostOnly = 3"

definition tif_try_from :: "u8 \<Rightarrow> tif_error + tif" where
  "tif_try_from v =
     (if v = 1 then Inr Gtc else if v = 2 then Inr Ioc else if v = 3 then Inr PostOnly
      else Inl (TifUnknown v))"

primrec exec_state_as_u8 :: "exec_state \<Rightarrow> u8" where
  "exec_state_as_u8 Accepted = 1"
| "exec_state_as_u8 Rejected = 2"
| "exec_state_as_u8 PartiallyFilled = 3"
| "exec_state_as_u8 Filled = 4"
| "exec_state_as_u8 Cancelled = 5"
| "exec_state_as_u8 Replaced = 6"

definition exec_state_try_from :: "u8 \<Rightarrow> exec_state_error + exec_state" where
  "exec_state_try_from v =
     (if v = 1 then Inr Accepted else if v = 2 then Inr Rejected
      else if v = 3 then Inr PartiallyFilled else if v = 4 then Inr Filled
      else if v = 5 then Inr Cancelled else if v = 6 then Inr Replaced
      else Inl (ExecStateUnknown v))"

primrec cancel_reason_as_u8 :: "cancel_reason \<Rightarrow> u8" where
  "cancel_reason_as_u8 CR_UserRequested = 1"
| "cancel_reason_as_u8 CR_MassCancel = 2"
| "cancel_reason_as_u8 CR_IocRemaining = 3"
| "cancel_reason_as_u8 CR_SelfTradePrevented = 4"
| "cancel_reason_as_u8 CR_Replaced = 5"

definition cancel_reason_try_from :: "u8 \<Rightarrow> cancel_reason_error + cancel_reason" where
  "cancel_reason_try_from v =
     (if v = 1 then Inr CR_UserRequested else if v = 2 then Inr CR_MassCancel
      else if v = 3 then Inr CR_IocRemaining else if v = 4 then Inr CR_SelfTradePrevented
      else if v = 5 then Inr CR_Replaced else Inl (CancelReasonUnknown v))"

primrec reject_reason_as_u8 :: "reject_reason \<Rightarrow> u8" where
  "reject_reason_as_u8 KillSwitched = 1"
| "reject_reason_as_u8 InvalidPrice = 2"
| "reject_reason_as_u8 InvalidQty = 3"
| "reject_reason_as_u8 TickViolation = 4"
| "reject_reason_as_u8 LotViolation = 5"
| "reject_reason_as_u8 PriceBand = 6"
| "reject_reason_as_u8 MaxOpenOrders = 7"
| "reject_reason_as_u8 MaxNotional = 8"
| "reject_reason_as_u8 UnknownOrderId = 9"
| "reject_reason_as_u8 DuplicateOrderId = 10"
| "reject_reason_as_u8 PostOnlyWouldCross = 11"
| "reject_reason_as_u8 SelfTradePrevented = 12"
| "reject_reason_as_u8 MarketOrderInEmptyBook = 13"
| "reject_reason_as_u8 UnknownAccount = 14"
| "reject_reason_as_u8 MalformedMessage = 15"

definition reject_reason_try_from :: "u8 \<Rightarrow> reject_reason_error + reject_reason" where
  "reject_reason_try_from v =
     (if v = 1 then Inr KillSwitched else if v = 2 then Inr InvalidPrice
      else if v = 3 then Inr InvalidQty else if v = 4 then Inr TickViolation
      else if v = 5 then Inr LotViolation else if v = 6 then Inr PriceBand
      else if v = 7 then Inr MaxOpenOrders else if v = 8 then Inr MaxNotional
      else if v = 9 then Inr UnknownOrderId else if v = 10 then Inr DuplicateOrderId
      else if v = 11 then Inr PostOnlyWouldCross else if v = 12 then Inr SelfTradePrevented
      else if v = 13 then Inr MarketOrderInEmptyBook else if v = 14 then Inr UnknownAccount
      else if v = 15 then Inr MalformedMessage else Inl (RejectReasonUnknown v))"

lemma opposite_opposite [simp]: "opposite (opposite s) = s"
  by (cases s) simp_all

lemma opposite_neq [simp]: "opposite s \<noteq> s" "s \<noteq> opposite s"
  by (cases s; simp)+

text \<open>The contract of a wire-stable enumeration: \<^verbatim>\<open>as_u8\<close> and \<^verbatim>\<open>TryFrom<u8>\<close> are inverse
  on the assigned discriminants, and the zero byte, which the optional fields of an
  \<^verbatim>\<open>ExecReport\<close> use as \<open>None\<close>, is never assigned.\<close>

locale wire_enum =
  fixes as_u8 :: "'a \<Rightarrow> u8"
    and try_from :: "u8 \<Rightarrow> 'e + 'a"
  assumes try_from_as_u8: "try_from (as_u8 x) = Inr x"
    and as_u8_try_from: "try_from v = Inr x \<Longrightarrow> as_u8 x = v"
begin

lemma as_u8_inject: "as_u8 x = as_u8 y \<longleftrightarrow> x = y"
  by (metis try_from_as_u8 sum.inject(2))

lemma try_from_Inr_iff: "try_from v = Inr x \<longleftrightarrow> v = as_u8 x"
  using try_from_as_u8 as_u8_try_from by blast

lemma rejects_iff: "(\<exists>e. try_from v = Inl e) \<longleftrightarrow> v \<notin> range as_u8"
proof (cases "try_from v")
  case (Inl e)
  then have "v \<notin> range as_u8" using try_from_as_u8 by force
  with Inl show ?thesis by blast
next
  case (Inr x)
  then show ?thesis using as_u8_try_from by force
qed

end

locale wire_enum_nonzero = wire_enum +
  assumes as_u8_nonzero: "as_u8 x \<noteq> 0"
begin

text \<open>An optional enumeration field: zero is \<open>None\<close>.\<close>

lemma optional_field:
  "(if unwrap_or (map_option as_u8 r) 0 \<noteq> 0
    then rmap Some (try_from (unwrap_or (map_option as_u8 r) 0)) else Inr None) = Inr r"
  using as_u8_nonzero by (cases r) (simp_all add: try_from_as_u8)

end

interpretation side_enum: wire_enum_nonzero side_as_u8 side_try_from
proof
  show "side_try_from (side_as_u8 x) = Inr x" for x by (cases x) (simp_all add: side_try_from_def)
  show "side_try_from v = Inr x \<Longrightarrow> side_as_u8 x = v" for v x
    by (auto simp: side_try_from_def split: if_splits)
  show "side_as_u8 x \<noteq> 0" for x by (cases x) simp_all
qed

interpretation order_type_enum: wire_enum_nonzero order_type_as_u8 order_type_try_from
proof
  show "order_type_try_from (order_type_as_u8 x) = Inr x" for x
    by (cases x) (simp_all add: order_type_try_from_def)
  show "order_type_try_from v = Inr x \<Longrightarrow> order_type_as_u8 x = v" for v x
    by (auto simp: order_type_try_from_def split: if_splits)
  show "order_type_as_u8 x \<noteq> 0" for x by (cases x) simp_all
qed

interpretation tif_enum: wire_enum_nonzero tif_as_u8 tif_try_from
proof
  show "tif_try_from (tif_as_u8 x) = Inr x" for x by (cases x) (simp_all add: tif_try_from_def)
  show "tif_try_from v = Inr x \<Longrightarrow> tif_as_u8 x = v" for v x
    by (auto simp: tif_try_from_def split: if_splits)
  show "tif_as_u8 x \<noteq> 0" for x by (cases x) simp_all
qed

interpretation exec_state_enum: wire_enum_nonzero exec_state_as_u8 exec_state_try_from
proof
  show "exec_state_try_from (exec_state_as_u8 x) = Inr x" for x
    by (cases x) (simp_all add: exec_state_try_from_def)
  show "exec_state_try_from v = Inr x \<Longrightarrow> exec_state_as_u8 x = v" for v x
    by (auto simp: exec_state_try_from_def split: if_splits)
  show "exec_state_as_u8 x \<noteq> 0" for x by (cases x) simp_all
qed

interpretation cancel_reason_enum: wire_enum_nonzero cancel_reason_as_u8 cancel_reason_try_from
proof
  show "cancel_reason_try_from (cancel_reason_as_u8 x) = Inr x" for x
    by (cases x) (simp_all add: cancel_reason_try_from_def)
  show "cancel_reason_try_from v = Inr x \<Longrightarrow> cancel_reason_as_u8 x = v" for v x
    by (auto simp: cancel_reason_try_from_def split: if_splits)
  show "cancel_reason_as_u8 x \<noteq> 0" for x by (cases x) simp_all
qed

interpretation reject_reason_enum: wire_enum_nonzero reject_reason_as_u8 reject_reason_try_from
proof
  show "reject_reason_try_from (reject_reason_as_u8 x) = Inr x" for x
    by (cases x) (simp_all add: reject_reason_try_from_def)
  show "reject_reason_try_from v = Inr x \<Longrightarrow> reject_reason_as_u8 x = v" for v x
    by (auto simp: reject_reason_try_from_def split: if_splits)
  show "reject_reason_as_u8 x \<noteq> 0" for x by (cases x) simp_all
qed

end
