(* ===== verification/PriceLevel_API.thy ===== *)
theory PriceLevel_API
  imports Domain
begin

text \<open>
  The interface of the third-party crate \<^verbatim>\<open>pricelevel\<close> as \<^verbatim>\<open>crates/matching/src/book.rs\<close>
  uses it. The crate is not part of the repository, so it is a parameter of the model: a record
  of operations \<open>'l pl_api\<close> over an abstract level type \<open>'l\<close>. The locale \<open>price_level\<close> states
  the behaviour the book relies on and its comments document (\<^verbatim>\<open>book.rs\<close> 148-155, 359-379);
  \<open>price_level_total\<close> adds that no operation fails for want of memory or counter space. Both are
  interpreted on \<open>fifo_api\<close>, a queue kept in arrival order.
\<close>

section \<open>Data exchanged with a level\<close>

text \<open>\<^verbatim>\<open>pricelevel::Id\<close>: the book creates \<^verbatim>\<open>Sequential\<close> ids only and panics on any other
  variant.\<close>

datatype pl_ident = Sequential u64 | OtherIdVariant

datatype pl_side = Buy | Sell
datatype pl_tif = PlGtc
datatype pl_hash = Hash32_zero

text \<open>\<^verbatim>\<open>pricelevel::OrderType::Standard\<close>, field by field.\<close>

record pl_order =
  pl_id :: pl_ident
  pl_price :: u128
  pl_quantity :: u64
  pl_order_side :: pl_side
  pl_user_id :: pl_hash
  pl_timestamp :: u64
  pl_time_in_force :: pl_tif
  pl_extra_fields :: unit

datatype pl_update = PlCancel pl_ident | PlUpdateQuantity pl_ident u64

text \<open>The book tells a duplicate id from every other error.\<close>

datatype pl_error = PlDuplicateOrderId | PlOtherError

record 'l pl_api =
  pl_new :: "u128 \<Rightarrow> 'l"
  pl_add_order :: "'l \<Rightarrow> pl_order \<Rightarrow> pl_error + 'l"
  pl_update_order :: "'l \<Rightarrow> pl_update \<Rightarrow> 'l"
  pl_order_count :: "'l \<Rightarrow> nat"
  pl_snapshot_orders :: "'l \<Rightarrow> pl_order list option"
  pl_iter_orders :: "'l \<Rightarrow> pl_order list"
  pl_total_quantity :: "'l \<Rightarrow> u64 option"

section \<open>What the book relies on\<close>

text \<open>\<open>queue l\<close> is the content of the level ordered by the timestamp each order was added with,
  \<open>level_ok\<close> the representation invariant of a level reached through the interface.
  \<^item> a successful \<^verbatim>\<open>add_order\<close> never admits an id twice, and an order with a fresh, larger
    timestamp goes to the back;
  \<^item> a duplicate error is reported only for an id that is present;
  \<^item> \<^verbatim>\<open>update_order(Cancel)\<close> drops the order, \<^verbatim>\<open>update_order(UpdateQuantity)\<close> with a smaller
    positive quantity replaces it under the same id, in place;
  \<^item> \<^verbatim>\<open>snapshot_orders\<close>, when it does not fail, is the content in timestamp order, while
    \<^verbatim>\<open>iter_orders\<close> is the content in no particular order;
  \<^item> \<^verbatim>\<open>total_quantity\<close>, when it does not fail, is the sum of the quantities.\<close>

locale price_level =
  fixes api :: "'l pl_api"
    and queue :: "'l \<Rightarrow> pl_order list"
    and level_ok :: "'l \<Rightarrow> bool"
  assumes new_ok: "level_ok (pl_new api p)"
    and new_queue: "queue (pl_new api p) = []"
    and add_fresh: "level_ok l \<Longrightarrow> pl_add_order api l ord = Inr l' \<Longrightarrow> pl_id ord \<notin> pl_id ` set (queue l)"
    and add_back: "level_ok l \<Longrightarrow> pl_add_order api l ord = Inr l' \<Longrightarrow>
      (\<forall>x \<in> set (queue l). pl_timestamp x < pl_timestamp ord) \<Longrightarrow>
      level_ok l' \<and> queue l' = queue l @ [ord]"
    and add_duplicate: "level_ok l \<Longrightarrow> pl_add_order api l ord = Inl PlDuplicateOrderId \<Longrightarrow>
      pl_id ord \<in> pl_id ` set (queue l)"
    and cancel_ok: "level_ok l \<Longrightarrow> level_ok (pl_update_order api l (PlCancel i))"
    and cancel_queue: "level_ok l \<Longrightarrow>
      queue (pl_update_order api l (PlCancel i)) = filter (\<lambda>x. pl_id x \<noteq> i) (queue l)"
    and reduce_ok: "level_ok l \<Longrightarrow> x \<in> set (queue l) \<Longrightarrow> 0 < n \<Longrightarrow> n \<le> pl_quantity x \<Longrightarrow>
      level_ok (pl_update_order api l (PlUpdateQuantity (pl_id x) n))"
    and reduce_queue: "level_ok l \<Longrightarrow> x \<in> set (queue l) \<Longrightarrow> 0 < n \<Longrightarrow> n \<le> pl_quantity x \<Longrightarrow>
      queue (pl_update_order api l (PlUpdateQuantity (pl_id x) n)) =
        map (\<lambda>y. if pl_id y = pl_id x then y\<lparr>pl_quantity := n\<rparr> else y) (queue l)"
    and order_count: "level_ok l \<Longrightarrow> pl_order_count api l = length (queue l)"
    and snapshot: "level_ok l \<Longrightarrow> pl_snapshot_orders api l = Some os \<Longrightarrow> os = queue l"
    and iter: "level_ok l \<Longrightarrow> mset (pl_iter_orders api l) = mset (queue l)"
    and total: "level_ok l \<Longrightarrow> pl_total_quantity api l = Some t \<Longrightarrow>
      unat t = sum_list (map (\<lambda>x. unat (pl_quantity x)) (queue l))"
begin

lemma iter_set: "level_ok l \<Longrightarrow> set (pl_iter_orders api l) = set (queue l)"
  using iter by (metis set_mset_mset)

lemma order_count_0: "level_ok l \<Longrightarrow> pl_order_count api l = 0 \<longleftrightarrow> queue l = []"
  by (simp add: order_count)

end

text \<open>Laws for the absence of resource failures: the snapshot vector can be reserved and no
  counter of a level overflows.\<close>

locale price_level_total = price_level +
  assumes snapshot_total: "level_ok l \<Longrightarrow> \<exists>os. pl_snapshot_orders api l = Some os"
    and add_total: "level_ok l \<Longrightarrow> pl_id ord \<notin> pl_id ` set (queue l) \<Longrightarrow>
      \<exists>l'. pl_add_order api l ord = Inr l'"
begin

lemma snapshot_eq: "level_ok l \<Longrightarrow> pl_snapshot_orders api l = Some (queue l)"
  using snapshot snapshot_total by fastforce

end

section \<open>A queue in arrival order\<close>

text \<open>An instance of the interface on which the laws hold: a level is the list of its orders.\<close>

definition fifo_add :: "pl_order list \<Rightarrow> pl_order \<Rightarrow> pl_error + pl_order list" where
  "fifo_add l ord = (if pl_id ord \<in> pl_id ` set l then Inl PlDuplicateOrderId else Inr (l @ [ord]))"

fun fifo_update :: "pl_order list \<Rightarrow> pl_update \<Rightarrow> pl_order list" where
  "fifo_update l (PlCancel i) = filter (\<lambda>x. pl_id x \<noteq> i) l"
| "fifo_update l (PlUpdateQuantity i n) = map (\<lambda>y. if pl_id y = i then y\<lparr>pl_quantity := n\<rparr> else y) l"

definition fifo_total :: "pl_order list \<Rightarrow> u64 option" where
  "fifo_total l = (let t = sum_list (map (\<lambda>x. unat (pl_quantity x)) l)
                   in if t < 2 ^ 64 then Some (word_of_nat t) else None)"

lemma fifo_total_code [code]:
  "fifo_total l = (let t = sum_list (map (\<lambda>x. uint (pl_quantity x)) l)
                   in if t < 2 ^ 64 then Some (word_of_int t) else None)"
proof -
  have "sum_list (map (\<lambda>x. uint (pl_quantity x)) l) = int (sum_list (map (\<lambda>x. unat (pl_quantity x)) l))"
    by (induction l) simp_all
  then show ?thesis
    using unat_less_power_uint [of "sum_list (map (\<lambda>x. unat (pl_quantity x)) l)" 64]
    by (simp add: fifo_total_def Let_def)
qed

definition fifo_api :: "pl_order list pl_api" where
  "fifo_api = \<lparr>pl_new = (\<lambda>_. []), pl_add_order = fifo_add, pl_update_order = fifo_update,
     pl_order_count = length, pl_snapshot_orders = Some, pl_iter_orders = rev,
     pl_total_quantity = fifo_total\<rparr>"

interpretation fifo: price_level_total fifo_api "\<lambda>l. l" "\<lambda>_. True"
  by unfold_locales
    (auto simp: fifo_api_def fifo_add_def fifo_total_def Let_def unat_of_nat split: if_splits)

text \<open>The same queue behind an allocator that refuses every snapshot: it satisfies the laws of
  \<open>price_level\<close> and not those of \<open>price_level_total\<close>.\<close>

definition starved_api :: "pl_order list pl_api" where
  "starved_api = fifo_api\<lparr>pl_snapshot_orders := (\<lambda>_. None)\<rparr>"

interpretation starved: price_level starved_api "\<lambda>l. l" "\<lambda>_. True"
  by unfold_locales
    (auto simp: starved_api_def fifo_api_def fifo_add_def fifo_total_def Let_def unat_of_nat
      split: if_splits)

end
