(* ===== verification/Book.thy ===== *)
theory Book
  imports PriceLevel_API
begin

text \<open>
  The \<^verbatim>\<open>matching\<close> crate: \<^verbatim>\<open>fill.rs\<close>, \<^verbatim>\<open>error.rs\<close> and \<^verbatim>\<open>book.rs\<close>. The book is a record of
  two price-ordered maps of levels, the id index, the per-account index and the arrival counter.
  Every method takes the book and returns the new one; a method with a \<^verbatim>\<open>Result\<close> returns the
  result next to the book, because Rust keeps the partial effects of a method that returns
  \<^verbatim>\<open>Err\<close>. A level is shared through \<^verbatim>\<open>Arc\<close> and mutated in place, so every
  \<^verbatim>\<open>update_order\<close> is written back into its map. \<open>None\<close> stands for a panic, which the id
  generator raises on overflow, or for a walk that does not return. \<^verbatim>\<open>debug_assert!\<close> is not
  compiled into the release profile and has no counterpart.
\<close>

section \<open>Requests and results (\<^verbatim>\<open>fill.rs\<close>, \<^verbatim>\<open>error.rs\<close>)\<close>

record aggressive_order =
  ao_order_id :: order_id
  ao_account_id :: account_id
  ao_side :: side
  ao_price :: "price option"
  ao_qty :: qty
  ao_tif :: tif

record fill =
  f_trade_id :: trade_id
  f_maker_order_id :: order_id
  f_taker_order_id :: order_id
  f_maker_side :: side
  f_price :: price
  f_qty :: qty
  f_maker_fully_filled :: bool

record stp_cancellation =
  sc_order_id :: order_id
  sc_account_id :: account_id
  sc_side :: side
  sc_price :: price
  sc_qty :: qty

record mass_cancellation =
  mc_order_id :: order_id
  mc_account_id :: account_id
  mc_side :: side
  mc_price :: price
  mc_qty :: qty

record match_result =
  mr_fills_count :: nat
  mr_stp_cancellations :: nat
  mr_taker_remaining :: "qty option"
  mr_taker_stp_cancelled :: bool
  mr_taker_post_only_rejected :: bool

record replace_outcome =
  rp_kept_priority :: bool
  rp_match_result :: "match_result option"

datatype book_error = BE_UnknownOrderId | BE_DuplicateOrderId | BE_SeqOverflow | BE_LevelRejected

section \<open>State\<close>

record order_meta =
  om_side :: side
  om_price :: price
  om_account_id :: account_id
  om_tif :: tif

record resting_order =
  ro_order_id :: order_id
  ro_account_id :: account_id
  ro_side :: side
  ro_price :: price
  ro_qty :: qty
  ro_tif :: tif

record 'l book =
  bids :: "(price, 'l) btm"
  asks :: "(price, 'l) btm"
  index :: "order_id \<rightharpoonup> order_meta"
  by_account :: "account_id \<rightharpoonup> order_id list"
  book_seq :: u64

definition Book_new :: "'l book" where
  "Book_new = \<lparr>bids = [], asks = [], index = Map.empty, by_account = Map.empty, book_seq = 0\<rparr>"

text \<open>The recurring \<^verbatim>\<open>match side { Bid => &mut self.bids, Ask => &mut self.asks }\<close>.\<close>

fun levels_of :: "side \<Rightarrow> 'l book \<Rightarrow> (price, 'l) btm" where
  "levels_of Bid b = bids b"
| "levels_of Ask b = asks b"

fun set_levels :: "side \<Rightarrow> (price, 'l) btm \<Rightarrow> 'l book \<Rightarrow> 'l book" where
  "set_levels Bid m b = b\<lparr>bids := m\<rparr>"
| "set_levels Ask m b = b\<lparr>asks := m\<rparr>"

fun domain_to_pl_side :: "side \<Rightarrow> pl_side" where
  "domain_to_pl_side Bid = Buy"
| "domain_to_pl_side Ask = Sell"

text \<open>\<open>None\<close>: both the \<^verbatim>\<open>expect\<close> and the explicit \<^verbatim>\<open>panic!\<close>.\<close>

fun pl_id_to_domain :: "pl_ident \<Rightarrow> order_id option" where
  "pl_id_to_domain (Sequential raw) = ok (OrderId_new raw)"
| "pl_id_to_domain OtherIdVariant = None"

section \<open>Inserting and removing resting orders\<close>

definition pl_order_of :: "resting_order \<Rightarrow> u64 \<Rightarrow> pl_order" where
  "pl_order_of ord s =
     \<lparr>pl_id = Sequential (order_id_raw (ro_order_id ord)),
      pl_price = scast (as_ticks (ro_price ord)),
      pl_quantity = as_lots (ro_qty ord),
      pl_order_side = domain_to_pl_side (ro_side ord),
      pl_user_id = Hash32_zero,
      pl_timestamp = s,
      pl_time_in_force = PlGtc,
      pl_extra_fields = ()\<rparr>"

definition add_resting ::
  "'l pl_api \<Rightarrow> 'l book \<Rightarrow> resting_order \<Rightarrow> (book_error + unit) \<times> 'l book" where
  "add_resting api b ord =
     (if index b (ro_order_id ord) \<noteq> None then (Inl BE_DuplicateOrderId, b)
      else case checked_add (book_seq b) 1 of
        None \<Rightarrow> (Inl BE_SeqOverflow, b)
      | Some s \<Rightarrow>
          let b1 = b\<lparr>book_seq := s\<rparr>;
              levels = levels_of (ro_side ord) b1;
              price_u128 = scast (as_ticks (ro_price ord));
              level = unwrap_or (btm_get levels (ro_price ord)) (pl_new api price_u128);
              levels1 = btm_insert (ro_price ord) level levels
          in case pl_add_order api level (pl_order_of ord s) of
               Inl e \<Rightarrow>
                 let levels2 = (if pl_order_count api level = 0
                                then btm_remove (ro_price ord) levels1 else levels1);
                     b2 = set_levels (ro_side ord) levels2 b1
                 in (Inl (case e of PlDuplicateOrderId \<Rightarrow> BE_DuplicateOrderId
                                  | PlOtherError \<Rightarrow> BE_LevelRejected),
                     b2\<lparr>book_seq := book_seq b2 - 1\<rparr>)
             | Inr level' \<Rightarrow>
                 let b2 = set_levels (ro_side ord) (btm_insert (ro_price ord) level' levels1) b1;
                     b3 = b2\<lparr>index := (index b2)(ro_order_id ord \<mapsto>
                            \<lparr>om_side = ro_side ord, om_price = ro_price ord,
                             om_account_id = ro_account_id ord, om_tif = ro_tif ord\<rparr>)\<rparr>;
                     mine = unwrap_or (by_account b3 (ro_account_id ord)) []
                 in (Inr (), b3\<lparr>by_account := (by_account b3)(ro_account_id ord \<mapsto>
                               bts_insert (ro_order_id ord) mine)\<rparr>))"

definition drop_from_indices :: "'l book \<Rightarrow> order_id \<Rightarrow> 'l book" where
  "drop_from_indices b oid =
     (case index b oid of
        None \<Rightarrow> b
      | Some meta \<Rightarrow>
          let b1 = b\<lparr>index := (index b)(oid := None)\<rparr>
          in case by_account b1 (om_account_id meta) of
               None \<Rightarrow> b1
             | Some s \<Rightarrow>
                 let s' = bts_remove oid s
                 in if s' = []
                    then b1\<lparr>by_account := (by_account b1)(om_account_id meta := None)\<rparr>
                    else b1\<lparr>by_account := (by_account b1)(om_account_id meta \<mapsto> s')\<rparr>)"

text \<open>\<^verbatim>\<open>level.update_order(u)\<close> through the shared \<^verbatim>\<open>Arc\<close>: the entry of the map changes. Every
  caller discards the returned value.\<close>

definition level_update :: "'l pl_api \<Rightarrow> side \<Rightarrow> price \<Rightarrow> pl_update \<Rightarrow> 'l book \<Rightarrow> 'l book" where
  "level_update api s p u b =
     (case btm_get (levels_of s b) p of
        None \<Rightarrow> b
      | Some l \<Rightarrow> set_levels s (btm_insert p (pl_update_order api l u) (levels_of s b)) b)"

text \<open>\<^verbatim>\<open>if level.order_count() == 0 { levels.remove(&price) }\<close>.\<close>

definition prune_level :: "'l pl_api \<Rightarrow> side \<Rightarrow> price \<Rightarrow> 'l book \<Rightarrow> 'l book" where
  "prune_level api s p b =
     (case btm_get (levels_of s b) p of
        None \<Rightarrow> b
      | Some l \<Rightarrow> if pl_order_count api l = 0
                  then set_levels s (btm_remove p (levels_of s b)) b else b)"

definition cancel ::
  "'l pl_api \<Rightarrow> 'l book \<Rightarrow> order_id \<Rightarrow> (book_error + side \<times> price) \<times> 'l book" where
  "cancel api b oid =
     (case index b oid of
        None \<Rightarrow> (Inl BE_UnknownOrderId, b)
      | Some meta \<Rightarrow>
          (case btm_get (levels_of (om_side meta) b) (om_price meta) of
             None \<Rightarrow> (Inl BE_UnknownOrderId, b)
           | Some _ \<Rightarrow>
               let b1 = level_update api (om_side meta) (om_price meta)
                          (PlCancel (Sequential (order_id_raw oid))) b;
                   b2 = prune_level api (om_side meta) (om_price meta) b1
               in (Inr (om_side meta, om_price meta), drop_from_indices b2 oid)))"

section \<open>Read-only views\<close>

definition best_bid :: "'l book \<Rightarrow> price option" where
  "best_bid b = btm_last_key (bids b)"

definition best_ask :: "'l book \<Rightarrow> price option" where
  "best_ask b = btm_first_key (asks b)"

definition qty_at_level :: "'l pl_api \<Rightarrow> 'l book \<Rightarrow> side \<Rightarrow> price \<Rightarrow> u64" where
  "qty_at_level api b s p =
     unwrap_or (map_option (\<lambda>l. unwrap_or (pl_total_quantity api l) 0) (btm_get (levels_of s b) p)) 0"

definition bid_levels :: "'l pl_api \<Rightarrow> 'l book \<Rightarrow> (price \<times> u64) list" where
  "bid_levels api b = map (\<lambda>(p, l). (p, unwrap_or (pl_total_quantity api l) 0)) (rev (bids b))"

definition ask_levels :: "'l pl_api \<Rightarrow> 'l book \<Rightarrow> (price \<times> u64) list" where
  "ask_levels api b = map (\<lambda>(p, l). (p, unwrap_or (pl_total_quantity api l) 0)) (asks b)"

text \<open>The \<^verbatim>\<open>u64\<close> sum wraps in the release profile, as word addition does.\<close>

definition side_qty :: "'l pl_api \<Rightarrow> 'l book \<Rightarrow> side \<Rightarrow> u64" where
  "side_qty api b s =
     sum_list (map (\<lambda>(_, l). unwrap_or (pl_total_quantity api l) 0) (levels_of s b))"

definition side_order_count :: "'l pl_api \<Rightarrow> 'l book \<Rightarrow> side \<Rightarrow> nat" where
  "side_order_count api b s = sum_list (map (\<lambda>(_, l). pl_order_count api l) (levels_of s b))"

definition level_order_qty :: "'l pl_api \<Rightarrow> 'l \<Rightarrow> order_id \<Rightarrow> u64 option" where
  "level_order_qty api l oid =
     map_option pl_quantity
       (List.find (\<lambda>x. pl_id x = Sequential (order_id_raw oid)) (pl_iter_orders api l))"

definition resting_qty :: "'l pl_api \<Rightarrow> 'l book \<Rightarrow> order_id \<Rightarrow> qty option" where
  "resting_qty api b oid =
     (case index b oid of
        None \<Rightarrow> None
      | Some meta \<Rightarrow>
          (case btm_get (levels_of (om_side meta) b) (om_price meta) of
             None \<Rightarrow> None
           | Some l \<Rightarrow> (case level_order_qty api l oid of
                          None \<Rightarrow> None | Some q \<Rightarrow> ok (Qty_new q))))"

text \<open>\<^verbatim>\<open>taker_price >= level_price\<close> for a buyer, \<^verbatim>\<open><=\<close> for a seller.\<close>

fun crosses :: "side \<Rightarrow> price \<Rightarrow> price \<Rightarrow> bool" where
  "crosses Bid taker_price level_price \<longleftrightarrow> taker_price \<ge> level_price"
| "crosses Ask taker_price level_price \<longleftrightarrow> taker_price \<le> level_price"

fun best_opposite :: "side \<Rightarrow> 'l book \<Rightarrow> price option" where
  "best_opposite Bid b = best_ask b"
| "best_opposite Ask b = best_bid b"

definition would_cross :: "'l book \<Rightarrow> side \<Rightarrow> price option \<Rightarrow> bool" where
  "would_cross b taker_side taker_price =
     (case (taker_price, best_opposite taker_side b) of
        (None, Some _) \<Rightarrow> True
      | (None, None) \<Rightarrow> False
      | (Some _, None) \<Rightarrow> False
      | (Some p, Some opp) \<Rightarrow> crosses taker_side p opp)"

section \<open>The matching walk\<close>

text \<open>The mutable state of \<^verbatim>\<open>match_aggressive\<close>: the book, the id generator, the two output
  buffers and the locals \<^verbatim>\<open>remaining\<close> and \<^verbatim>\<open>taker_stp_cancelled\<close>.\<close>

record ('l, 'i) walk =
  w_book :: "'l book"
  w_ids :: 'i
  w_fills :: "fill list"
  w_stp :: "stp_cancellation list"
  w_remaining :: u64
  w_stp_cancelled :: bool

text \<open>\<^verbatim>\<open>break 'level\<close> and \<^verbatim>\<open>break 'walk\<close>.\<close>

datatype level_exit = BreakLevel | BreakWalk

text \<open>The self-trade branch: drop the maker, record it, signal the taker, prune the level.\<close>

definition stp_cancel_maker ::
  "'l pl_api \<Rightarrow> aggressive_order \<Rightarrow> price \<Rightarrow> pl_order \<Rightarrow> order_id \<Rightarrow> order_meta \<Rightarrow>
   ('l, 'i) walk \<Rightarrow> ('l, 'i) walk" where
  "stp_cancel_maker api taker level_price head oid meta w =
     (let opp = opposite (ao_side taker);
          b1 = level_update api opp level_price (PlCancel (pl_id head)) (w_book w);
          b2 = drop_from_indices b1 oid
      in w\<lparr>w_book := prune_level api opp level_price b2,
           w_stp := w_stp w @
             [\<lparr>sc_order_id = oid, sc_account_id = om_account_id meta, sc_side = om_side meta,
               sc_price = level_price,
               sc_qty = unwrap_or (ok (Qty_new (pl_quantity head))) Qty_MIN\<rparr>],
           w_stp_cancelled := True\<rparr>)"

text \<open>The book after crossing the head of the queue for \<open>fill_qty\<close> lots.\<close>

definition consume_maker ::
  "'l pl_api \<Rightarrow> side \<Rightarrow> price \<Rightarrow> pl_order \<Rightarrow> order_id \<Rightarrow> u64 \<Rightarrow> 'l book \<Rightarrow> 'l book" where
  "consume_maker api opp level_price head oid fill_qty b =
     (let new_head_qty = pl_quantity head - fill_qty
      in if new_head_qty = 0
         then drop_from_indices (level_update api opp level_price (PlCancel (pl_id head)) b) oid
         else level_update api opp level_price (PlUpdateQuantity (pl_id head) new_head_qty) b)"

text \<open>The inner loop over the snapshot of one level. A partially filled head stays in front, so
  the next iteration sees it again and leaves through \<^verbatim>\<open>remaining == 0\<close>.\<close>

function (sequential) match_level ::
  "'l pl_api \<Rightarrow> ('i \<Rightarrow> (trade_id \<times> 'i) option) \<Rightarrow> aggressive_order \<Rightarrow> price \<Rightarrow>
   pl_order list \<Rightarrow> ('l, 'i) walk \<Rightarrow> (level_exit \<times> ('l, 'i) walk) option" where
  "match_level api next_trade_id taker level_price snap w =
     (if w_remaining w = 0 then Some (BreakLevel, w)
      else case snap of
        [] \<Rightarrow> Some (BreakLevel, w)
      | head # rest \<Rightarrow>
          (case pl_id_to_domain (pl_id head) of
             None \<Rightarrow> None
           | Some oid \<Rightarrow>
               (case index (w_book w) oid of
                  None \<Rightarrow> Some (BreakWalk, w)
                | Some meta \<Rightarrow>
                    if om_account_id meta = ao_account_id taker
                    then Some (BreakWalk, stp_cancel_maker api taker level_price head oid meta w)
                    else if pl_quantity head = 0 then Some (BreakWalk, w)
                    else
                      let fill_qty = min (w_remaining w) (pl_quantity head);
                          full = (pl_quantity head - fill_qty = 0);
                          b' = consume_maker api (opposite (ao_side taker)) level_price head oid
                                 fill_qty (w_book w)
                      in case Qty_new fill_qty of
                           Inl _ \<Rightarrow> Some (BreakWalk, w\<lparr>w_book := b'\<rparr>)
                         | Inr fq \<Rightarrow>
                             (case next_trade_id (w_ids w) of
                                None \<Rightarrow> None
                              | Some (tid, ids') \<Rightarrow>
                                  match_level api next_trade_id taker level_price
                                    (if full then rest else head # rest)
                                    (w\<lparr>w_book := b', w_ids := ids',
                                       w_fills := w_fills w @
                                         [\<lparr>f_trade_id = tid, f_maker_order_id = oid,
                                           f_taker_order_id = ao_order_id taker,
                                           f_maker_side = opposite (ao_side taker),
                                           f_price = level_price, f_qty = fq,
                                           f_maker_fully_filled = full\<rparr>],
                                       w_remaining := w_remaining w - fill_qty\<rparr>)))))"
  by pat_completeness auto
termination
proof (relation "measure (\<lambda>(api, nti, taker, p, snap, w). unat (w_remaining w))", goal_cases)
  case 1
  show ?case by simp
next
  case prems: (2 api next_trade_id taker level_price snap w head rest)
  have "unat (w_remaining w - min (w_remaining w) (pl_quantity head)) < unat (w_remaining w)"
    using prems
    by (auto simp: unat_sub min_def word_le_nat_alt unat_gt_0 simp flip: unat_gt_0)
  then show ?case using prems by simp
qed

declare match_level.simps [simp del]

text \<open>The outer loop. Nothing in the source bounds it: it ends because every pass either stops
  or empties the best level, which depends on the levels behaving as specified.\<close>

partial_function (option) match_walk ::
  "'l pl_api \<Rightarrow> ('i \<Rightarrow> (trade_id \<times> 'i) option) \<Rightarrow> aggressive_order \<Rightarrow>
   ('l, 'i) walk \<Rightarrow> ('l, 'i) walk option" where
  "match_walk api next_trade_id taker w =
     (if w_remaining w = 0 then Some w
      else case best_opposite (ao_side taker) (w_book w) of
        None \<Rightarrow> Some w
      | Some level_price \<Rightarrow>
          if (case ao_price taker of None \<Rightarrow> False
              | Some p \<Rightarrow> \<not> crosses (ao_side taker) p level_price)
          then Some w
          else (case btm_get (levels_of (opposite (ao_side taker)) (w_book w)) level_price of
            None \<Rightarrow> Some w
          | Some level \<Rightarrow>
              (case pl_snapshot_orders api level of
                 None \<Rightarrow> Some w
               | Some snap \<Rightarrow>
                   (case match_level api next_trade_id taker level_price snap w of
                      None \<Rightarrow> None
                    | Some (exit, w') \<Rightarrow>
                        (case exit of
                           BreakWalk \<Rightarrow> Some w'
                         | BreakLevel \<Rightarrow>
                             match_walk api next_trade_id taker
                               (w'\<lparr>w_book := prune_level api (opposite (ao_side taker))
                                                level_price (w_book w')\<rparr>))))))"

declare match_walk.simps [simp del, code]

definition match_aggressive ::
  "'l pl_api \<Rightarrow> ('i \<Rightarrow> (trade_id \<times> 'i) option) \<Rightarrow> 'l book \<Rightarrow> aggressive_order \<Rightarrow> 'i \<Rightarrow>
   fill list \<Rightarrow> stp_cancellation list \<Rightarrow>
   (match_result \<times> 'l book \<times> 'i \<times> fill list \<times> stp_cancellation list) option" where
  "match_aggressive api next_trade_id b taker ids out_fills out_stp =
     (if ao_tif taker = PostOnly \<and> would_cross b (ao_side taker) (ao_price taker)
      then Some (\<lparr>mr_fills_count = 0, mr_stp_cancellations = 0,
                  mr_taker_remaining = Some (ao_qty taker), mr_taker_stp_cancelled = False,
                  mr_taker_post_only_rejected = True\<rparr>, b, ids, out_fills, out_stp)
      else case match_walk api next_trade_id taker
                  \<lparr>w_book = b, w_ids = ids, w_fills = out_fills, w_stp = out_stp,
                   w_remaining = as_lots (ao_qty taker), w_stp_cancelled = False\<rparr> of
        None \<Rightarrow> None
      | Some w \<Rightarrow>
          Some (\<lparr>mr_fills_count = length (w_fills w) - length out_fills,
                 mr_stp_cancellations = length (w_stp w) - length out_stp,
                 mr_taker_remaining = ok (Qty_new (w_remaining w)),
                 mr_taker_stp_cancelled = w_stp_cancelled w,
                 mr_taker_post_only_rejected = False\<rparr>,
                w_book w, w_ids w, w_fills w, w_stp w))"

section \<open>Cancel-replace and mass cancel\<close>

definition replace ::
  "'l pl_api \<Rightarrow> ('i \<Rightarrow> (trade_id \<times> 'i) option) \<Rightarrow> 'l book \<Rightarrow> order_id \<Rightarrow> price \<Rightarrow> qty \<Rightarrow> 'i \<Rightarrow>
   fill list \<Rightarrow> stp_cancellation list \<Rightarrow>
   ((book_error + replace_outcome) \<times> 'l book \<times> 'i \<times> fill list \<times> stp_cancellation list) option" where
  "replace api next_trade_id b oid new_price new_qty ids out_fills out_stp =
     (case index b oid of
        None \<Rightarrow> Some (Inl BE_UnknownOrderId, b, ids, out_fills, out_stp)
      | Some meta \<Rightarrow>
          let current_qty = unwrap_or (resting_qty api b oid) Qty_MIN;
              price_changed = (new_price \<noteq> om_price meta);
              qty_increased = (new_qty > current_qty);
              kept_priority = (\<not> price_changed \<and> \<not> qty_increased)
          in if kept_priority then
               (case btm_get (levels_of (om_side meta) b) (om_price meta) of
                  None \<Rightarrow> Some (Inl BE_UnknownOrderId, b, ids, out_fills, out_stp)
                | Some _ \<Rightarrow>
                    Some (Inr \<lparr>rp_kept_priority = True, rp_match_result = None\<rparr>,
                          level_update api (om_side meta) (om_price meta)
                            (PlUpdateQuantity (Sequential (order_id_raw oid)) (as_lots new_qty)) b,
                          ids, out_fills, out_stp))
             else if om_tif meta = PostOnly \<and> would_cross b (om_side meta) (Some new_price) then
               Some (Inr \<lparr>rp_kept_priority = False,
                          rp_match_result = Some
                            \<lparr>mr_fills_count = 0, mr_stp_cancellations = 0,
                             mr_taker_remaining = Some new_qty, mr_taker_stp_cancelled = False,
                             mr_taker_post_only_rejected = True\<rparr>\<rparr>,
                     b, ids, out_fills, out_stp)
             else
               (case cancel api b oid of
                  (Inl e, b1) \<Rightarrow> Some (Inl e, b1, ids, out_fills, out_stp)
                | (Inr _, b1) \<Rightarrow>
                    (case match_aggressive api next_trade_id b1
                            \<lparr>ao_order_id = oid, ao_account_id = om_account_id meta,
                             ao_side = om_side meta, ao_price = Some new_price,
                             ao_qty = new_qty, ao_tif = om_tif meta\<rparr> ids out_fills out_stp of
                       None \<Rightarrow> None
                     | Some (result, b2, ids', fills', stp') \<Rightarrow>
                         let outcome = \<lparr>rp_kept_priority = False, rp_match_result = Some result\<rparr>
                         in case (mr_taker_stp_cancelled result, mr_taker_remaining result) of
                              (False, Some remaining) \<Rightarrow>
                                (case add_resting api b2
                                        \<lparr>ro_order_id = oid, ro_account_id = om_account_id meta,
                                         ro_side = om_side meta, ro_price = new_price,
                                         ro_qty = remaining, ro_tif = om_tif meta\<rparr> of
                                   (Inl e, b3) \<Rightarrow> Some (Inl e, b3, ids', fills', stp')
                                 | (Inr _, b3) \<Rightarrow> Some (Inr outcome, b3, ids', fills', stp'))
                            | _ \<Rightarrow> Some (Inr outcome, b2, ids', fills', stp'))))"

text \<open>One round of the mass-cancel loop.\<close>

definition mass_cancel_one ::
  "'l pl_api \<Rightarrow> order_id \<Rightarrow> 'l book \<times> mass_cancellation list \<Rightarrow> 'l book \<times> mass_cancellation list" where
  "mass_cancel_one api oid st =
     (case st of (b, out) \<Rightarrow>
        (case index b oid of
           None \<Rightarrow> (b, out)
         | Some meta \<Rightarrow>
             let level = btm_get (levels_of (om_side meta) b) (om_price meta);
                 q = unwrap_or
                       (case level of
                          None \<Rightarrow> None
                        | Some l \<Rightarrow> (case level_order_qty api l oid of
                                       None \<Rightarrow> None | Some raw \<Rightarrow> ok (Qty_new raw))) Qty_MIN;
                 b1 = prune_level api (om_side meta) (om_price meta)
                        (level_update api (om_side meta) (om_price meta)
                          (PlCancel (Sequential (order_id_raw oid))) b)
             in (drop_from_indices b1 oid,
                 out @ [\<lparr>mc_order_id = oid, mc_account_id = om_account_id meta,
                         mc_side = om_side meta, mc_price = om_price meta, mc_qty = q\<rparr>])))"

definition mass_cancel ::
  "'l pl_api \<Rightarrow> 'l book \<Rightarrow> account_id \<Rightarrow> mass_cancellation list \<Rightarrow>
   nat \<times> 'l book \<times> mass_cancellation list" where
  "mass_cancel api b account out =
     (case by_account b account of
        None \<Rightarrow> (0, b, out)
      | Some ids \<Rightarrow>
          (case fold (mass_cancel_one api) ids (b, out) of
             (b', out') \<Rightarrow> (length out' - length out, b', out')))"

end
