(* ===== verification/Book_Inv.thy ===== *)
theory Book_Inv
  imports Book
begin

text \<open>
  The representation invariant of the book and what each operation does to it. The levels are
  seen through \<open>queue_at\<close>, the content of one side at one price; \<open>view_wf\<close> is the consistency of
  these queues with the two indices and the arrival counter, \<open>book_wf\<close> adds that the maps are
  sorted and hold valid levels, and \<open>book_inv\<close> that no level is empty. The matching walk empties
  the best level before it prunes it, so it maintains \<open>book_wf\<close> in between.
\<close>

section \<open>The view of a book\<close>

definition queue_at :: "('l \<Rightarrow> pl_order list) \<Rightarrow> 'l book \<Rightarrow> side \<Rightarrow> price \<Rightarrow> pl_order list" where
  "queue_at queue b s p = (case btm_get (levels_of s b) p of None \<Rightarrow> [] | Some l \<Rightarrow> queue l)"

text \<open>A resting entry: a positive quantity, an arrival stamp not after the counter, and an id the
  index maps to exactly this side and price.\<close>

definition entry_wf ::
  "(order_id \<rightharpoonup> order_meta) \<Rightarrow> u64 \<Rightarrow> side \<Rightarrow> price \<Rightarrow> pl_order \<Rightarrow> bool" where
  "entry_wf idx n s p x \<longleftrightarrow>
     pl_quantity x \<noteq> 0 \<and> pl_timestamp x \<le> n \<and>
     (\<exists>oid m. order_id_ok oid \<and> pl_id x = Sequential (order_id_raw oid) \<and> idx oid = Some m \<and>
              om_side m = s \<and> om_price m = p)"

definition queue_wf ::
  "(order_id \<rightharpoonup> order_meta) \<Rightarrow> u64 \<Rightarrow> side \<Rightarrow> price \<Rightarrow> pl_order list \<Rightarrow> bool" where
  "queue_wf idx n s p xs \<longleftrightarrow>
     sorted_wrt (\<lambda>x y. pl_timestamp x < pl_timestamp y) xs \<and> distinct (map pl_id xs) \<and>
     (\<forall>x \<in> set xs. entry_wf idx n s p x)"

definition index_wf ::
  "(side \<Rightarrow> price \<Rightarrow> pl_order list) \<Rightarrow> (order_id \<rightharpoonup> order_meta) \<Rightarrow> bool" where
  "index_wf Q idx \<longleftrightarrow>
     (\<forall>oid m. idx oid = Some m \<longrightarrow>
        Sequential (order_id_raw oid) \<in> pl_id ` set (Q (om_side m) (om_price m)))"

definition account_orders :: "(account_id \<rightharpoonup> order_id list) \<Rightarrow> account_id \<Rightarrow> order_id list" where
  "account_orders acc a = unwrap_or (acc a) []"

definition accounts_wf :: "(order_id \<rightharpoonup> order_meta) \<Rightarrow> (account_id \<rightharpoonup> order_id list) \<Rightarrow> bool" where
  "accounts_wf idx acc \<longleftrightarrow>
     (\<forall>a. bts_ok (account_orders acc a) \<and> acc a \<noteq> Some [] \<and>
        (\<forall>oid. oid \<in> set (account_orders acc a) \<longleftrightarrow>
               (\<exists>m. idx oid = Some m \<and> om_account_id m = a)))"

definition view_wf ::
  "(side \<Rightarrow> price \<Rightarrow> pl_order list) \<Rightarrow> (order_id \<rightharpoonup> order_meta) \<Rightarrow>
   (account_id \<rightharpoonup> order_id list) \<Rightarrow> u64 \<Rightarrow> bool" where
  "view_wf Q idx acc n \<longleftrightarrow>
     (\<forall>s p. queue_wf idx n s p (Q s p)) \<and> index_wf Q idx \<and> accounts_wf idx acc"

definition levels_wf :: "('l \<Rightarrow> bool) \<Rightarrow> 'l book \<Rightarrow> bool" where
  "levels_wf level_ok b \<longleftrightarrow>
     (\<forall>s. btm_ok (levels_of s b) \<and> (\<forall>(p, l) \<in> set (levels_of s b). level_ok l))"

definition book_wf :: "('l \<Rightarrow> pl_order list) \<Rightarrow> ('l \<Rightarrow> bool) \<Rightarrow> 'l book \<Rightarrow> bool" where
  "book_wf queue level_ok b \<longleftrightarrow>
     levels_wf level_ok b \<and> view_wf (queue_at queue b) (index b) (by_account b) (book_seq b)"

definition pruned :: "('l \<Rightarrow> pl_order list) \<Rightarrow> 'l book \<Rightarrow> bool" where
  "pruned queue b \<longleftrightarrow> (\<forall>s. \<forall>(p, l) \<in> set (levels_of s b). queue l \<noteq> [])"

definition book_inv :: "('l \<Rightarrow> pl_order list) \<Rightarrow> ('l \<Rightarrow> bool) \<Rightarrow> 'l book \<Rightarrow> bool" where
  "book_inv queue level_ok b \<longleftrightarrow> book_wf queue level_ok b \<and> pruned queue b"

section \<open>Preservation on views\<close>

abbreviation at_level :: "side \<Rightarrow> price \<Rightarrow> pl_order list \<Rightarrow> (side \<Rightarrow> price \<Rightarrow> pl_order list) \<Rightarrow>
    side \<Rightarrow> price \<Rightarrow> pl_order list" where
  "at_level s p xs Q \<equiv> Q(s := (Q s)(p := xs))"

text \<open>The effect of \<^verbatim>\<open>drop_from_indices\<close> and of \<^verbatim>\<open>add_resting\<close> on the account index.\<close>

definition acc_drop :: "(account_id \<rightharpoonup> order_id list) \<Rightarrow> account_id \<Rightarrow> order_id \<Rightarrow> account_id \<rightharpoonup> order_id list" where
  "acc_drop acc a oid =
     (case acc a of None \<Rightarrow> acc
      | Some s \<Rightarrow> if bts_remove oid s = [] then acc(a := None) else acc(a \<mapsto> bts_remove oid s))"

definition acc_add :: "(account_id \<rightharpoonup> order_id list) \<Rightarrow> account_id \<Rightarrow> order_id \<Rightarrow> account_id \<rightharpoonup> order_id list" where
  "acc_add acc a oid = acc(a \<mapsto> bts_insert oid (account_orders acc a))"

lemma account_orders_drop:
  "account_orders (acc_drop acc a oid) a' =
     (if a' = a then bts_remove oid (account_orders acc a) else account_orders acc a')"
  by (auto simp: acc_drop_def account_orders_def bts_remove_def split: option.splits)

lemma account_orders_add:
  "account_orders (acc_add acc a oid) a' =
     (if a' = a then bts_insert oid (account_orders acc a) else account_orders acc a')"
  by (auto simp: acc_add_def account_orders_def)

lemma acc_drop_not_Nil: "acc a' \<noteq> Some [] \<Longrightarrow> acc_drop acc a oid a' \<noteq> Some []"
  by (auto simp: acc_drop_def split: option.splits)

lemma acc_add_not_Nil: "acc a' \<noteq> Some [] \<Longrightarrow> acc_add acc a oid a' \<noteq> Some []"
  using bts_insert_set [of oid "account_orders acc a"] by (auto simp: acc_add_def simp del: bts_insert_set)

lemma accounts_wf_drop:
  assumes "accounts_wf idx acc" "idx oid = Some m"
  shows "accounts_wf (idx(oid := None)) (acc_drop acc (om_account_id m) oid)"
  using assms
  by (auto simp: accounts_wf_def account_orders_drop bts_remove_ok acc_drop_not_Nil)

lemma accounts_wf_add:
  assumes "accounts_wf idx acc" "idx oid = None"
  shows "accounts_wf (idx(oid \<mapsto> m)) (acc_add acc (om_account_id m) oid)"
  using assms
  by (auto simp: accounts_wf_def account_orders_add bts_insert_ok acc_add_not_Nil)

lemma order_id_raw_inject [simp]: "order_id_raw a = order_id_raw b \<longleftrightarrow> a = b"
  by (cases a; cases b) simp

lemma entry_wf_drop:
  "entry_wf idx n s p x \<Longrightarrow> pl_id x \<noteq> Sequential (order_id_raw oid) \<Longrightarrow>
   entry_wf (idx(oid := None)) n s p x"
  by (auto simp: entry_wf_def)

lemma entry_wf_elsewhere:
  "entry_wf idx n s p x \<Longrightarrow> idx oid = Some m \<Longrightarrow> (s, p) \<noteq> (om_side m, om_price m) \<Longrightarrow>
   pl_id x \<noteq> Sequential (order_id_raw oid)"
  by (auto simp: entry_wf_def)

lemma entry_wf_add:
  "entry_wf idx n s p x \<Longrightarrow> idx oid = None \<Longrightarrow> n \<le> n' \<Longrightarrow> entry_wf (idx(oid \<mapsto> m)) n' s p x"
  by (auto simp: entry_wf_def)

lemma queue_wf_filter:
  "queue_wf idx n s p xs \<Longrightarrow>
   queue_wf (idx(oid := None)) n s p (filter (\<lambda>x. pl_id x \<noteq> Sequential (order_id_raw oid)) xs)"
  by (auto simp: queue_wf_def sorted_wrt_filter distinct_map_filter intro: entry_wf_drop)

lemma queue_wf_drop_elsewhere:
  assumes "queue_wf idx n s p xs" "idx oid = Some m" "(s, p) \<noteq> (om_side m, om_price m)"
  shows "queue_wf (idx(oid := None)) n s p xs"
  using assms entry_wf_drop entry_wf_elsewhere unfolding queue_wf_def by blast

lemma view_wf_drop:
  assumes "view_wf Q idx acc n" "idx oid = Some m"
  shows "view_wf (at_level (om_side m) (om_price m)
            (filter (\<lambda>x. pl_id x \<noteq> Sequential (order_id_raw oid)) (Q (om_side m) (om_price m))) Q)
          (idx(oid := None)) (acc_drop acc (om_account_id m) oid) n"
proof -
  have "index_wf (at_level (om_side m) (om_price m)
            (filter (\<lambda>x. pl_id x \<noteq> Sequential (order_id_raw oid)) (Q (om_side m) (om_price m))) Q)
          (idx(oid := None))"
    using assms by (fastforce simp: view_wf_def index_wf_def)
  then show ?thesis
    using assms
    by (auto simp: view_wf_def accounts_wf_drop queue_wf_filter
        intro: queue_wf_drop_elsewhere [where m = m])
qed

lemma view_wf_add:
  assumes "view_wf Q idx acc n" "idx oid = None" "order_id_ok oid" "n < n'"
    and "pl_id x = Sequential (order_id_raw oid)" "pl_quantity x \<noteq> 0" "pl_timestamp x = n'"
  shows "view_wf (at_level (om_side m) (om_price m) (Q (om_side m) (om_price m) @ [x]) Q)
          (idx(oid \<mapsto> m)) (acc_add acc (om_account_id m) oid) n'"
proof -
  have old: "entry_wf idx n s p y \<Longrightarrow>
      entry_wf (idx(oid \<mapsto> m)) n' s p y \<and> pl_timestamp y < n' \<and> pl_id y \<noteq> pl_id x" for s p y
    using assms by (auto simp: entry_wf_def)
  have new: "entry_wf (idx(oid \<mapsto> m)) n' (om_side m) (om_price m) x"
    using assms by (auto simp: entry_wf_def)
  have "queue_wf (idx(oid \<mapsto> m)) n' s p (Q s p)" for s p
    using assms(1) old by (auto simp: view_wf_def queue_wf_def)
  moreover have "queue_wf (idx(oid \<mapsto> m)) n' (om_side m) (om_price m)
      (Q (om_side m) (om_price m) @ [x])"
    using assms(1,7) old new by (fastforce simp: view_wf_def queue_wf_def sorted_wrt_append)
  moreover have "index_wf (at_level (om_side m) (om_price m) (Q (om_side m) (om_price m) @ [x]) Q)
      (idx(oid \<mapsto> m))"
    using assms(1,5) by (fastforce simp: view_wf_def index_wf_def)
  ultimately show ?thesis
    using assms by (auto simp: view_wf_def accounts_wf_add)
qed

text \<open>Replacing the quantity of the entries with one id, the effect of \<^verbatim>\<open>UpdateQuantity\<close>.\<close>

definition set_qty :: "pl_ident \<Rightarrow> u64 \<Rightarrow> pl_order \<Rightarrow> pl_order" where
  "set_qty i q x = (if pl_id x = i then x\<lparr>pl_quantity := q\<rparr> else x)"

lemma set_qty_frame [simp]:
  "pl_id (set_qty i q x) = pl_id x" "pl_timestamp (set_qty i q x) = pl_timestamp x"
  by (simp_all add: set_qty_def)

lemma map_pl_id_set_qty [simp]: "map (pl_id \<circ> set_qty i q) xs = map pl_id xs"
  by simp

lemma entry_wf_set_qty: "entry_wf idx n s p x \<Longrightarrow> q \<noteq> 0 \<Longrightarrow> entry_wf idx n s p (set_qty i q x)"
  by (simp add: entry_wf_def) (simp add: set_qty_def)

lemma view_wf_set_qty:
  assumes "view_wf Q idx acc n" "q \<noteq> 0"
  shows "view_wf (at_level s p (map (set_qty i q) (Q s p)) Q) idx acc n"
proof -
  have "queue_wf idx n s p (map (set_qty i q) (Q s p))"
    using assms by (auto simp: view_wf_def queue_wf_def sorted_wrt_map entry_wf_set_qty)
  moreover have "index_wf (at_level s p (map (set_qty i q) (Q s p)) Q) idx"
    using assms by (auto simp: view_wf_def index_wf_def image_image)
  ultimately show ?thesis using assms by (auto simp: view_wf_def)
qed

text \<open>Removing an indexed order from its level and from the indices, the effect every removing
  operation has before it prunes.\<close>

definition removed :: "'l pl_api \<Rightarrow> order_id \<Rightarrow> order_meta \<Rightarrow> 'l book \<Rightarrow> 'l book" where
  "removed api oid m b =
     drop_from_indices (level_update api (om_side m) (om_price m)
       (PlCancel (Sequential (order_id_raw oid))) b) oid"

section \<open>What the operations leave unchanged\<close>

lemma levels_of_set_levels [simp, book_frame]:
  "levels_of s' (set_levels s m b) = (if s' = s then m else levels_of s' b)"
  by (cases s; cases s') simp_all

lemma set_levels_frame [simp, book_frame]:
  "index (set_levels s m b) = index b" "by_account (set_levels s m b) = by_account b"
  "book_seq (set_levels s m b) = book_seq b"
  by (cases s; simp)+

lemma levels_of_update_frame [simp, book_frame]:
  "levels_of s (b\<lparr>index := i\<rparr>) = levels_of s b" "levels_of s (b\<lparr>by_account := a\<rparr>) = levels_of s b"
  "levels_of s (b\<lparr>book_seq := n\<rparr>) = levels_of s b"
  by (cases s; simp)+

lemma set_levels_id: "levels_of s b = m \<Longrightarrow> set_levels s m b = b"
  by (cases s) auto

lemma drop_from_indices_frame [simp, book_frame]:
  "levels_of s (drop_from_indices b oid) = levels_of s b"
  "book_seq (drop_from_indices b oid) = book_seq b"
  "index (drop_from_indices b oid) = (index b)(oid := None)"
  by (auto simp: drop_from_indices_def Let_def split: option.splits)

lemma by_account_drop_from_indices:
  "by_account (drop_from_indices b oid) =
     (case index b oid of None \<Rightarrow> by_account b
      | Some m \<Rightarrow> acc_drop (by_account b) (om_account_id m) oid)"
  by (auto simp: drop_from_indices_def acc_drop_def Let_def split: option.splits)

lemma level_update_frame [simp, book_frame]:
  "index (level_update api s p u b) = index b"
  "by_account (level_update api s p u b) = by_account b"
  "book_seq (level_update api s p u b) = book_seq b"
  "s' \<noteq> s \<Longrightarrow> levels_of s' (level_update api s p u b) = levels_of s' b"
  by (auto simp: level_update_def split: option.splits)

lemma prune_level_frame [simp, book_frame]:
  "index (prune_level api s p b) = index b"
  "by_account (prune_level api s p b) = by_account b"
  "book_seq (prune_level api s p b) = book_seq b"
  "s' \<noteq> s \<Longrightarrow> levels_of s' (prune_level api s p b) = levels_of s' b"
  by (auto simp: prune_level_def split: option.splits)

lemma book_eqI:
  assumes "\<And>s. levels_of s b = levels_of s b'" "index b = index b'"
    "by_account b = by_account b'" "book_seq b = book_seq b'"
  shows "b = (b' :: 'l book)"
  using assms(2-) assms(1) [of Bid] assms(1) [of Ask] by simp

text \<open>\<^verbatim>\<open>cancel\<close> and \<^verbatim>\<open>mass_cancel\<close> prune before they drop the index entry, the self-trade branch
  of the walk after it.\<close>

lemma prune_drop_commute:
  "drop_from_indices (prune_level api s p b) oid = prune_level api s p (drop_from_indices b oid)"
proof (rule book_eqI)
  fix s'
  show "levels_of s' (drop_from_indices (prune_level api s p b) oid) =
        levels_of s' (prune_level api s p (drop_from_indices b oid))"
    by (auto simp: prune_level_def split: option.splits)
qed (simp_all add: by_account_drop_from_indices split: option.split)

lemma levels_wfD:
  "levels_wf level_ok b \<Longrightarrow> btm_ok (levels_of s b)"
  "levels_wf level_ok b \<Longrightarrow> btm_get (levels_of s b) p = Some l \<Longrightarrow> level_ok l"
  by (auto simp: levels_wf_def btm_get_def dest!: map_of_SomeD)

lemma levels_wf_cong:
  "(\<And>s. levels_of s b' = levels_of s b) \<Longrightarrow> levels_wf level_ok b' \<longleftrightarrow> levels_wf level_ok b"
  by (simp add: levels_wf_def)

lemma queue_at_cong:
  "(\<And>s. levels_of s b' = levels_of s b) \<Longrightarrow> queue_at queue b' = queue_at queue b"
  by (simp add: queue_at_def fun_eq_iff)

lemma btm_insert_mem: "y \<in> set (btm_insert k v m) \<Longrightarrow> y = (k, v) \<or> y \<in> set m"
  by (induction k v m rule: btm_insert.induct) (auto split: if_splits)

lemma levels_wf_insert:
  assumes "levels_wf level_ok b" "level_ok l"
  shows "levels_wf level_ok (set_levels s (btm_insert p l (levels_of s b)) b)"
  using assms btm_insert_mem by (fastforce simp: levels_wf_def btm_insert_ok)

lemma levels_wf_remove:
  assumes "levels_wf level_ok b"
  shows "levels_wf level_ok (set_levels s (btm_remove p (levels_of s b)) b)"
  using assms by (auto simp: levels_wf_def btm_remove_ok) (auto simp: btm_remove_def)

lemma queue_at_insert:
  "queue_at queue (set_levels s (btm_insert p l (levels_of s b)) b) =
     at_level s p (queue l) (queue_at queue b)"
  by (auto simp: queue_at_def fun_eq_iff btm_get_insert)

lemma queue_at_remove:
  "queue_at queue (set_levels s (btm_remove p (levels_of s b)) b) =
     at_level s p [] (queue_at queue b)"
  by (auto simp: queue_at_def fun_eq_iff btm_get_remove)

section \<open>The effect of each primitive under the laws of a level\<close>

context price_level
begin

lemma level_okD: "levels_wf level_ok b \<Longrightarrow> btm_get (levels_of s b) p = Some l \<Longrightarrow> level_ok l"
  by (rule levels_wfD(2))

lemma level_update_cancel:
  assumes "levels_wf level_ok b"
  shows "levels_wf level_ok (level_update api s p (PlCancel i) b)"
    and "queue_at queue (level_update api s p (PlCancel i) b) =
         at_level s p (filter (\<lambda>x. pl_id x \<noteq> i) (queue_at queue b s p)) (queue_at queue b)"
proof -
  show "levels_wf level_ok (level_update api s p (PlCancel i) b)"
    using assms by (auto simp: level_update_def levels_wf_insert cancel_ok level_okD
        split: option.splits)
  show "queue_at queue (level_update api s p (PlCancel i) b) =
      at_level s p (filter (\<lambda>x. pl_id x \<noteq> i) (queue_at queue b s p)) (queue_at queue b)"
    using assms
    by (cases "btm_get (levels_of s b) p")
      (auto simp: level_update_def queue_at_insert queue_at_def fun_eq_iff cancel_queue level_okD)
qed

lemma level_update_reduce:
  assumes "levels_wf level_ok b" "x \<in> set (queue_at queue b s p)" "0 < n" "n \<le> pl_quantity x"
  shows "levels_wf level_ok (level_update api s p (PlUpdateQuantity (pl_id x) n) b)"
    and "queue_at queue (level_update api s p (PlUpdateQuantity (pl_id x) n) b) =
         at_level s p (map (set_qty (pl_id x) n) (queue_at queue b s p)) (queue_at queue b)"
proof -
  from assms(2) obtain l where l: "btm_get (levels_of s b) p = Some l" "x \<in> set (queue l)"
    by (cases "btm_get (levels_of s b) p") (auto simp: queue_at_def)
  with assms have ok: "level_ok l" by (auto simp: level_okD)
  show "levels_wf level_ok (level_update api s p (PlUpdateQuantity (pl_id x) n) b)"
    using assms l ok by (auto simp: level_update_def levels_wf_insert reduce_ok)
  have "queue (pl_update_order api l (PlUpdateQuantity (pl_id x) n)) =
      map (set_qty (pl_id x) n) (queue l)"
    using reduce_queue [OF ok l(2) assms(3,4)] by (simp add: set_qty_def [abs_def])
  then show "queue_at queue (level_update api s p (PlUpdateQuantity (pl_id x) n) b) =
         at_level s p (map (set_qty (pl_id x) n) (queue_at queue b s p)) (queue_at queue b)"
    using l by (auto simp: level_update_def queue_at_insert queue_at_def fun_eq_iff)
qed

lemma prune_level_view:
  assumes "levels_wf level_ok b"
  shows "levels_wf level_ok (prune_level api s p b)"
    and "queue_at queue (prune_level api s p b) = queue_at queue b"
proof -
  show "levels_wf level_ok (prune_level api s p b)"
    using assms by (auto simp: prune_level_def levels_wf_remove split: option.splits)
  show "queue_at queue (prune_level api s p b) = queue_at queue b"
  proof (cases "btm_get (levels_of s b) p")
    case (Some l)
    have "queue_at queue b s p = queue l" using Some by (simp add: queue_at_def)
    moreover have "pl_order_count api l = 0 \<longleftrightarrow> queue l = []"
      using assms Some by (intro order_count_0 level_okD)
    ultimately show ?thesis
      using Some by (auto simp: prune_level_def queue_at_remove fun_eq_iff)
  qed (simp add: prune_level_def)
qed

lemma book_wf_prune: "book_wf queue level_ok b \<Longrightarrow> book_wf queue level_ok (prune_level api s p b)"
  by (simp add: book_wf_def prune_level_view)

lemma removed_book_wf:
  assumes "book_wf queue level_ok b" "index b oid = Some m"
  shows "book_wf queue level_ok (removed api oid m b)"
proof -
  let ?i = "Sequential (order_id_raw oid)"
  let ?b = "level_update api (om_side m) (om_price m) (PlCancel ?i) b"
  have Q: "queue_at queue (removed api oid m b) = queue_at queue ?b"
    by (rule queue_at_cong) (simp add: removed_def)
  have "levels_wf level_ok (removed api oid m b)"
    using assms by (simp add: removed_def levels_wf_cong [of "drop_from_indices ?b oid" ?b]
        level_update_cancel book_wf_def)
  then show ?thesis
    using assms view_wf_drop [of "queue_at queue b" "index b" "by_account b" "book_seq b" oid m]
    by (simp add: book_wf_def Q level_update_cancel)
      (simp add: removed_def by_account_drop_from_indices)
qed

lemma removed_queue_at:
  assumes "book_wf queue level_ok b"
  shows "queue_at queue (removed api oid m b) =
    at_level (om_side m) (om_price m)
      (filter (\<lambda>x. pl_id x \<noteq> Sequential (order_id_raw oid))
        (queue_at queue b (om_side m) (om_price m))) (queue_at queue b)"
proof -
  have "queue_at queue (removed api oid m b) =
      queue_at queue (level_update api (om_side m) (om_price m)
        (PlCancel (Sequential (order_id_raw oid))) b)"
    by (rule queue_at_cong) (simp add: removed_def)
  then show ?thesis using assms by (simp add: level_update_cancel book_wf_def)
qed

lemma reduced_book_wf:
  assumes "book_wf queue level_ok b" "x \<in> set (queue_at queue b s p)" "0 < n" "n \<le> pl_quantity x"
  shows "book_wf queue level_ok (level_update api s p (PlUpdateQuantity (pl_id x) n) b)"
  using assms by (simp add: book_wf_def level_update_reduce view_wf_set_qty)

lemma pruned_prune:
  assumes "levels_wf level_ok b" "\<forall>s'. \<forall>(p', l) \<in> set (levels_of s' b). (s', p') \<noteq> (s, p) \<longrightarrow> queue l \<noteq> []"
  shows "pruned queue (prune_level api s p b)"
proof (cases "btm_get (levels_of s b) p")
  case None
  then have "p \<notin> fst ` set (levels_of s b)" by (simp add: btm_get_eq_None)
  then show ?thesis
    using assms(2) None by (fastforce simp: prune_level_def pruned_def case_prod_beta)
next
  case (Some l)
  have ok: "level_ok l" using assms(1) Some by (rule level_okD)
  have uniq: "l' = l" if "(p, l') \<in> set (levels_of s b)" for l'
    using that Some btm_get_eq_Some [OF levels_wfD(1) [OF assms(1)], of s p l'] by simp
  show ?thesis
  proof (cases "queue l = []")
    case True
    then have "prune_level api s p b = set_levels s (btm_remove p (levels_of s b)) b"
      using Some ok by (simp add: prune_level_def order_count_0)
    then show ?thesis using assms(2) by (auto simp: pruned_def btm_remove_def)
  next
    case False
    then have "prune_level api s p b = b"
      using Some ok by (simp add: prune_level_def order_count_0)
    then show ?thesis using assms(2) uniq False by (fastforce simp: pruned_def)
  qed
qed

end

end
