(* ===== verification/Book_Ops.thy ===== *)
theory Book_Ops
  imports Book_Inv
begin

text \<open>
  The contracts of \<^verbatim>\<open>add_resting\<close>, \<^verbatim>\<open>cancel\<close>, \<^verbatim>\<open>resting_qty\<close> and \<^verbatim>\<open>mass_cancel\<close> under the
  invariant of the book: which branch is taken, what changes, and that the invariant is kept.
\<close>

text \<open>The quantity of a resting order, read off the queue it stands in.\<close>

definition resting_lots :: "('l \<Rightarrow> pl_order list) \<Rightarrow> 'l book \<Rightarrow> order_id \<Rightarrow> u64 option" where
  "resting_lots queue b oid =
     (case index b oid of None \<Rightarrow> None
      | Some m \<Rightarrow> map_option pl_quantity
          (List.find (\<lambda>x. pl_id x = Sequential (order_id_raw oid))
            (queue_at queue b (om_side m) (om_price m))))"

text \<open>The record \<^verbatim>\<open>mass_cancel\<close> appends for one order.\<close>

definition mass_record :: "('l \<Rightarrow> pl_order list) \<Rightarrow> 'l book \<Rightarrow> order_id \<Rightarrow> mass_cancellation" where
  "mass_record queue b oid =
     (let m = the (index b oid)
      in \<lparr>mc_order_id = oid, mc_account_id = om_account_id m, mc_side = om_side m,
          mc_price = om_price m, mc_qty = Qty (the (resting_lots queue b oid))\<rparr>)"

definition owned_by :: "(order_id \<rightharpoonup> order_meta) \<Rightarrow> account_id \<Rightarrow> order_id \<Rightarrow> bool" where
  "owned_by idx a oid \<longleftrightarrow> (case idx oid of None \<Rightarrow> False | Some m \<Rightarrow> om_account_id m = a)"

section \<open>Generic facts\<close>

lemma find_unique:
  "x \<in> set xs \<Longrightarrow> f x = a \<Longrightarrow> distinct (map f xs) \<Longrightarrow> List.find (\<lambda>x. f x = a) xs = Some x"
  by (induction xs) (auto simp: rev_image_eqI)

lemma find_distinct_mset:
  assumes "mset xs = mset ys" "distinct (map f ys)"
  shows "List.find (\<lambda>x. f x = a) xs = List.find (\<lambda>x. f x = a) ys"
proof (cases "\<exists>y \<in> set ys. f y = a")
  case True
  then obtain y where y: "y \<in> set ys" "f y = a" by blast
  have "mset (map f xs) = mset (map f ys)" using assms(1) by simp
  then have "distinct (map f xs)" using assms(2) by (metis mset_eq_imp_distinct_iff)
  moreover have "y \<in> set xs" using y(1) assms(1) by (metis set_mset_mset)
  ultimately show ?thesis using y assms(2) by (simp add: find_unique)
next
  case False
  moreover have "set xs = set ys" using assms(1) by (metis set_mset_mset)
  ultimately have "List.find (\<lambda>x. f x = a) xs = None" "List.find (\<lambda>x. f x = a) ys = None"
    by (simp_all add: find_None_iff)
  then show ?thesis by simp
qed

lemma find_filter_other:
  "(\<And>x. P x \<Longrightarrow> R x) \<Longrightarrow> List.find P (filter R xs) = List.find P xs"
  by (induction xs) auto

lemma btm_insert_id: "btm_ok m \<Longrightarrow> btm_get m k = Some v \<Longrightarrow> btm_insert k v m = m"
  by (metis append_Cons append_Nil btm_insert_segments btm_segments option.simps(5))

lemma btm_remove_insert_fresh:
  "btm_ok m \<Longrightarrow> btm_get m k = None \<Longrightarrow> btm_remove k (btm_insert k v m) = m"
proof -
  assume a: "btm_ok m" "btm_get m k = None"
  have "btm_remove k (btm_insert k v m) = btm_remove k m" for m :: "('a, 'b) btm"
    by (induction k v m rule: btm_insert.induct) (auto simp: btm_remove_def)
  moreover have "btm_remove k m = m"
    using a(2) by (auto simp: btm_remove_def btm_get_eq_None image_iff intro!: filter_True)
  ultimately show ?thesis by simp
qed

lemma btm_insert_insert: "btm_ok m \<Longrightarrow> btm_insert k v (btm_insert k w m) = btm_insert k v m"
  by (induction k w m rule: btm_insert.induct) (auto simp: btm_ok_Cons)

section \<open>The invariant on the empty book\<close>

lemma Book_new_fields [simp]:
  "levels_of s Book_new = []" "index Book_new = Map.empty" "by_account Book_new = Map.empty"
  "book_seq Book_new = 0"
  by (cases s; simp add: Book_new_def)+

lemma Book_new_inv: "book_inv queue level_ok Book_new"
  by (simp add: book_inv_def book_wf_def levels_wf_def view_wf_def queue_wf_def index_wf_def
      accounts_wf_def account_orders_def pruned_def queue_at_def bts_ok_def btm_get_def)

section \<open>Reading a resting order\<close>

lemma book_wf_index:
  assumes "book_wf queue level_ok b" "index b oid = Some m"
  shows "\<exists>l x. btm_get (levels_of (om_side m) b) (om_price m) = Some l \<and>
           x \<in> set (queue_at queue b (om_side m) (om_price m)) \<and>
           pl_id x = Sequential (order_id_raw oid) \<and>
           entry_wf (index b) (book_seq b) (om_side m) (om_price m) x \<and>
           resting_lots queue b oid = Some (pl_quantity x)"
proof -
  let ?xs = "queue_at queue b (om_side m) (om_price m)"
  obtain x where x: "x \<in> set ?xs" "pl_id x = Sequential (order_id_raw oid)"
    using assms unfolding book_wf_def view_wf_def index_wf_def by (metis imageE)
  obtain l where l: "btm_get (levels_of (om_side m) b) (om_price m) = Some l"
    using x(1) by (cases "btm_get (levels_of (om_side m) b) (om_price m)") (auto simp: queue_at_def)
  have wf: "queue_wf (index b) (book_seq b) (om_side m) (om_price m) ?xs"
    using assms(1) by (simp add: book_wf_def view_wf_def)
  then have d: "distinct (map pl_id ?xs)" and e: "entry_wf (index b) (book_seq b) (om_side m) (om_price m) x"
    using x by (auto simp: queue_wf_def)
  have "List.find (\<lambda>x. pl_id x = Sequential (order_id_raw oid)) ?xs = Some x"
    using find_unique [OF x d] .
  then show ?thesis using x l e assms(2) by (auto simp: resting_lots_def)
qed

lemma book_wf_levels: "book_wf queue level_ok b \<Longrightarrow> levels_wf level_ok b"
  by (simp add: book_wf_def)

lemma book_wf_queue:
  "book_wf queue level_ok b \<Longrightarrow> queue_wf (index b) (book_seq b) s p (queue_at queue b s p)"
  by (simp add: book_wf_def view_wf_def)

lemma book_wf_distinct: "book_wf queue level_ok b \<Longrightarrow> distinct (map pl_id (queue_at queue b s p))"
  using book_wf_queue by (metis queue_wf_def)

lemma book_wf_order_id_ok:
  assumes "book_wf queue level_ok b" "index b oid = Some m"
  shows "order_id_ok oid"
proof -
  obtain x where "pl_id x = Sequential (order_id_raw oid)"
    "entry_wf (index b) (book_seq b) (om_side m) (om_price m) x"
    using book_wf_index [OF assms] by blast
  then show ?thesis by (auto simp: entry_wf_def)
qed

lemma resting_lots_pos:
  assumes "book_wf queue level_ok b" "index b oid = Some m"
  shows "\<exists>q. resting_lots queue b oid = Some q \<and> q \<noteq> 0"
  using book_wf_index [OF assms] by (auto simp: entry_wf_def)

lemma removed_frame [simp, book_frame]:
  "index (removed api oid m b) = (index b)(oid := None)"
  "book_seq (removed api oid m b) = book_seq b"
  "s \<noteq> om_side m \<Longrightarrow> levels_of s (removed api oid m b) = levels_of s b"
  by (simp_all add: removed_def)

lemma by_account_removed:
  "index b oid = Some m \<Longrightarrow>
   by_account (removed api oid m b) = acc_drop (by_account b) (om_account_id m) oid"
  by (simp add: removed_def by_account_drop_from_indices)

section \<open>Cancel\<close>

context price_level
begin

lemma wf_level_ok:
  "book_wf queue level_ok b \<Longrightarrow> btm_get (levels_of s b) p = Some l \<Longrightarrow> level_ok l"
  by (rule level_okD [OF book_wf_levels])

lemma level_order_qty_eq:
  assumes "book_wf queue level_ok b" "index b oid = Some m"
    "btm_get (levels_of (om_side m) b) (om_price m) = Some l"
  shows "level_order_qty api l oid = resting_lots queue b oid"
proof -
  have q: "queue_at queue b (om_side m) (om_price m) = queue l"
    using assms by (simp add: queue_at_def)
  have "distinct (map pl_id (queue l))"
    using book_wf_distinct [OF assms(1), of "om_side m" "om_price m"] by (simp add: q)
  note find_distinct_mset [OF iter [OF wf_level_ok [OF assms(1,3)]] this]
  then show ?thesis using assms(2) q by (simp add: level_order_qty_def resting_lots_def)
qed

lemma resting_qty_eq:
  assumes "book_wf queue level_ok b"
  shows "resting_qty api b oid = map_option Qty (resting_lots queue b oid)"
proof (cases "index b oid")
  case (Some m)
  obtain l where l: "btm_get (levels_of (om_side m) b) (om_price m) = Some l"
    using book_wf_index [OF assms Some] by blast
  obtain q where "resting_lots queue b oid = Some q" "q \<noteq> 0"
    using resting_lots_pos [OF assms Some] by blast
  then show ?thesis
    using Some l level_order_qty_eq [OF assms Some l] by (simp add: resting_qty_def Qty_new_ok)
qed (simp add: resting_qty_def resting_lots_def)

lemma pruned_after_removal:
  assumes "book_inv queue level_ok b"
  shows "pruned queue (prune_level api (om_side m) (om_price m) (removed api oid m b))"
proof (rule pruned_prune)
  show "levels_wf level_ok (removed api oid m b)"
    using assms level_update_cancel(1)
    by (simp add: book_inv_def book_wf_def removed_def
        levels_wf_cong [OF drop_from_indices_frame(1)])
  show "\<forall>s'. \<forall>(p', l) \<in> set (levels_of s' (removed api oid m b)).
      (s', p') \<noteq> (om_side m, om_price m) \<longrightarrow> queue l \<noteq> []"
    using assms btm_insert_mem
    by (fastforce simp: book_inv_def pruned_def removed_def level_update_def split: option.splits if_splits)
qed

lemma removed_book_inv:
  assumes "book_inv queue level_ok b" "index b oid = Some m"
  shows "book_inv queue level_ok (prune_level api (om_side m) (om_price m) (removed api oid m b))"
  using assms pruned_after_removal
  by (simp add: book_inv_def book_wf_prune removed_book_wf)

lemma cancel_known:
  assumes "book_wf queue level_ok b" "index b oid = Some m"
  shows "cancel api b oid =
    (Inr (om_side m, om_price m), prune_level api (om_side m) (om_price m) (removed api oid m b))"
proof -
  obtain l where "btm_get (levels_of (om_side m) b) (om_price m) = Some l"
    using book_wf_index [OF assms] by blast
  then show ?thesis
    using assms(2) by (simp add: cancel_def removed_def prune_drop_commute)
qed

lemma prune_removed_queue_at:
  assumes "book_wf queue level_ok b" "index b oid = Some m"
  shows "queue_at queue (prune_level api (om_side m) (om_price m) (removed api oid m b)) =
    at_level (om_side m) (om_price m)
      (filter (\<lambda>x. pl_id x \<noteq> Sequential (order_id_raw oid))
        (queue_at queue b (om_side m) (om_price m))) (queue_at queue b)"
  using assms book_wf_levels [OF removed_book_wf [OF assms]]
  by (simp add: prune_level_view removed_queue_at)

end

section \<open>Add\<close>

definition meta_of :: "resting_order \<Rightarrow> order_meta" where
  "meta_of ord = \<lparr>om_side = ro_side ord, om_price = ro_price ord,
                  om_account_id = ro_account_id ord, om_tif = ro_tif ord\<rparr>"

lemma meta_of_simps [simp]:
  "om_side (meta_of ord) = ro_side ord" "om_price (meta_of ord) = ro_price ord"
  "om_account_id (meta_of ord) = ro_account_id ord" "om_tif (meta_of ord) = ro_tif ord"
  by (simp_all add: meta_of_def)

lemma pl_order_of_simps [simp]:
  "pl_id (pl_order_of ord n) = Sequential (order_id_raw (ro_order_id ord))"
  "pl_quantity (pl_order_of ord n) = as_lots (ro_qty ord)"
  "pl_timestamp (pl_order_of ord n) = n"
  by (simp_all add: pl_order_of_def)

text \<open>The level an order is added to: the existing one or a new one.\<close>

definition target_level :: "'l pl_api \<Rightarrow> 'l book \<Rightarrow> resting_order \<Rightarrow> 'l" where
  "target_level api b ord =
     unwrap_or (btm_get (levels_of (ro_side ord) b) (ro_price ord))
       (pl_new api (scast (as_ticks (ro_price ord))))"

text \<open>The book after a successful \<^verbatim>\<open>add_resting\<close>.\<close>

definition added :: "'l book \<Rightarrow> resting_order \<Rightarrow> u64 \<Rightarrow> 'l \<Rightarrow> 'l book" where
  "added b ord s l =
     (set_levels (ro_side ord) (btm_insert (ro_price ord) l (levels_of (ro_side ord) b)) b)
       \<lparr>index := (index b)(ro_order_id ord \<mapsto> meta_of ord),
        by_account := acc_add (by_account b) (ro_account_id ord) (ro_order_id ord),
        book_seq := s\<rparr>"

lemma added_frame [simp, book_frame]:
  "index (added b ord n l) = (index b)(ro_order_id ord \<mapsto> meta_of ord)"
  "by_account (added b ord n l) = acc_add (by_account b) (ro_account_id ord) (ro_order_id ord)"
  "book_seq (added b ord n l) = n"
  "levels_of s (added b ord n l) =
     (if s = ro_side ord then btm_insert (ro_price ord) l (levels_of s b) else levels_of s b)"
  by (simp_all add: added_def)

lemma queue_at_added:
  "queue_at queue (added b ord n l) = at_level (ro_side ord) (ro_price ord) (queue l) (queue_at queue b)"
  by (auto simp: queue_at_def fun_eq_iff btm_get_insert)

lemma set_levels_update_commute:
  "(set_levels s m b)\<lparr>book_seq := n\<rparr> = set_levels s m (b\<lparr>book_seq := n\<rparr>)"
  by (cases s) simp_all

context price_level
begin

lemma target_level_facts:
  assumes "book_wf queue level_ok b"
  shows "level_ok (target_level api b ord)"
    and "queue (target_level api b ord) = queue_at queue b (ro_side ord) (ro_price ord)"
  using assms wf_level_ok [OF assms]
  by (cases "btm_get (levels_of (ro_side ord) b) (ro_price ord)";
      simp add: target_level_def new_ok new_queue queue_at_def)+

lemma add_resting_cases:
  assumes inv: "book_inv queue level_ok b"
  shows "add_resting api b ord =
    (if index b (ro_order_id ord) \<noteq> None then (Inl BE_DuplicateOrderId, b)
     else case checked_add (book_seq b) 1 of
       None \<Rightarrow> (Inl BE_SeqOverflow, b)
     | Some n \<Rightarrow>
         (case pl_add_order api (target_level api b ord) (pl_order_of ord n) of
            Inl PlDuplicateOrderId \<Rightarrow> (Inl BE_DuplicateOrderId, b)
          | Inl PlOtherError \<Rightarrow> (Inl BE_LevelRejected, b)
          | Inr l' \<Rightarrow> (Inr (), added b ord n l')))"
proof -
  let ?s = "ro_side ord" and ?p = "ro_price ord" and ?l = "target_level api b ord"
  let ?m = "levels_of ?s b"
  have wf: "book_wf queue level_ok b" using inv by (simp add: book_inv_def)
  have ok: "btm_ok ?m" by (rule levels_wfD(1) [OF book_wf_levels [OF wf]])
  have restore: "(if pl_order_count api ?l = 0 then btm_remove ?p (btm_insert ?p ?l ?m)
                  else btm_insert ?p ?l ?m) = ?m"
  proof (cases "btm_get ?m ?p")
    case None
    then have "pl_order_count api ?l = 0"
      using new_ok new_queue by (simp add: target_level_def order_count_0)
    then show ?thesis using None ok by (simp add: btm_remove_insert_fresh)
  next
    case (Some l)
    then have "queue l \<noteq> []" "level_ok l" "?l = l"
      using inv wf_level_ok [OF wf Some] map_of_SomeD [of ?m ?p l]
      by (fastforce simp: book_inv_def pruned_def btm_get_def target_level_def)+
    then show ?thesis using Some ok by (simp add: order_count_0 btm_insert_id)
  qed
  have undo: "(set_levels ?s ?m (b\<lparr>book_seq := n\<rparr>))\<lparr>book_seq := n'\<rparr> = b"
    if "n' = book_seq b" for n n'
    using that by (intro book_eqI) simp_all
  show ?thesis
    unfolding add_resting_def Let_def levels_of_update_frame
    unfolding target_level_def [symmetric] restore
    using ok undo
    by (auto simp: checked_add_def added_def btm_insert_insert meta_of_def acc_add_def
        account_orders_def set_levels_update_commute [symmetric] split: sum.splits pl_error.splits)
qed

lemma add_resting_ok:
  assumes inv: "book_inv queue level_ok b"
    and ord: "order_id_ok (ro_order_id ord)" "qty_ok (ro_qty ord)"
    and add: "add_resting api b ord = (Inr (), b')"
  shows "book_inv queue level_ok b'"
    and "index b (ro_order_id ord) = None"
    and "index b' = (index b)(ro_order_id ord \<mapsto> meta_of ord)"
    and "queue_at queue b' = at_level (ro_side ord) (ro_price ord)
           (queue_at queue b (ro_side ord) (ro_price ord) @ [pl_order_of ord (book_seq b + 1)])
           (queue_at queue b)"
    and "levels_of (opposite (ro_side ord)) b' = levels_of (opposite (ro_side ord)) b"
    and "book_seq b' = book_seq b + 1"
proof -
  let ?s = "ro_side ord" and ?p = "ro_price ord" and ?l = "target_level api b ord"
  have wf: "book_wf queue level_ok b" using inv by (simp add: book_inv_def)
  note tl = target_level_facts [OF wf, of ord]
  from add obtain n l' where fresh: "index b (ro_order_id ord) = None"
    and n: "checked_add (book_seq b) 1 = Some n"
    and l': "pl_add_order api ?l (pl_order_of ord n) = Inr l'"
    and b': "b' = added b ord n l'"
    by (auto simp: add_resting_cases [OF inv] split: if_splits option.splits sum.splits pl_error.splits)
  have n_eq: "n = book_seq b + 1" using n by (auto simp: checked_add_def split: if_splits)
  have lt: "book_seq b < n" using checked_add_SomeD [OF n] by (simp add: word_less_nat_alt)
  have "\<forall>x \<in> set (queue ?l). pl_timestamp x < pl_timestamp (pl_order_of ord n)"
    using book_wf_queue [OF wf, of ?s ?p] lt tl(2) by (auto simp: queue_wf_def entry_wf_def)
  note app = add_back [OF tl(1) l' this]
  show Q: "queue_at queue b' = at_level ?s ?p (queue_at queue b ?s ?p @
      [pl_order_of ord (book_seq b + 1)]) (queue_at queue b)"
    using app tl(2) n_eq by (simp add: b' queue_at_added)
  have "view_wf (queue_at queue b') (index b') (by_account b') (book_seq b')"
    using view_wf_add [of "queue_at queue b" "index b" "by_account b" "book_seq b"
        "ro_order_id ord" n "pl_order_of ord n" "meta_of ord"] wf fresh ord lt
    by (simp add: Q n_eq [symmetric] book_wf_def qty_ok_def) (simp add: b')
  moreover have "levels_wf level_ok b'"
    using levels_wf_insert [OF book_wf_levels [OF wf], of l' ?s ?p] app
    by (subst levels_wf_cong [of _ "set_levels ?s (btm_insert ?p l' (levels_of ?s b)) b"])
      (simp_all add: b')
  moreover have "pruned queue b'"
    using inv app btm_insert_mem by (fastforce simp: b' book_inv_def pruned_def)
  ultimately show "book_inv queue level_ok b'" by (simp add: book_inv_def book_wf_def)
  show "index b (ro_order_id ord) = None" by (rule fresh)
  show "index b' = (index b)(ro_order_id ord \<mapsto> meta_of ord)"
    "levels_of (opposite ?s) b' = levels_of (opposite ?s) b" "book_seq b' = book_seq b + 1"
    by (simp_all add: b' n_eq)
qed

lemma add_resting_err:
  assumes "book_inv queue level_ok b" "add_resting api b ord = (Inl e, b')"
  shows "b' = b"
    and "e = BE_DuplicateOrderId \<longleftrightarrow> index b (ro_order_id ord) \<noteq> None"
proof -
  have wf: "book_wf queue level_ok b" using assms(1) by (simp add: book_inv_def)
  show "b' = b" using assms
    by (auto simp: add_resting_cases split: if_splits option.splits sum.splits pl_error.splits)
  have "index b (ro_order_id ord) \<noteq> None"
    if "pl_add_order api (target_level api b ord) (pl_order_of ord n) = Inl PlDuplicateOrderId" for n
  proof -
    have "\<exists>x \<in> set (queue_at queue b (ro_side ord) (ro_price ord)).
        pl_id x = Sequential (order_id_raw (ro_order_id ord))"
      using add_duplicate [OF target_level_facts(1) [OF wf] that] target_level_facts(2) [OF wf]
      by force
    then show ?thesis
      using book_wf_queue [OF wf, of "ro_side ord" "ro_price ord"]
      by (auto simp: queue_wf_def entry_wf_def)
  qed
  then show "e = BE_DuplicateOrderId \<longleftrightarrow> index b (ro_order_id ord) \<noteq> None"
    using assms(2)
    by (auto simp: add_resting_cases [OF assms(1)]
        split: if_splits option.splits sum.splits pl_error.splits)
qed

end

context price_level_total
begin

lemma add_resting_total:
  assumes inv: "book_inv queue level_ok b" and fresh: "index b (ro_order_id ord) = None"
    and room: "unat (book_seq b) < 2 ^ 64 - 1"
  shows "\<exists>b'. add_resting api b ord = (Inr (), b')"
proof -
  have wf: "book_wf queue level_ok b" using inv by (simp add: book_inv_def)
  obtain n where n: "checked_add (book_seq b) 1 = Some n"
    using room checked_add_1_eq_None_iff [of "book_seq b"]
    by (cases "checked_add (book_seq b) 1") auto
  have "Sequential (order_id_raw (ro_order_id ord)) \<notin>
      pl_id ` set (queue_at queue b (ro_side ord) (ro_price ord))"
    using book_wf_queue [OF wf, of "ro_side ord" "ro_price ord"] fresh
    by (auto simp: queue_wf_def entry_wf_def)
  then obtain l' where "pl_add_order api (target_level api b ord) (pl_order_of ord n) = Inr l'"
    using add_total [OF target_level_facts(1) [OF wf], of "pl_order_of ord n" ord]
      target_level_facts(2) [OF wf, of ord] by auto
  then show ?thesis using fresh n by (simp add: add_resting_cases [OF inv])
qed

end

section \<open>Mass cancel\<close>

lemma resting_lots_cong:
  assumes "index b' oid = index b oid"
    and "\<And>s p. queue_at queue b' s p = filter (\<lambda>x. pl_id x \<noteq> i) (queue_at queue b s p)"
    and "i \<noteq> Sequential (order_id_raw oid)"
  shows "resting_lots queue b' oid = resting_lots queue b oid"
proof -
  have "List.find (\<lambda>x. pl_id x = Sequential (order_id_raw oid)) (filter (\<lambda>x. pl_id x \<noteq> i) xs) =
      List.find (\<lambda>x. pl_id x = Sequential (order_id_raw oid)) xs" for xs :: "pl_order list"
    using assms(3) by (intro find_filter_other) auto
  then show ?thesis using assms(1,2) by (simp add: resting_lots_def split: option.split)
qed

context price_level
begin

lemma filter_everywhere:
  assumes "book_wf queue level_ok b" "index b oid = Some m"
  shows "queue_at queue (prune_level api (om_side m) (om_price m) (removed api oid m b)) s p =
    filter (\<lambda>x. pl_id x \<noteq> Sequential (order_id_raw oid)) (queue_at queue b s p)"
proof (cases "(s, p) = (om_side m, om_price m)")
  case False
  then have "\<forall>x \<in> set (queue_at queue b s p). pl_id x \<noteq> Sequential (order_id_raw oid)"
    using book_wf_queue [OF assms(1), of s p] entry_wf_elsewhere [where idx = "index b" and oid = oid and m = m] assms(2)
    by (auto simp: queue_wf_def)
  then show ?thesis
    using False assms by (auto simp: prune_removed_queue_at filter_id_conv)
qed (use assms in \<open>auto simp: prune_removed_queue_at\<close>)

lemma mass_cancel_one_known:
  assumes "book_wf queue level_ok b" "index b oid = Some m"
  shows "mass_cancel_one api oid (b, out) =
    (prune_level api (om_side m) (om_price m) (removed api oid m b), out @ [mass_record queue b oid])"
proof -
  obtain l where l: "btm_get (levels_of (om_side m) b) (om_price m) = Some l"
    using book_wf_index [OF assms] by blast
  obtain q where "resting_lots queue b oid = Some q" "q \<noteq> 0"
    using resting_lots_pos [OF assms] by blast
  then show ?thesis
    using assms l level_order_qty_eq [OF assms l]
    by (simp add: mass_cancel_one_def mass_record_def Qty_new_ok removed_def prune_drop_commute)
qed

lemma mass_record_other:
  assumes "book_wf queue level_ok b" "index b oid = Some m" "oid' \<noteq> oid"
  shows "mass_record queue (prune_level api (om_side m) (om_price m) (removed api oid m b)) oid' =
         mass_record queue b oid'"
proof -
  have "resting_lots queue (prune_level api (om_side m) (om_price m) (removed api oid m b)) oid' =
      resting_lots queue b oid'"
    by (rule resting_lots_cong [where i = "Sequential (order_id_raw oid)"])
      (use assms filter_everywhere [OF assms(1,2)] in simp_all)
  then show ?thesis using assms(3) by (simp add: mass_record_def)
qed

lemma mass_cancel_fold:
  assumes "book_inv queue level_ok b" "distinct ids" "\<forall>oid \<in> set ids. index b oid \<noteq> None"
  shows "\<exists>b'. fold (mass_cancel_one api) ids (b, out) = (b', out @ map (mass_record queue b) ids) \<and>
     book_inv queue level_ok b' \<and> index b' = index b |` (- set ids) \<and> book_seq b' = book_seq b \<and>
     (\<forall>s p. queue_at queue b' s p =
        filter (\<lambda>x. pl_id x \<notin> (Sequential \<circ> order_id_raw) ` set ids) (queue_at queue b s p))"
  using assms
proof (induction ids arbitrary: b out)
  case (Cons oid ids)
  obtain m where m: "index b oid = Some m" using Cons.prems by auto
  have wf: "book_wf queue level_ok b" using Cons.prems by (simp add: book_inv_def)
  let ?b = "prune_level api (om_side m) (om_price m) (removed api oid m b)"
  have recs: "map (mass_record queue ?b) ids = map (mass_record queue b) ids"
    using Cons.prems(2) mass_record_other [OF wf m] by (metis distinct.simps(2) map_cong)
  have known: "\<forall>i \<in> set ids. index ?b i \<noteq> None" and d: "distinct ids" using Cons.prems by auto
  from Cons.IH [OF removed_book_inv [OF Cons.prems(1) m] d known, of "out @ [mass_record queue b oid]"]
  obtain b' where b': "fold (mass_cancel_one api) ids (?b, out @ [mass_record queue b oid]) =
        (b', (out @ [mass_record queue b oid]) @ map (mass_record queue ?b) ids)"
      "book_inv queue level_ok b'" "index b' = index ?b |` (- set ids)" "book_seq b' = book_seq ?b"
      "\<forall>s p. queue_at queue b' s p =
        filter (\<lambda>x. pl_id x \<notin> (Sequential \<circ> order_id_raw) ` set ids) (queue_at queue ?b s p)"
    by blast
  have "index b' = index b |` (- set (oid # ids))"
    by (auto simp: b'(3) restrict_map_def fun_eq_iff)
  moreover have "\<forall>s p. queue_at queue b' s p =
      filter (\<lambda>x. pl_id x \<notin> (Sequential \<circ> order_id_raw) ` set (oid # ids)) (queue_at queue b s p)"
    by (simp add: b'(5) filter_everywhere [OF wf m])
  ultimately show ?case
    using b' by (auto simp: mass_cancel_one_known [OF wf m] recs)
qed (auto simp: restrict_map_def fun_eq_iff)

lemma mass_cancel_spec:
  assumes inv: "book_inv queue level_ok b" and mc: "mass_cancel api b a out = (n, b', out')"
  shows "book_inv queue level_ok b'"
    and "out' = out @ map (mass_record queue b) (account_orders (by_account b) a)"
    and "n = length (account_orders (by_account b) a)"
    and "index b' = index b |` {oid. \<not> owned_by (index b) a oid}"
    and "queue_at queue b' s p = filter (\<lambda>x. \<not> (\<exists>oid. owned_by (index b) a oid \<and>
           pl_id x = Sequential (order_id_raw oid))) (queue_at queue b s p)"
    and "by_account b' a = None"
    and "book_seq b' = book_seq b"
proof -
  let ?ids = "account_orders (by_account b) a"
  have acc: "accounts_wf (index b) (by_account b)"
    using inv by (simp add: book_inv_def book_wf_def view_wf_def)
  have ids: "set ?ids = {oid. owned_by (index b) a oid}" and d: "distinct ?ids"
    using acc by (auto simp: accounts_wf_def owned_by_def bts_ok_distinct split: option.splits)
  have "\<forall>oid \<in> set ?ids. index b oid \<noteq> None"
    using ids by (auto simp: owned_by_def split: option.splits)
  from mass_cancel_fold [OF inv d this, of out] obtain b2 where
    b2: "fold (mass_cancel_one api) ?ids (b, out) = (b2, out @ map (mass_record queue b) ?ids)"
      "book_inv queue level_ok b2" "index b2 = index b |` (- set ?ids)" "book_seq b2 = book_seq b"
      "\<forall>s p. queue_at queue b2 s p =
        filter (\<lambda>x. pl_id x \<notin> (Sequential \<circ> order_id_raw) ` set ?ids) (queue_at queue b s p)"
    by auto
  have res: "b' = b2" "out' = out @ map (mass_record queue b) ?ids" "n = length ?ids"
    using mc b2(1) by (auto simp: mass_cancel_def account_orders_def split: option.splits)
  show "book_inv queue level_ok b'" "n = length ?ids" "book_seq b' = book_seq b"
    "out' = out @ map (mass_record queue b) ?ids"
    using res b2 by simp_all
  show idx: "index b' = index b |` {oid. \<not> owned_by (index b) a oid}"
    using res(1) b2(3) ids by (simp add: Compl_eq)
  show "queue_at queue b' s p = filter (\<lambda>x. \<not> (\<exists>oid. owned_by (index b) a oid \<and>
      pl_id x = Sequential (order_id_raw oid))) (queue_at queue b s p)"
    using res(1) b2(5) ids by (auto intro!: filter_cong)
  have "accounts_wf (index b') (by_account b')"
    using b2(2) res(1) by (simp add: book_inv_def book_wf_def view_wf_def)
  moreover from this have "oid \<notin> set (account_orders (by_account b') a)" for oid
    unfolding accounts_wf_def idx restrict_map_def owned_by_def
    by (cases "index b oid") auto
  then have "account_orders (by_account b') a = []" by (metis list.set_intros(1) neq_Nil_conv)
  ultimately show "by_account b' a = None"
    by (cases "by_account b' a") (auto simp: accounts_wf_def account_orders_def)
qed

end

end
