(* ===== verification/Ports.thy ===== *)
theory Ports
  imports Domain
begin

text \<open>
  The id generator and the clocks of the engine (\<^verbatim>\<open>engine/src/ids.rs\<close>, \<^verbatim>\<open>engine/src/clock.rs\<close>)
  behind the traits of \<^verbatim>\<open>domain/src/traits.rs\<close>. \<open>None\<close> is the \<^verbatim>\<open>expect\<close> panic on counter
  overflow. \<^verbatim>\<open>Clock::now\<close> takes \<^verbatim>\<open>&self\<close> and may answer differently at every call, so a clock is
  the sequence of its answers; \<^verbatim>\<open>StubClock\<close> answers the value last set, \<^verbatim>\<open>WallClock\<close> any sequence.
\<close>

record counter_ids =
  next_trade :: u64
  next_seq_raw :: u64

definition CounterIdGenerator_new :: counter_ids where
  "CounterIdGenerator_new = \<lparr>next_trade = 1, next_seq_raw = 1\<rparr>"

definition CounterIdGenerator_resume :: "u64 \<Rightarrow> u64 \<Rightarrow> counter_ids" where
  "CounterIdGenerator_resume next_trade_id next_engine_seq =
     \<lparr>next_trade = next_trade_id, next_seq_raw = next_engine_seq\<rparr>"

definition next_trade_id :: "counter_ids \<Rightarrow> (trade_id \<times> counter_ids) option" where
  "next_trade_id ids =
     (let v = next_trade ids
      in case checked_add v 1 of
           None \<Rightarrow> None
         | Some v' \<Rightarrow> Some (TradeId v, ids\<lparr>next_trade := v'\<rparr>))"

definition next_engine_seq :: "counter_ids \<Rightarrow> (engine_seq \<times> counter_ids) option" where
  "next_engine_seq ids =
     (let v = next_seq_raw ids
      in case checked_add v 1 of
           None \<Rightarrow> None
         | Some v' \<Rightarrow> Some (EngineSeq v, ids\<lparr>next_seq_raw := v'\<rparr>))"

type_synonym clock = "nat \<Rightarrow> recv_ts"

text \<open>\<^verbatim>\<open>WallClock\<close>, from the nanoseconds the system time is past the epoch at each reading: a time
  before the epoch gives \<open>0\<close>, the \<^verbatim>\<open>as i64\<close> cast wraps.\<close>

definition WallClock_now :: "int \<Rightarrow> recv_ts" where
  "WallClock_now since_epoch = RecvTs (if 0 \<le> since_epoch then word_of_int since_epoch else 0)"

definition WallClock :: "(nat \<Rightarrow> int) \<Rightarrow> clock" where
  "WallClock readings = (\<lambda>n. WallClock_now (readings n))"

lemma WallClock_now_exact:
  "0 \<le> t \<Longrightarrow> t < 2 ^ 63 \<Longrightarrow> sint (recv_nanos (WallClock_now t)) = t"
  by (simp add: WallClock_now_def signed_of_int signed_take_bit_int_eq_self)

definition StubClock_new :: "i64 \<Rightarrow> clock" where
  "StubClock_new nanos = (\<lambda>_. RecvTs nanos)"

text \<open>\<^verbatim>\<open>StubClock::set\<close> after \<open>n\<close> reads: the answers from then on.\<close>

definition StubClock_set :: "i64 \<Rightarrow> clock \<Rightarrow> clock" where
  "StubClock_set nanos c = (\<lambda>_. RecvTs nanos)"

section \<open>Drawing ids\<close>

text \<open>Drawing \<open>n\<close> ids from a generator; \<open>None\<close> when it panics on the way.\<close>

fun ids_run :: "('g \<Rightarrow> ('v \<times> 'g) option) \<Rightarrow> nat \<Rightarrow> 'g \<Rightarrow> ('v list \<times> 'g) option" where
  "ids_run nti 0 i = Some ([], i)"
| "ids_run nti (Suc n) i =
     (case nti i of None \<Rightarrow> None
      | Some (t, i') \<Rightarrow> (case ids_run nti n i' of None \<Rightarrow> None | Some (ts, i'') \<Rightarrow> Some (t # ts, i'')))"

lemma ids_run_add:
  "ids_run nti (m + n) i =
     (case ids_run nti m i of None \<Rightarrow> None
      | Some (ts, i') \<Rightarrow>
          (case ids_run nti n i' of None \<Rightarrow> None | Some (ts', i'') \<Rightarrow> Some (ts @ ts', i'')))"
  by (induction m arbitrary: i) (auto split: option.splits)

lemma ids_run_length: "ids_run nti n i = Some (ts, i') \<Longrightarrow> length ts = n"
  by (induction n arbitrary: i ts) (auto split: option.splits)

section \<open>The contract of an id stream\<close>

text \<open>What the engine relies on of \<^verbatim>\<open>IdGenerator\<close>: consecutive values of one counter, the other
  counter untouched.\<close>

locale id_stream =
  fixes next_id :: "'g \<Rightarrow> ('v \<times> 'g) option"
    and raw :: "'v \<Rightarrow> nat"
    and counter :: "'g \<Rightarrow> nat"
    and other :: "'g \<Rightarrow> 'o"
  assumes next_id_Some: "next_id g = Some (v, g') \<Longrightarrow> raw v = counter g \<and> counter g' = Suc (counter g) \<and> other g' = other g"
    and next_id_None: "next_id g = None \<longleftrightarrow> Suc (counter g) = 2 ^ 64"
begin

text \<open>\<open>n\<close> values drawn in a row are \<open>counter g, ..., counter g + n - 1\<close>.\<close>

lemma run_consecutive:
  "ids_run next_id n g = Some (vs, g') \<Longrightarrow>
   map raw vs = [counter g ..< counter g + n] \<and> counter g' = counter g + n \<and> other g' = other g"
proof (induction n arbitrary: g vs)
  case (Suc n)
  then obtain v g1 vs1 where "next_id g = Some (v, g1)" "ids_run next_id n g1 = Some (vs1, g')" "vs = v # vs1"
    by (auto split: option.splits)
  with Suc.IH [of g1 vs1] next_id_Some [of g v g1] show ?case by (simp add: upt_rec)
qed simp

text \<open>The generator panics only when it runs into the last value.\<close>

lemma run_total: "counter g + n < 2 ^ 64 \<Longrightarrow> \<exists>vs g'. ids_run next_id n g = Some (vs, g')"
proof (induction n arbitrary: g)
  case (Suc n)
  then have "next_id g \<noteq> None" using next_id_None by simp
  then obtain v g1 where v: "next_id g = Some (v, g1)" by auto
  with Suc next_id_Some [OF v] show ?case by (fastforce split: option.split)
qed simp

end

interpretation trade_ids: id_stream next_trade_id "\<lambda>t. unat (trade_id_raw t)" "\<lambda>g. unat (next_trade g)" next_seq_raw
proof
  show "next_trade_id g = None \<longleftrightarrow> Suc (unat (next_trade g)) = 2 ^ 64" for g
    using checked_add_1_eq_None_iff [of "next_trade g"]
    by (auto simp: next_trade_id_def Let_def split: option.split)
qed (auto simp: next_trade_id_def Let_def dest!: checked_add_SomeD split: option.splits)

interpretation engine_seqs: id_stream next_engine_seq "\<lambda>s. unat (engine_seq_raw s)" "\<lambda>g. unat (next_seq_raw g)" next_trade
proof
  show "next_engine_seq g = None \<longleftrightarrow> Suc (unat (next_seq_raw g)) = 2 ^ 64" for g
    using checked_add_1_eq_None_iff [of "next_seq_raw g"]
    by (auto simp: next_engine_seq_def Let_def split: option.split)
qed (auto simp: next_engine_seq_def Let_def dest!: checked_add_SomeD split: option.splits)

end
