(* ===== verification/Match.thy ===== *)
theory Match
  imports Book_Ops Ports
begin

text \<open>
  Price-time priority. The makers of one side, best price first and oldest first within a price,
  form a flat list; \<open>spec_match\<close> says what an aggressive order does to that list, with no levels,
  indices, snapshots or loops in it. The walk of \<^verbatim>\<open>match_aggressive\<close> is shown to compute exactly
  that, and the facts a trader relies on are read off the specification.
\<close>

section \<open>Specification\<close>

type_synonym maker = "order_id \<times> price \<times> u64"

fun maker_id :: "pl_ident \<Rightarrow> order_id" where
  "maker_id (Sequential raw) = OrderId raw"
| "maker_id OtherIdVariant = OrderId 0"

definition maker_of :: "price \<Rightarrow> pl_order \<Rightarrow> maker" where
  "maker_of p x = (maker_id (pl_id x), p, pl_quantity x)"

fun best_first :: "side \<Rightarrow> (price, 'l) btm \<Rightarrow> (price, 'l) btm" where
  "best_first Ask m = m"
| "best_first Bid m = rev m"

definition level_makers :: "('l \<Rightarrow> pl_order list) \<Rightarrow> (price, 'l) btm \<Rightarrow> maker list" where
  "level_makers queue m = concat (map (\<lambda>(p, l). map (maker_of p) (queue l)) m)"

definition makers :: "('l \<Rightarrow> pl_order list) \<Rightarrow> side \<Rightarrow> 'l book \<Rightarrow> maker list" where
  "makers queue s b = level_makers queue (best_first s (levels_of s b))"

text \<open>\<open>spec_match cr own r ms\<close>: the fills as pairs of a maker and the lots taken from it, the lots
  left over, the maker dropped by self-trade prevention, and the makers that remain. \<open>cr\<close> tells
  whether a price is acceptable to the taker, \<open>own\<close> whether a maker is of the taker's account.\<close>

fun spec_match ::
  "(price \<Rightarrow> bool) \<Rightarrow> (order_id \<Rightarrow> bool) \<Rightarrow> u64 \<Rightarrow> maker list \<Rightarrow>
   (maker \<times> u64) list \<times> u64 \<times> maker option \<times> maker list" where
  "spec_match cr own r [] = ([], r, None, [])"
| "spec_match cr own r ((i, p, q) # ms) =
     (if r = 0 \<or> \<not> cr p then ([], r, None, (i, p, q) # ms)
      else if own i then ([], r, Some (i, p, q), ms)
      else if r < q then ([((i, p, q), r)], 0, None, (i, p, q - r) # ms)
      else case spec_match cr own (r - q) ms of
             (fs, r', st, ms') \<Rightarrow> (((i, p, q), q) # fs, r', st, ms'))"

definition limit_ok :: "aggressive_order \<Rightarrow> price \<Rightarrow> bool" where
  "limit_ok taker p \<longleftrightarrow> (case ao_price taker of None \<Rightarrow> True | Some tp \<Rightarrow> crosses (ao_side taker) tp p)"

text \<open>The records the walk writes for the fills and for the self-trade cancellation.\<close>

definition fill_of :: "aggressive_order \<Rightarrow> trade_id \<Rightarrow> maker \<times> u64 \<Rightarrow> fill" where
  "fill_of taker tid f = (case f of ((i, p, q), n) \<Rightarrow>
     \<lparr>f_trade_id = tid, f_maker_order_id = i, f_taker_order_id = ao_order_id taker,
      f_maker_side = opposite (ao_side taker), f_price = p, f_qty = Qty n,
      f_maker_fully_filled = (n = q)\<rparr>)"

definition stp_of :: "aggressive_order \<Rightarrow> maker option \<Rightarrow> stp_cancellation list" where
  "stp_of taker st = (case st of None \<Rightarrow> [] | Some (i, p, q) \<Rightarrow>
     [\<lparr>sc_order_id = i, sc_account_id = ao_account_id taker, sc_side = opposite (ao_side taker),
       sc_price = p, sc_qty = Qty q\<rparr>])"

section \<open>Facts about the specification\<close>

lemma spec_match_0 [simp]: "spec_match cr own 0 ms = ([], 0, None, ms)"
  by (cases "(cr, own, 0 :: u64, ms)" rule: spec_match.cases) auto

lemma spec_match_append:
  "spec_match cr own r (xs @ ys) =
     (case spec_match cr own r xs of (fs, r', st, rest) \<Rightarrow>
        if st = None \<and> rest = [] then
          (case spec_match cr own r' ys of (fs2, r2, st2, rest2) \<Rightarrow> (fs @ fs2, r2, st2, rest2))
        else (fs, r', st, rest @ ys))"
  by (induction cr own r xs rule: spec_match.induct) (auto split: prod.splits)

lemma spec_match_conserves:
  "spec_match cr own r ms = (fs, r', st, rest) \<Longrightarrow>
   sum_list (map (\<lambda>(m, n). unat n) fs) + unat r' = unat r"
proof (induction cr own r ms arbitrary: fs r' st rest rule: spec_match.induct)
  case (2 cr own r i p q ms)
  show ?case
  proof (cases "r = 0 \<or> \<not> cr p \<or> own i \<or> r < q")
    case False
    then have "unat (r - q) + unat q = unat r"
      by (simp add: unat_sub not_less word_le_nat_alt)
    with False 2 show ?thesis by (auto split: prod.splits)
  qed (use 2 in \<open>auto split: if_splits\<close>)
qed simp

lemma spec_match_fills:
  "spec_match cr own r ms = (fs, r', st, rest) \<Longrightarrow> (\<forall>(i, p, q) \<in> set ms. q \<noteq> 0) \<Longrightarrow>
   ((i, p, q), n) \<in> set fs \<Longrightarrow> (i, p, q) \<in> set ms \<and> cr p \<and> \<not> own i \<and> 0 < n \<and> n \<le> q"
proof (induction cr own r ms arbitrary: fs r' st rest rule: spec_match.induct)
  case (2 cr own r i p q ms)
  then show ?case by (fastforce split: if_splits prod.splits simp: word_neq_0_conv)
qed simp

text \<open>Nothing is skipped: the makers touched are a prefix of the queue, and all of them but
  possibly the last are taken whole.\<close>

lemma spec_match_prefix:
  "spec_match cr own r ms = (fs, r', st, rest) \<Longrightarrow>
   \<exists>tail. ms = map fst fs @ tail \<and>
     (\<forall>((i, p, q), n) \<in> set (butlast fs). n = q) \<and>
     (case st of
        Some m \<Rightarrow> tail = m # rest \<and> own (fst m) \<and> (\<forall>((i, p, q), n) \<in> set fs. n = q)
      | None \<Rightarrow> rest = tail \<and> (\<forall>((i, p, q), n) \<in> set fs. n = q) \<or>
          (\<exists>i p q n. fs \<noteq> [] \<and> last fs = ((i, p, q), n) \<and> n < q \<and> r' = 0 \<and>
                     rest = (i, p, q - n) # tail))"
proof (induction cr own r ms arbitrary: fs r' st rest rule: spec_match.induct)
  case (2 cr own r i p q ms)
  show ?case
  proof (cases "r = 0 \<or> \<not> cr p \<or> own i \<or> r < q")
    case False
    then obtain fs2 where rec: "spec_match cr own (r - q) ms = (fs2, r', st, rest)"
      and fs: "fs = ((i, p, q), q) # fs2"
      using 2(2) by (auto split: prod.splits)
    then obtain tail where t: "ms = map fst fs2 @ tail"
      "\<forall>((i, p, q), n) \<in> set (butlast fs2). n = q"
      "case st of
        Some m \<Rightarrow> tail = m # rest \<and> own (fst m) \<and> (\<forall>((i, p, q), n) \<in> set fs2. n = q)
      | None \<Rightarrow> rest = tail \<and> (\<forall>((i, p, q), n) \<in> set fs2. n = q) \<or>
          (\<exists>i p q n. fs2 \<noteq> [] \<and> last fs2 = ((i, p, q), n) \<and> n < q \<and> r' = 0 \<and>
                     rest = (i, p, q - n) # tail)"
      using 2(1) [of fs2 r' st rest] False by auto
    then show ?thesis unfolding fs by (intro exI [of _ tail]) (auto split: option.splits)
  qed (use 2(2) in \<open>auto split: if_splits\<close>)
qed simp

text \<open>If lots are left and self-trade prevention did not fire, the remaining makers start with one
  the taker does not accept.\<close>

lemma spec_match_residual:
  "spec_match cr own r ms = (fs, r', None, rest) \<Longrightarrow> r' \<noteq> 0 \<Longrightarrow>
   (\<forall>(i, p, q) \<in> set ms. q \<noteq> 0) \<Longrightarrow>
   rest = [] \<or> (\<exists>i p q ms'. rest = (i, p, q) # ms' \<and> \<not> cr p)"
proof (induction cr own r ms arbitrary: fs r' rest rule: spec_match.induct)
  case (2 cr own r i p q ms)
  then show ?case by (auto split: if_splits prod.splits)
qed simp

section \<open>The best level of a side\<close>

lemma btm_ext:
  assumes "btm_ok m" "btm_ok m'" "\<And>k. btm_get m k = btm_get m' k"
  shows "m = m'"
proof -
  have keys: "map fst m = map fst m'"
  proof (rule strict_sorted_equal)
    show "set (map fst m) = set (map fst m')"
      using assms(3) by (auto simp: dom_map_of_conv_image_fst [symmetric] btm_get_def dom_def)
  qed (use assms in \<open>simp_all add: btm_ok_def\<close>)
  have id: "map (\<lambda>k. (k, the (btm_get x k))) (map fst x) = x" if "btm_ok x" for x :: "('a, 'b) btm"
    by (auto intro!: map_idI simp: btm_get_def map_of_is_SomeI btm_ok_distinct [OF that])
  show ?thesis
    using id [OF assms(1)] id [OF assms(2)] unfolding keys assms(3) by simp
qed

text \<open>Two books that may differ at one side and price only.\<close>

definition same_elsewhere :: "side \<Rightarrow> price \<Rightarrow> 'l book \<Rightarrow> 'l book \<Rightarrow> bool" where
  "same_elsewhere s p b b' \<longleftrightarrow>
     (\<forall>s' p'. (s', p') \<noteq> (s, p) \<longrightarrow> btm_get (levels_of s' b') p' = btm_get (levels_of s' b) p')"

lemma same_elsewhere_refl [simp]: "same_elsewhere s p b b"
  by (simp add: same_elsewhere_def)

lemma same_elsewhere_trans [trans]:
  "same_elsewhere s p b b' \<Longrightarrow> same_elsewhere s p b' b'' \<Longrightarrow> same_elsewhere s p b b''"
  by (simp add: same_elsewhere_def)

lemma same_elsewhere_level_update [simp]: "same_elsewhere s p b (level_update api s p u b)"
  by (auto simp: same_elsewhere_def level_update_def btm_get_insert split: option.split)

lemma same_elsewhere_prune [simp]: "same_elsewhere s p b (prune_level api s p b)"
  by (auto simp: same_elsewhere_def prune_level_def btm_get_remove split: option.split)

lemma same_elsewhere_removed [simp]: "same_elsewhere (om_side m) (om_price m) b (removed api oid m b)"
  using same_elsewhere_level_update by (simp add: same_elsewhere_def removed_def)

lemma same_elsewhere_queue_at:
  "same_elsewhere s p b b' \<Longrightarrow> (s', p') \<noteq> (s, p) \<Longrightarrow> queue_at queue b' s' p' = queue_at queue b s' p'"
  by (simp add: same_elsewhere_def queue_at_def)

lemma same_elsewhere_other_side:
  assumes "levels_wf lok b" "levels_wf lok b'" "same_elsewhere s p b b'" "s' \<noteq> s"
  shows "levels_of s' b' = levels_of s' b"
  using assms by (intro btm_ext levels_wfD(1)) (auto simp: same_elsewhere_def)

lemma best_first_get:
  assumes "btm_ok m" "best_first s m = (p, l) # lower"
  shows "btm_get m p = Some l" "btm_ok (best_first Ask lower) \<or> s = Bid"
  using assms by (cases s; auto simp: btm_get_eq_Some rev_eq_Cons_iff btm_ok_Cons)+

lemma best_first_insert:
  assumes "btm_ok m" "best_first s m = (p, l) # lower"
  shows "best_first s (btm_insert p l' m) = (p, l') # lower"
proof (cases s)
  case Bid
  then have m: "m = rev lower @ [(p, l)]" using assms(2) by (simp add: rev_eq_Cons_iff)
  then have "btm_below p m = rev lower" "btm_above p m = []"
    using assms(1)
    by (fastforce simp: btm_ok_append btm_below_def btm_above_def filter_empty_conv intro!: filter_True)+
  then show ?thesis using Bid btm_insert_segments [OF assms(1), of p l'] by simp
qed (use assms in simp)

lemma best_first_remove:
  assumes "btm_ok m" "best_first s m = (p, l) # lower"
  shows "best_first s (btm_remove p m) = lower"
proof (cases s)
  case Bid
  then have m: "m = rev lower @ [(p, l)]" using assms(2) by (simp add: rev_eq_Cons_iff)
  then have "btm_remove p m = rev lower"
    using assms(1) by (fastforce simp: btm_ok_append btm_remove_def intro!: filter_True)
  then show ?thesis using Bid by simp
next
  case Ask
  then show ?thesis
    using assms by (auto simp: btm_remove_def btm_ok_Cons intro!: filter_True)
qed

lemma makers_changed_best:
  assumes wf: "levels_wf lok b" "levels_wf lok b'" and same: "same_elsewhere s p b b'"
    and best: "best_first s (levels_of s b) = (p, l) # lower"
  shows "makers queue s b' = map (maker_of p) (queue_at queue b' s p) @ level_makers queue lower"
    and "best_first s (levels_of s b') =
         (case btm_get (levels_of s b') p of None \<Rightarrow> lower | Some l' \<Rightarrow> (p, l') # lower)"
proof -
  note ok = levels_wfD(1) [OF wf(1), of s] and ok' = levels_wfD(1) [OF wf(2), of s]
  show shape: "best_first s (levels_of s b') =
      (case btm_get (levels_of s b') p of None \<Rightarrow> lower | Some l' \<Rightarrow> (p, l') # lower)"
  proof (cases "btm_get (levels_of s b') p")
    case None
    then have "levels_of s b' = btm_remove p (levels_of s b)"
      using same by (intro btm_ext ok' btm_remove_ok ok) (auto simp: same_elsewhere_def btm_get_remove)
    then show ?thesis using None best_first_remove [OF ok best] by simp
  next
    case (Some l')
    then have "levels_of s b' = btm_insert p l' (levels_of s b)"
      using same by (intro btm_ext ok' btm_insert_ok ok) (auto simp: same_elsewhere_def btm_get_insert)
    then show ?thesis using Some best_first_insert [OF ok best] by simp
  qed
  show "makers queue s b' = map (maker_of p) (queue_at queue b' s p) @ level_makers queue lower"
    unfolding makers_def shape
    by (simp add: queue_at_def level_makers_def split: option.split)
qed

lemma best_opposite_best_first:
  "best_opposite s b =
     (case best_first (opposite s) (levels_of (opposite s) b) of [] \<Rightarrow> None | (p, l) # lower \<Rightarrow> Some p)"
proof (cases s)
  case Ask
  then show ?thesis
    by (cases "bids b" rule: rev_cases) (auto simp: best_bid_def btm_last_key_def)
next
  case Bid
  then show ?thesis by (simp add: best_ask_def btm_first_key_def)
qed

end
