(* ===== verification/Match_Refine.thy ===== *)
theory Match_Refine
  imports Match
begin

text \<open>
  The walk of \<^verbatim>\<open>match_aggressive\<close> refines \<open>spec_match\<close>: first the loop over one level's
  snapshot, then the loop over the levels, by induction on the number of levels left. The number
  of ids drawn from the generator is the number of fills, so the walk panics exactly when the
  generator cannot supply that many.
\<close>

definition walked ::
  "aggressive_order \<Rightarrow> ('l, 'i) walk \<Rightarrow> 'l book \<Rightarrow> 'i \<Rightarrow> trade_id list \<Rightarrow> (maker \<times> u64) list \<Rightarrow>
   u64 \<Rightarrow> maker option \<Rightarrow> ('l, 'i) walk" where
  "walked taker w b' ids' tids fs r st =
     \<lparr>w_book = b', w_ids = ids', w_fills = w_fills w @ map2 (fill_of taker) tids fs,
      w_stp = w_stp w @ stp_of taker st, w_remaining = r,
      w_stp_cancelled = (w_stp_cancelled w \<or> st \<noteq> None)\<rparr>"

lemma walked_simps [simp]:
  "w_book (walked taker w b' ids' tids fs r st) = b'"
  "w_ids (walked taker w b' ids' tids fs r st) = ids'"
  "w_remaining (walked taker w b' ids' tids fs r st) = r"
  by (simp_all add: walked_def)

lemma walked_trans:
  "length tids = length fs \<Longrightarrow> st = None \<Longrightarrow>
   walked taker (walked taker w b1 i1 tids fs r1 st) b2 i2 tids2 fs2 r2 st2 =
   walked taker w b2 i2 (tids @ tids2) (fs @ fs2) r2 st2"
  by (simp add: walked_def stp_of_def)

lemma walked_nil: "walked taker w (w_book w) (w_ids w) [] [] (w_remaining w) None = w"
  by (simp add: walked_def stp_of_def)

lemma w_book_walked:
  "(walked taker w b' ids' tids fs r st)\<lparr>w_book := b''\<rparr> = walked taker w b'' ids' tids fs r st"
  by (simp add: walked_def)

lemma head_facts:
  assumes "book_wf queue level_ok b" "queue_at queue b s p = x # xs"
  shows "\<exists>oid m. pl_id x = Sequential (order_id_raw oid) \<and> pl_id_to_domain (pl_id x) = Some oid \<and>
    index b oid = Some m \<and> om_side m = s \<and> om_price m = p \<and> pl_quantity x \<noteq> 0 \<and>
    maker_of p x = (oid, p, pl_quantity x) \<and> pl_id x \<notin> pl_id ` set xs"
proof -
  have "queue_wf (index b) (book_seq b) s p (x # xs)" using book_wf_queue [OF assms(1)] assms(2) by metis
  then obtain oid m where "order_id_ok oid" "pl_id x = Sequential (order_id_raw oid)"
    "index b oid = Some m" "om_side m = s" "om_price m = p" "pl_quantity x \<noteq> 0"
    "pl_id x \<notin> pl_id ` set xs"
    by (auto simp: queue_wf_def entry_wf_def)
  then show ?thesis by (auto simp: maker_of_def)
qed

definition pruned_except :: "('l \<Rightarrow> pl_order list) \<Rightarrow> side \<Rightarrow> price \<Rightarrow> 'l book \<Rightarrow> bool" where
  "pruned_except queue s p b \<longleftrightarrow>
     (\<forall>s'. \<forall>(p', l) \<in> set (levels_of s' b). (s', p') \<noteq> (s, p) \<longrightarrow> queue l \<noteq> [])"

lemma pruned_except_same:
  assumes "levels_wf lok b" "levels_wf lok b'" "same_elsewhere s p b b'" "pruned_except queue s p b"
  shows "pruned_except queue s p b'"
proof -
  have "queue l \<noteq> []" if "(p', l) \<in> set (levels_of s' b')" "(s', p') \<noteq> (s, p)" for s' p' l
  proof -
    have "btm_get (levels_of s' b') p' = Some l"
      using that(1) btm_get_eq_Some [OF levels_wfD(1) [OF assms(2)]] by blast
    then have "btm_get (levels_of s' b) p' = Some l"
      using assms(3) that(2) by (simp add: same_elsewhere_def)
    then have "(p', l) \<in> set (levels_of s' b)"
      using btm_get_eq_Some [OF levels_wfD(1) [OF assms(1)]] by blast
    then show ?thesis using assms(4) that(2) by (auto simp: pruned_except_def)
  qed
  then show ?thesis by (auto simp: pruned_except_def)
qed

lemma pruned_imp_except: "pruned queue b \<Longrightarrow> pruned_except queue s p b"
  by (auto simp: pruned_def pruned_except_def)

text \<open>What the inner loop promises about the book it leaves.\<close>

definition level_post ::
  "('l \<Rightarrow> pl_order list) \<Rightarrow> ('l \<Rightarrow> bool) \<Rightarrow> side \<Rightarrow> price \<Rightarrow> 'l book \<Rightarrow> maker option \<Rightarrow> maker list \<Rightarrow>
   'l book \<Rightarrow> bool" where
  "level_post queue level_ok opp p b st rest b' \<longleftrightarrow>
     book_wf queue level_ok b' \<and> same_elsewhere opp p b b' \<and>
     map (maker_of p) (queue_at queue b' opp p) = rest \<and>
     index b' \<subseteq>\<^sub>m index b \<and> book_seq b' = book_seq b \<and>
     (st \<noteq> None \<longrightarrow> pruned_except queue opp p b \<longrightarrow> pruned queue b')"

text \<open>Refinement of one run of the inner loop, in terms of what the specification gives for the
  makers of the level.\<close>

definition level_refines ::
  "'l pl_api \<Rightarrow> ('l \<Rightarrow> pl_order list) \<Rightarrow> ('l \<Rightarrow> bool) \<Rightarrow> ('i \<Rightarrow> (trade_id \<times> 'i) option) \<Rightarrow> aggressive_order \<Rightarrow> price \<Rightarrow> pl_order list \<Rightarrow> ('l, 'i) walk \<Rightarrow>
   (maker \<times> u64) list \<times> u64 \<times> maker option \<times> maker list \<Rightarrow> bool" where
  "level_refines api queue level_ok nti taker p snap w spec \<longleftrightarrow>
     (case spec of (fs, r, st, rest) \<Rightarrow>
        case ids_run nti (length fs) (w_ids w) of
          None \<Rightarrow> match_level api nti taker p snap w = None
        | Some (tids, ids') \<Rightarrow>
            \<exists>b'. match_level api nti taker p snap w =
                   Some (if st = None then BreakLevel else BreakWalk,
                         walked taker w b' ids' tids fs r st) \<and>
              level_post queue level_ok (opposite (ao_side taker)) p (w_book w) st rest b')"

lemma map_le_drop: "(f(a := None)) \<subseteq>\<^sub>m f"
  by (simp add: map_le_def)

context price_level
begin

lemma consume_full:
  assumes wf: "book_wf queue level_ok b" and q: "queue_at queue b s p = x # xs"
    and x: "pl_id x = Sequential (order_id_raw oid)" "index b oid = Some m" "om_side m = s" "om_price m = p"
      "pl_id x \<notin> pl_id ` set xs"
  defines "b' \<equiv> consume_maker api s p x oid (pl_quantity x) b"
  shows "book_wf queue level_ok b'" "queue_at queue b' s p = xs" "same_elsewhere s p b b'"
    "index b' = (index b)(oid := None)" "book_seq b' = book_seq b"
proof -
  have b': "b' = removed api oid m b" using x by (simp add: b'_def consume_maker_def removed_def)
  show "book_wf queue level_ok b'" using removed_book_wf [OF wf x(2)] by (simp add: b')
  have "filter (\<lambda>y. pl_id y \<noteq> pl_id x) xs = xs" using x(5) by (intro filter_True) (metis image_eqI)
  then show "queue_at queue b' s p = xs"
    using removed_queue_at [OF wf, of oid m] x q by (simp add: b')
  show "same_elsewhere s p b b'" using same_elsewhere_removed [of m b] x by (simp add: b')
  show "index b' = (index b)(oid := None)" "book_seq b' = book_seq b" by (simp_all add: b')
qed

lemma consume_partial:
  fixes oid :: order_id
  assumes wf: "book_wf queue level_ok b" and q: "queue_at queue b s p = x # xs"
    and x: "pl_id x \<notin> pl_id ` set xs" and n: "n < pl_quantity x" "n \<noteq> 0"
  defines "b' \<equiv> consume_maker api s p x oid n b"
  shows "book_wf queue level_ok b'" "queue_at queue b' s p = x\<lparr>pl_quantity := pl_quantity x - n\<rparr> # xs"
    "same_elsewhere s p b b'" "index b' = index b" "book_seq b' = book_seq b"
proof -
  let ?q = "pl_quantity x - n"
  have "unat ?q = unat (pl_quantity x) - unat n" using n by (simp add: unat_sub word_less_nat_alt word_le_nat_alt)
  then have q0: "?q \<noteq> 0" "0 < ?q" using n by (auto simp: word_less_nat_alt)
  have le: "?q \<le> pl_quantity x" using n by (simp add: word_le_nat_alt unat_sub word_less_nat_alt)
  have b': "b' = level_update api s p (PlUpdateQuantity (pl_id x) ?q) b"
    using q0 by (simp add: b'_def consume_maker_def)
  have mem: "x \<in> set (queue_at queue b s p)" by (simp add: q)
  show "book_wf queue level_ok b'" using reduced_book_wf [OF wf mem q0(2) le] by (simp add: b')
  have "map (set_qty (pl_id x) ?q) xs = xs"
    using x by (intro map_idI) (auto simp: set_qty_def rev_image_eqI)
  then show "queue_at queue b' s p = x\<lparr>pl_quantity := ?q\<rparr> # xs"
    using level_update_reduce(2) [OF book_wf_levels [OF wf] mem q0(2) le] q
    by (simp add: b' set_qty_def [of _ _ x])
  show "same_elsewhere s p b b'" "index b' = index b" "book_seq b' = book_seq b"
    by (simp_all add: b')
qed

lemma stp_step:
  assumes wf: "book_wf queue level_ok (w_book w)"
    and q: "queue_at queue (w_book w) (opposite (ao_side taker)) p = x # xs"
    and x: "pl_id x = Sequential (order_id_raw oid)" "index (w_book w) oid = Some m"
      "om_side m = opposite (ao_side taker)" "om_price m = p" "pl_quantity x \<noteq> 0"
      "pl_id x \<notin> pl_id ` set xs" "om_account_id m = ao_account_id taker"
  defines "b' \<equiv> prune_level api (opposite (ao_side taker)) p (removed api oid m (w_book w))"
  shows "stp_cancel_maker api taker p x oid m w =
      walked taker w b' (w_ids w) [] [] (w_remaining w) (Some (oid, p, pl_quantity x))"
    and "book_wf queue level_ok b'" "queue_at queue b' (opposite (ao_side taker)) p = xs"
      "same_elsewhere (opposite (ao_side taker)) p (w_book w) b'"
      "index b' = (index (w_book w))(oid := None)" "book_seq b' = book_seq (w_book w)"
proof -
  have b': "b' = prune_level api (om_side m) (om_price m) (removed api oid m (w_book w))"
    by (simp add: b'_def x)
  show "stp_cancel_maker api taker p x oid m w =
      walked taker w b' (w_ids w) [] [] (w_remaining w) (Some (oid, p, pl_quantity x))"
    using x by (simp add: stp_cancel_maker_def walked_def stp_of_def b'_def removed_def Qty_new_ok Let_def)
  show "book_wf queue level_ok b'" using removed_book_wf [OF wf x(2)] by (simp add: b' book_wf_prune)
  have "filter (\<lambda>y. pl_id y \<noteq> pl_id x) xs = xs" using x(6) by (intro filter_True) (metis image_eqI)
  then show "queue_at queue b' (opposite (ao_side taker)) p = xs"
    using prune_removed_queue_at [OF wf x(2)] x q by (simp add: b')
  show "same_elsewhere (opposite (ao_side taker)) p (w_book w) b'"
    using same_elsewhere_trans [OF same_elsewhere_removed same_elsewhere_prune] x b' by metis
  show "index b' = (index (w_book w))(oid := None)" "book_seq b' = book_seq (w_book w)"
    by (simp_all add: b')
qed

lemma level_refines_stop:
  assumes "w_remaining w = 0 \<or> snap = []" "book_wf queue level_ok (w_book w)"
    and "queue_at queue (w_book w) (opposite (ao_side taker)) p = snap"
  shows "level_refines api queue level_ok nti taker p snap w (spec_match cr own (w_remaining w) (map (maker_of p) snap))"
proof -
  have "match_level api nti taker p snap w = Some (BreakLevel, w)"
    using assms(1) by (auto simp: match_level.simps)
  moreover have "spec_match cr own (w_remaining w) (map (maker_of p) snap) =
      ([], w_remaining w, None, map (maker_of p) snap)"
    using assms(1) by auto
  ultimately show ?thesis
    using assms walked_nil [of taker w]
    by (auto simp: level_refines_def level_post_def intro!: exI [of _ "w_book w"])
qed

text \<open>The three things that can happen to the head of the queue. The facts on the head are those
  of \<open>head_facts\<close>.\<close>

lemma level_refines_stp:
  assumes wf: "book_wf queue level_ok (w_book w)"
    and q: "queue_at queue (w_book w) (opposite (ao_side taker)) p = x # xs"
    and x: "pl_id x = Sequential (order_id_raw oid)" "index (w_book w) oid = Some m"
      "om_side m = opposite (ao_side taker)" "om_price m = p" "pl_quantity x \<noteq> 0"
      "pl_id x \<notin> pl_id ` set xs" "om_account_id m = ao_account_id taker"
    and pid: "pl_id_to_domain (pl_id x) = Some oid" and r: "w_remaining w \<noteq> 0"
  shows "level_refines api queue level_ok nti taker p (x # xs) w
           ([], w_remaining w, Some (oid, p, pl_quantity x), map (maker_of p) xs)"
proof -
  let ?opp = "opposite (ao_side taker)"
  let ?b = "prune_level api ?opp p (removed api oid m (w_book w))"
  note step = stp_step [OF wf q x]
  note wf_removed = book_wf_levels [OF removed_book_wf [OF wf x(2)]]
  have same_removed: "same_elsewhere ?opp p (w_book w) (removed api oid m (w_book w))"
    using same_elsewhere_removed [of m] x(3,4) by simp
  have "match_level api nti taker p (x # xs) w =
      Some (BreakWalk, walked taker w ?b (w_ids w) [] [] (w_remaining w) (Some (oid, p, pl_quantity x)))"
    using r x pid step(1) by (simp add: match_level.simps)
  moreover have "pruned_except queue ?opp p (w_book w) \<Longrightarrow> pruned queue ?b"
    using pruned_except_same [OF book_wf_levels [OF wf] wf_removed same_removed]
      pruned_prune [OF wf_removed] by (simp add: pruned_except_def)
  ultimately show ?thesis
    using step(2-) by (auto simp: level_refines_def level_post_def map_le_drop intro!: exI [of _ ?b])
qed

lemma level_refines_part:
  assumes wf: "book_wf queue level_ok (w_book w)"
    and q: "queue_at queue (w_book w) (opposite (ao_side taker)) p = x # xs"
    and x: "maker_of p x = (oid, p, pl_quantity x)" "index (w_book w) oid = Some m"
      "pl_quantity x \<noteq> 0" "pl_id x \<notin> pl_id ` set xs" "om_account_id m \<noteq> ao_account_id taker"
    and pid: "pl_id_to_domain (pl_id x) = Some oid"
    and r: "w_remaining w \<noteq> 0" "w_remaining w < pl_quantity x"
  shows "level_refines api queue level_ok nti taker p (x # xs) w
           ([((oid, p, pl_quantity x), w_remaining w)], 0, None,
            (oid, p, pl_quantity x - w_remaining w) # map (maker_of p) xs)"
proof -
  let ?opp = "opposite (ao_side taker)"
  let ?b = "consume_maker api ?opp p x oid (w_remaining w) (w_book w)"
  note step = consume_partial [OF wf q x(4) r(2,1), of oid]
  have nz: "pl_quantity x - w_remaining w \<noteq> 0" using r(2) by auto
  have min: "min (w_remaining w) (pl_quantity x) = w_remaining w" using r(2) by simp
  have "level_post queue level_ok ?opp p (w_book w) None
      ((oid, p, pl_quantity x - w_remaining w) # map (maker_of p) xs) ?b"
    using step x(1) by (simp add: level_post_def maker_of_def)
  moreover have "match_level api nti taker p (x # xs) w =
      (case nti (w_ids w) of None \<Rightarrow> None
       | Some (t, i') \<Rightarrow> Some (BreakLevel,
           walked taker w ?b i' [t] [((oid, p, pl_quantity x), w_remaining w)] 0 None))"
    using r x pid nz
    by (subst match_level.simps)
      (auto simp: Let_def min Qty_new_def LOT_SIZE_def match_level.simps walked_def stp_of_def
        fill_of_def split: option.split)
  ultimately show ?thesis by (auto simp: level_refines_def split: option.splits)
qed

lemma match_level_full:
  assumes "index (w_book w) oid = Some m" "pl_quantity x \<noteq> 0" "om_account_id m \<noteq> ao_account_id taker"
    and "pl_id_to_domain (pl_id x) = Some oid" "w_remaining w \<noteq> 0" "pl_quantity x \<le> w_remaining w"
  shows "match_level api nti taker p (x # xs) w =
    (case nti (w_ids w) of None \<Rightarrow> None
     | Some (t, i') \<Rightarrow> match_level api nti taker p xs
         (walked taker w
           (consume_maker api (opposite (ao_side taker)) p x oid (pl_quantity x) (w_book w))
           i' [t] [((oid, p, pl_quantity x), pl_quantity x)] (w_remaining w - pl_quantity x) None))"
proof -
  have min: "min (w_remaining w) (pl_quantity x) = pl_quantity x" using assms(6) by simp
  show ?thesis
    using assms
    by (cases w, subst match_level.simps)
      (auto simp: Let_def min Qty_new_def LOT_SIZE_def walked_def stp_of_def fill_of_def
        split: option.split)
qed

lemma level_post_step:
  assumes "level_post queue level_ok s p b1 st rest b2" "same_elsewhere s p b b1"
    and "index b1 \<subseteq>\<^sub>m index b" "book_seq b1 = book_seq b" "levels_wf level_ok b" "levels_wf level_ok b1"
  shows "level_post queue level_ok s p b st rest b2"
  using assms same_elsewhere_trans [OF assms(2)] map_le_trans [OF _ assms(3)]
    pruned_except_same [OF assms(5,6,2)]
  by (auto simp: level_post_def)

lemma level_refines_full:
  assumes wf: "book_wf queue level_ok (w_book w)"
    and q: "queue_at queue (w_book w) (opposite (ao_side taker)) p = x # xs"
    and x: "pl_id x = Sequential (order_id_raw oid)" "index (w_book w) oid = Some m"
      "om_side m = opposite (ao_side taker)" "om_price m = p" "pl_id x \<notin> pl_id ` set xs"
      "pl_quantity x \<noteq> 0" "om_account_id m \<noteq> ao_account_id taker"
    and pid: "pl_id_to_domain (pl_id x) = Some oid"
    and r: "w_remaining w \<noteq> 0" "pl_quantity x \<le> w_remaining w"
    and rec: "\<And>t i'. level_refines api queue level_ok nti taker p xs
      (walked taker w (consume_maker api (opposite (ao_side taker)) p x oid (pl_quantity x) (w_book w))
        i' [t] [((oid, p, pl_quantity x), pl_quantity x)] (w_remaining w - pl_quantity x) None)
      (fs, r', st, rest)"
  shows "level_refines api queue level_ok nti taker p (x # xs) w
           (((oid, p, pl_quantity x), pl_quantity x) # fs, r', st, rest)"
proof (cases "nti (w_ids w)")
  case (Some ti)
  let ?b = "consume_maker api (opposite (ao_side taker)) p x oid (pl_quantity x) (w_book w)"
  obtain t i' where ti: "ti = (t, i')" by (cases ti)
  note step = consume_full [OF wf q x(1-5)]
  have "level_post queue level_ok (opposite (ao_side taker)) p ?b st rest b' \<Longrightarrow>
      level_post queue level_ok (opposite (ao_side taker)) p (w_book w) st rest b'" for b'
    using step by (elim level_post_step) (simp_all add: map_le_drop book_wf_levels [OF wf] book_wf_levels)
  then show ?thesis
    using rec [of i' t] Some ti ids_run_length [of nti _ i']
    by (auto simp: level_refines_def match_level_full [OF x(2,6,7) pid r] walked_trans split: option.splits)
qed (simp add: level_refines_def match_level_full [OF x(2,6,7) pid r])

lemma match_level_refines:
  assumes own: "own = owned_by idx0 (ao_account_id taker)" and limit: "limit_ok taker p"
    and "book_wf queue level_ok (w_book w)"
    and "queue_at queue (w_book w) (opposite (ao_side taker)) p = snap"
    and "index (w_book w) \<subseteq>\<^sub>m idx0"
  shows "level_refines api queue level_ok nti taker p snap w
    (spec_match (limit_ok taker) own (w_remaining w) (map (maker_of p) snap))"
  using assms(3-)
proof (induction snap arbitrary: w)
  case Nil
  then show ?case by (intro level_refines_stop) simp_all
next
  case (Cons x xs)
  obtain oid m where x: "pl_id x = Sequential (order_id_raw oid)"
      "index (w_book w) oid = Some m" "om_side m = opposite (ao_side taker)" "om_price m = p"
      "pl_id_to_domain (pl_id x) = Some oid" "pl_quantity x \<noteq> 0"
      "maker_of p x = (oid, p, pl_quantity x)" "pl_id x \<notin> pl_id ` set xs"
    using head_facts [OF Cons.prems(1,2)] by blast
  have mine: "own oid \<longleftrightarrow> om_account_id m = ao_account_id taker"
    using x(2) Cons.prems(3) by (auto simp: own owned_by_def map_le_def dom_def)
  consider (zero) "w_remaining w = 0" | (stp) "w_remaining w \<noteq> 0" "own oid"
    | (part) "w_remaining w \<noteq> 0" "\<not> own oid" "w_remaining w < pl_quantity x"
    | (full) "w_remaining w \<noteq> 0" "\<not> own oid" "\<not> w_remaining w < pl_quantity x"
    by blast
  then show ?case
  proof cases
    case zero
    then show ?thesis using Cons.prems by (intro level_refines_stop) simp_all
  next
    case stp
    then show ?thesis
      using level_refines_stp [OF Cons.prems(1,2) x(1-4,6,8) _ x(5)] mine limit x(7) by simp
  next
    case part
    then show ?thesis
      using level_refines_part [OF Cons.prems(1,2) x(7,2,6,8) _ x(5)] mine limit x(7) by simp
  next
    case full
    note step = consume_full [OF Cons.prems(1,2) x(1-4,8)]
    obtain fs r' st rest where rec: "spec_match (limit_ok taker) own (w_remaining w - pl_quantity x)
        (map (maker_of p) xs) = (fs, r', st, rest)" by (metis prod_cases4)
    let ?w = "\<lambda>t i'. walked taker w
      (consume_maker api (opposite (ao_side taker)) p x oid (pl_quantity x) (w_book w))
      i' [t] [((oid, p, pl_quantity x), pl_quantity x)] (w_remaining w - pl_quantity x) None"
    have "level_refines api queue level_ok nti taker p xs (?w t i') (fs, r', st, rest)" for t i'
      using Cons.IH [of "?w t i'", unfolded walked_simps, OF step(1,2),
          unfolded step(4), OF map_le_trans [OF map_le_drop Cons.prems(3)]] rec by simp
    then have "level_refines api queue level_ok nti taker p (x # xs) w
        (((oid, p, pl_quantity x), pl_quantity x) # fs, r', st, rest)"
      using full mine by (intro level_refines_full [OF Cons.prems(1,2) x(1-4,8,6) _ x(5)]) auto
    then show ?thesis using full rec limit x(7) by simp
  qed
qed

end

section \<open>The loop over the levels\<close>

definition walk_post ::
  "('l \<Rightarrow> pl_order list) \<Rightarrow> ('l \<Rightarrow> bool) \<Rightarrow> side \<Rightarrow> 'l book \<Rightarrow> maker list \<Rightarrow> 'l book \<Rightarrow> bool" where
  "walk_post queue level_ok opp b rest b' \<longleftrightarrow>
     book_inv queue level_ok b' \<and> makers queue opp b' = rest \<and>
     levels_of (opposite opp) b' = levels_of (opposite opp) b \<and>
     index b' \<subseteq>\<^sub>m index b \<and> book_seq b' = book_seq b"

lemma walk_post_trans:
  "walk_post queue level_ok opp b r1 b1 \<Longrightarrow> walk_post queue level_ok opp b1 r2 b2 \<Longrightarrow>
   walk_post queue level_ok opp b r2 b2"
  by (auto simp: walk_post_def intro: map_le_trans)

lemma spec_match_level_stops:
  "spec_match cr own r (map (maker_of p) xs) = (fs, r', None, rest) \<Longrightarrow> cr p \<Longrightarrow> rest \<noteq> [] \<Longrightarrow> r' = 0"
  by (induction xs arbitrary: r fs r' rest) (auto simp: maker_of_def split: if_splits prod.splits)

lemma makers_best:
  "best_first s (levels_of s b) = (p, l) # lower \<Longrightarrow>
   makers queue s b = map (maker_of p) (queue l) @ level_makers queue lower"
  by (simp add: makers_def level_makers_def)

lemma makers_shorter:
  assumes "levels_wf lok b" "levels_wf lok b'" "same_elsewhere s p b b'" "pruned queue b'"
    and "best_first s (levels_of s b) = (p, l) # lower" "queue_at queue b' s p = []"
  shows "length (levels_of s b') < length (levels_of s b)"
proof -
  have len: "length (best_first s m) = length m" for m :: "(price, 'a) btm"
    by (cases s) simp_all
  have "btm_get (levels_of s b') p = None"
    using assms(4,6) by (auto simp: pruned_def queue_at_def btm_get_def dest: map_of_SomeD split: option.splits)
  then have "best_first s (levels_of s b') = lower"
    using makers_changed_best(2) [OF assms(1,2,3,5)] by simp
  then show ?thesis using assms(5) len [of "levels_of s b"] len [of "levels_of s b'"] by simp
qed

context price_level
begin

text \<open>The book after the inner loop left with \<^verbatim>\<open>break 'level\<close> and the level was pruned.\<close>

lemma level_post_pruned:
  assumes inv: "book_inv queue level_ok b" and post: "level_post queue level_ok s p b None rest b1"
    and best: "best_first s (levels_of s b) = (p, l) # lower"
  shows "walk_post queue level_ok s b (rest @ level_makers queue lower) (prune_level api s p b1)"
    and "queue_at queue (prune_level api s p b1) s p = queue_at queue b1 s p"
    and "same_elsewhere s p b (prune_level api s p b1)"
proof -
  let ?b = "prune_level api s p b1"
  have wf: "levels_wf level_ok b" "levels_wf level_ok b1" "book_wf queue level_ok b1"
    using inv post by (auto simp: book_inv_def level_post_def book_wf_def)
  have same1: "same_elsewhere s p b b1" using post by (simp add: level_post_def)
  show same: "same_elsewhere s p b ?b" using same_elsewhere_trans [OF same1 same_elsewhere_prune] .
  show Q: "queue_at queue ?b s p = queue_at queue b1 s p" using prune_level_view(2) [OF wf(2)] by simp
  have wfb: "levels_wf level_ok ?b" using wf(2) by (rule prune_level_view(1))
  have "pruned_except queue s p b1"
    using inv by (intro pruned_except_same [OF wf(1,2) same1] pruned_imp_except) (simp add: book_inv_def)
  then have "pruned queue ?b" using pruned_prune [OF wf(2), of s p] by (simp add: pruned_except_def)
  then show "walk_post queue level_ok s b (rest @ level_makers queue lower) ?b"
    using post wf(3) makers_changed_best(1) [OF wf(1) wfb same best, of queue] Q
      same_elsewhere_other_side [OF wf(1) wfb same]
    by (simp add: walk_post_def book_inv_def book_wf_prune level_post_def)
qed

lemma level_post_stp:
  assumes inv: "book_inv queue level_ok b" and post: "level_post queue level_ok s p b (Some x) rest b1"
    and best: "best_first s (levels_of s b) = (p, l) # lower"
  shows "walk_post queue level_ok s b (rest @ level_makers queue lower) b1"
proof -
  have wf: "levels_wf level_ok b" "levels_wf level_ok b1" "book_wf queue level_ok b1"
    using inv post by (auto simp: book_inv_def level_post_def book_wf_def)
  have same: "same_elsewhere s p b b1" and "pruned queue b1"
    using post inv pruned_imp_except by (auto simp: level_post_def book_inv_def)
  then show ?thesis
    using post wf(3) makers_changed_best(1) [OF wf(1,2) same best, of queue]
      same_elsewhere_other_side [OF wf(1,2) same]
    by (simp add: walk_post_def book_inv_def level_post_def)
qed

end

definition walk_refines ::
  "'l pl_api \<Rightarrow> ('l \<Rightarrow> pl_order list) \<Rightarrow> ('l \<Rightarrow> bool) \<Rightarrow> ('i \<Rightarrow> (trade_id \<times> 'i) option) \<Rightarrow>
   aggressive_order \<Rightarrow> ('l, 'i) walk \<Rightarrow>
   (maker \<times> u64) list \<times> u64 \<times> maker option \<times> maker list \<Rightarrow> bool" where
  "walk_refines api queue level_ok nti taker w spec \<longleftrightarrow>
     (case spec of (fs, r, st, rest) \<Rightarrow>
        case ids_run nti (length fs) (w_ids w) of
          None \<Rightarrow> match_walk api nti taker w = None
        | Some (tids, ids') \<Rightarrow>
            \<exists>b'. match_walk api nti taker w = Some (walked taker w b' ids' tids fs r st) \<and>
                 walk_post queue level_ok (opposite (ao_side taker)) (w_book w) rest b')"

context price_level_total
begin

lemma walk_refines_stay:
  assumes "book_inv queue level_ok (w_book w)" "match_walk api nti taker w = Some w"
  shows "walk_refines api queue level_ok nti taker w
    ([], w_remaining w, None, makers queue (opposite (ao_side taker)) (w_book w))"
  using assms walked_nil [of taker w]
  by (auto simp: walk_refines_def walk_post_def intro!: exI [of _ "w_book w"])

lemma best_level_facts:
  assumes "book_inv queue level_ok b" "best_first (opposite s) (levels_of (opposite s) b) = (p, l) # lower"
  shows "btm_get (levels_of (opposite s) b) p = Some l" "queue_at queue b (opposite s) p = queue l"
    "pl_snapshot_orders api l = Some (queue l)" "best_opposite s b = Some p" "queue l \<noteq> []"
proof -
  have wf: "book_wf queue level_ok b" using assms(1) by (simp add: book_inv_def)
  show get: "btm_get (levels_of (opposite s) b) p = Some l"
    using best_first_get(1) [OF levels_wfD(1) [OF book_wf_levels [OF wf]] assms(2)] .
  then show "queue_at queue b (opposite s) p = queue l" by (simp add: queue_at_def)
  show "pl_snapshot_orders api l = Some (queue l)" using snapshot_eq [OF wf_level_ok [OF wf get]] .
  show "best_opposite s b = Some p" using assms(2) best_opposite_best_first [of s b] by simp
  show "queue l \<noteq> []"
    using assms(1) get by (fastforce simp: book_inv_def pruned_def btm_get_def dest: map_of_SomeD)
qed

lemma match_walk_pass:
  assumes "book_inv queue level_ok (w_book w)" "w_remaining w \<noteq> 0" "limit_ok taker p"
    and "best_first (opposite (ao_side taker)) (levels_of (opposite (ao_side taker)) (w_book w)) = (p, l) # lower"
  shows "match_walk api nti taker w =
    (case match_level api nti taker p (queue l) w of
       None \<Rightarrow> None
     | Some (BreakWalk, w') \<Rightarrow> Some w'
     | Some (BreakLevel, w') \<Rightarrow>
         match_walk api nti taker
           (w'\<lparr>w_book := prune_level api (opposite (ao_side taker)) p (w_book w')\<rparr>))"
  using assms best_level_facts [OF assms(1,4)]
  by (subst match_walk.simps) (auto simp: limit_ok_def split: option.split level_exit.split)

text \<open>One pass over the best level, given that the rest of the walk refines.\<close>

lemma walk_refines_pass:
  fixes taker defines "opp \<equiv> opposite (ao_side taker)"
  assumes inv: "book_inv queue level_ok (w_book w)" and r0: "w_remaining w \<noteq> 0" and lim: "limit_ok taker p"
    and best: "best_first opp (levels_of opp (w_book w)) = (p, l) # lower"
    and level: "level_refines api queue level_ok nti taker p (queue l) w (fs1, r1, st1, rest1)"
    and stops: "st1 = None \<Longrightarrow> rest1 \<noteq> [] \<Longrightarrow> r1 = 0"
    and rec: "\<And>w'. st1 = None \<Longrightarrow> rest1 = [] \<Longrightarrow>
      walk_post queue level_ok opp (w_book w) (level_makers queue lower) (w_book w') \<Longrightarrow>
      length (levels_of opp (w_book w')) < length (levels_of opp (w_book w)) \<Longrightarrow>
      w_remaining w' = r1 \<Longrightarrow> walk_refines api queue level_ok nti taker w' (fs2, r2, st2, rest2)"
  shows "walk_refines api queue level_ok nti taker w
    (if st1 = None \<and> rest1 = [] then (fs1 @ fs2, r2, st2, rest2)
     else (fs1, r1, st1, rest1 @ level_makers queue lower))"
proof (cases "ids_run nti (length fs1) (w_ids w)")
  case None
  then show ?thesis
    using level match_walk_pass [OF inv r0 lim best [unfolded opp_def]]
    by (auto simp: walk_refines_def level_refines_def ids_run_add)
next
  case (Some ti)
  obtain tids1 ids1 where ti: "ti = (tids1, ids1)" by (cases ti)
  obtain b1 where lev: "match_level api nti taker p (queue l) w =
        Some (if st1 = None then BreakLevel else BreakWalk, walked taker w b1 ids1 tids1 fs1 r1 st1)"
      and post: "level_post queue level_ok opp p (w_book w) st1 rest1 b1"
    using level Some ti by (auto simp: level_refines_def opp_def)
  note unf = match_walk_pass [OF inv r0 lim best [unfolded opp_def], folded opp_def]
  show ?thesis
  proof (cases st1)
    case stp: (Some x)
    then show ?thesis
      using lev unf Some ti level_post_stp [OF inv post [unfolded stp] best]
      by (auto simp: walk_refines_def opp_def)
  next
    case None
    let ?b2 = "prune_level api opp p b1" and ?w2 = "walked taker w (prune_level api opp p b1) ids1 tids1 fs1 r1 None"
    note post2 = level_post_pruned [OF inv post [unfolded None] best]
    have go: "match_walk api nti taker w = match_walk api nti taker ?w2"
      using unf lev None by (simp add: w_book_walked)
    show ?thesis
    proof (cases "rest1 = []")
      case False
      then show ?thesis
        using stops None Some ti go post2(1) by (auto simp: match_walk.simps walk_refines_def opp_def)
    next
      case True
      have "length (levels_of opp ?b2) < length (levels_of opp (w_book w))"
        using makers_shorter [OF _ _ post2(3) _ best] post2(1,2) post True inv
        by (auto simp: book_inv_def book_wf_def level_post_def walk_post_def)
      then have "walk_refines api queue level_ok nti taker ?w2 (fs2, r2, st2, rest2)"
        using rec [of ?w2] None True post2(1) by simp
      moreover have "length tids1 = length fs1" using Some ti by (simp add: ids_run_length)
      ultimately show ?thesis
        using None True Some ti go walk_post_trans [OF post2(1)]
        by (fastforce simp: walk_refines_def ids_run_add walked_trans opp_def split: option.splits)
    qed
  qed
qed

lemma walk_refines_best:
  fixes taker defines "opp \<equiv> opposite (ao_side taker)"
  assumes own: "own = owned_by idx0 (ao_account_id taker)"
    and inv: "book_inv queue level_ok (w_book w)" and idx: "index (w_book w) \<subseteq>\<^sub>m idx0"
    and best: "best_first opp (levels_of opp (w_book w)) = (p, l) # lower"
    and go: "w_remaining w \<noteq> 0" "limit_ok taker p"
    and rec: "\<And>w'. walk_post queue level_ok opp (w_book w) (level_makers queue lower) (w_book w') \<Longrightarrow>
      length (levels_of opp (w_book w')) < length (levels_of opp (w_book w)) \<Longrightarrow>
      walk_refines api queue level_ok nti taker w'
        (spec_match (limit_ok taker) own (w_remaining w') (makers queue opp (w_book w')))"
  shows "walk_refines api queue level_ok nti taker w
    (spec_match (limit_ok taker) own (w_remaining w) (makers queue opp (w_book w)))"
proof -
  obtain fs1 r1 st1 rest1 where spec1: "spec_match (limit_ok taker) own (w_remaining w)
      (map (maker_of p) (queue l)) = (fs1, r1, st1, rest1)" by (metis prod_cases4)
  obtain fs2 r2 st2 rest2 where spec2: "spec_match (limit_ok taker) own r1
      (level_makers queue lower) = (fs2, r2, st2, rest2)" by (metis prod_cases4)
  have "level_refines api queue level_ok nti taker p (queue l) w (fs1, r1, st1, rest1)"
    using match_level_refines [OF own go(2) _ _ idx, of "queue l" nti]
      best_level_facts(2) [OF inv best [unfolded opp_def]] inv by (simp add: book_inv_def spec1)
  moreover have "walk_refines api queue level_ok nti taker w' (fs2, r2, st2, rest2)"
    if "walk_post queue level_ok opp (w_book w) (level_makers queue lower) (w_book w')"
      "length (levels_of opp (w_book w')) < length (levels_of opp (w_book w))" "w_remaining w' = r1" for w'
    using rec [OF that(1,2)] that(1,3) spec2 by (simp add: walk_post_def)
  ultimately have "walk_refines api queue level_ok nti taker w
      (if st1 = None \<and> rest1 = [] then (fs1 @ fs2, r2, st2, rest2)
       else (fs1, r1, st1, rest1 @ level_makers queue lower))"
    using walk_refines_pass [OF inv go, of l lower nti fs1 r1 st1 rest1 fs2 r2 st2 rest2]
      best spec_match_level_stops [of "limit_ok taker" own "w_remaining w" p "queue l" fs1 r1 rest1] spec1 go(2)
    by (auto simp: opp_def)
  moreover have "spec_match (limit_ok taker) own (w_remaining w) (makers queue opp (w_book w)) =
      (if st1 = None \<and> rest1 = [] then (fs1 @ fs2, r2, st2, rest2)
       else (fs1, r1, st1, rest1 @ level_makers queue lower))"
    by (simp add: makers_best [OF best] spec_match_append spec1 spec2)
  ultimately show ?thesis by simp
qed

lemma match_walk_refines:
  fixes taker defines "opp \<equiv> opposite (ao_side taker)"
  assumes own: "own = owned_by idx0 (ao_account_id taker)"
    and "book_inv queue level_ok (w_book w)" "index (w_book w) \<subseteq>\<^sub>m idx0"
  shows "walk_refines api queue level_ok nti taker w
    (spec_match (limit_ok taker) own (w_remaining w) (makers queue opp (w_book w)))"
  using assms(3-)
proof (induction "length (levels_of opp (w_book w))" arbitrary: w rule: less_induct)
  case less
  note stay = walk_refines_stay [OF less.prems(1), of nti taker, folded opp_def]
  show ?case
  proof (cases "best_first opp (levels_of opp (w_book w))")
    case Nil
    then show ?thesis
      using stay best_opposite_best_first [of "ao_side taker" "w_book w"]
      by (auto simp: match_walk.simps makers_def level_makers_def opp_def)
  next
    case (Cons pl lower)
    obtain p l where best: "best_first opp (levels_of opp (w_book w)) = (p, l) # lower"
      using Cons by (cases pl) simp
    note facts = best_level_facts [OF less.prems(1) best [unfolded opp_def], folded opp_def]
    obtain x xs where x: "queue l = x # xs" using facts(5) by (cases "queue l") auto
    show ?thesis
    proof (cases "w_remaining w = 0 \<or> \<not> limit_ok taker p")
      case True
      then have "match_walk api nti taker w = Some w"
        using facts(4) by (auto simp: match_walk.simps limit_ok_def split: option.splits)
      then show ?thesis
        using stay True x by (auto simp: makers_best [OF best] maker_of_def)
    next
      case False
      show ?thesis
      proof (rule walk_refines_best [OF own less.prems best [unfolded opp_def], folded opp_def])
        show "walk_refines api queue level_ok nti taker w'
            (spec_match (limit_ok taker) own (w_remaining w') (makers queue opp (w_book w')))"
          if a: "walk_post queue level_ok opp (w_book w) (level_makers queue lower) (w_book w')"
            "length (levels_of opp (w_book w')) < length (levels_of opp (w_book w))" for w'
          by (rule less.hyps [OF a(2)]) (use a(1) map_le_trans [OF _ less.prems(2)] in \<open>auto simp: walk_post_def\<close>)
      qed (use False in simp_all)
    qed
  qed
qed

end

end
