(* ===== verification/Match_Props.thy ===== *)
theory Match_Props
  imports Match_Refine
begin

text \<open>
  Consequences of the refinement for the public operations: \<^verbatim>\<open>match_aggressive\<close> as one equation
  over the specification, the crossing invariant of the book, and \<^verbatim>\<open>replace\<close> branch by branch.
\<close>

section \<open>Crossing\<close>

definition uncrossed :: "'l book \<Rightarrow> bool" where
  "uncrossed b \<longleftrightarrow> (case (best_bid b, best_ask b) of (Some bp, Some ap) \<Rightarrow> bp < ap | _ \<Rightarrow> True)"

text \<open>The same on the index, which is monotone in it.\<close>

definition idx_uncrossed :: "(order_id \<rightharpoonup> order_meta) \<Rightarrow> bool" where
  "idx_uncrossed idx \<longleftrightarrow>
     (\<forall>i j m n. idx i = Some m \<longrightarrow> idx j = Some n \<longrightarrow> om_side m = Bid \<longrightarrow> om_side n = Ask \<longrightarrow>
        om_price m < om_price n)"

lemma idx_uncrossed_mono: "idx' \<subseteq>\<^sub>m idx \<Longrightarrow> idx_uncrossed idx \<Longrightarrow> idx_uncrossed idx'"
  unfolding idx_uncrossed_def map_le_def dom_def by (metis (mono_tags, lifting) mem_Collect_eq option.distinct(1))

lemma level_keys_index:
  assumes "book_inv queue level_ok b"
  shows "p \<in> fst ` set (levels_of s b) \<longleftrightarrow>
    (\<exists>oid m. index b oid = Some m \<and> om_side m = s \<and> om_price m = p)"
proof
  assume "p \<in> fst ` set (levels_of s b)"
  then obtain l where l: "(p, l) \<in> set (levels_of s b)" by auto
  have wf: "book_wf queue level_ok b" using assms by (simp add: book_inv_def)
  have "queue_at queue b s p = queue l" "queue l \<noteq> []"
    using l assms btm_get_eq_Some [OF levels_wfD(1) [OF book_wf_levels [OF wf]], of s p l]
    by (auto simp: queue_at_def book_inv_def pruned_def)
  then obtain x xs where "queue_at queue b s p = x # xs" by (cases "queue l") auto
  from head_facts [OF wf this] show "\<exists>oid m. index b oid = Some m \<and> om_side m = s \<and> om_price m = p"
    by blast
next
  assume "\<exists>oid m. index b oid = Some m \<and> om_side m = s \<and> om_price m = p"
  then obtain oid m where m: "index b oid = Some m" "om_side m = s" "om_price m = p" by blast
  have "book_wf queue level_ok b" using assms by (simp add: book_inv_def)
  from book_wf_index [OF this m(1)] obtain l where "btm_get (levels_of s b) p = Some l"
    using m by blast
  then show "p \<in> fst ` set (levels_of s b)" by (metis btm_get_eq_None option.distinct(1))
qed

lemma best_bid_max:
  assumes "levels_wf lok b" "best_bid b = Some p"
  shows "p \<in> fst ` set (bids b)" "q \<in> fst ` set (bids b) \<Longrightarrow> q \<le> p"
  using btm_last_key_SomeD [of "bids b" p] levels_wfD(1) [OF assms(1), of Bid] assms(2)
  by (force simp: best_bid_def)+

lemma best_ask_min:
  assumes "levels_wf lok b" "best_ask b = Some p"
  shows "p \<in> fst ` set (asks b)" "q \<in> fst ` set (asks b) \<Longrightarrow> p \<le> q"
  using btm_first_key_SomeD [of "asks b" p] levels_wfD(1) [OF assms(1), of Ask] assms(2)
  by (force simp: best_ask_def)+

lemma best_None:
  "best_bid b = None \<longleftrightarrow> bids b = []" "best_ask b = None \<longleftrightarrow> asks b = []"
  by (simp_all add: best_bid_def best_ask_def)

lemma uncrossed_keys:
  assumes "levels_wf lok b"
  shows "uncrossed b \<longleftrightarrow> (\<forall>p \<in> fst ` set (bids b). \<forall>q \<in> fst ` set (asks b). p < q)"
proof (cases "best_bid b = None \<or> best_ask b = None")
  case True
  then have "uncrossed b" by (auto simp: uncrossed_def split: option.split)
  moreover have "bids b = [] \<or> asks b = []" using True by (simp add: best_None)
  ultimately show ?thesis by auto
next
  case False
  then obtain bp ap where b: "best_bid b = Some bp" "best_ask b = Some ap" by auto
  then have "uncrossed b \<longleftrightarrow> bp < ap" by (simp add: uncrossed_def)
  also have "\<dots> \<longleftrightarrow> (\<forall>p \<in> fst ` set (bids b). \<forall>q \<in> fst ` set (asks b). p < q)"
    using best_bid_max [OF assms b(1)] best_ask_min [OF assms b(2)]
    by (meson le_less_trans less_le_trans)
  finally show ?thesis .
qed

lemma uncrossed_index:
  assumes "book_inv queue level_ok b"
  shows "uncrossed b \<longleftrightarrow> idx_uncrossed (index b)"
proof -
  have "levels_wf level_ok b" using assms by (simp add: book_inv_def book_wf_def)
  then show ?thesis
    using level_keys_index [OF assms, of _ Bid] level_keys_index [OF assms, of _ Ask]
    by (simp add: uncrossed_keys Ball_def idx_uncrossed_def) blast
qed

lemma crosses_not_iff:
  "\<not> crosses Bid tp p \<longleftrightarrow> tp < p" "\<not> crosses Ask tp p \<longleftrightarrow> p < tp"
  by auto

lemma would_cross_index:
  assumes "book_inv queue level_ok b" "\<not> would_cross b s (Some tp)"
    and "index b j = Some n" "om_side n = opposite s"
  shows "\<not> crosses s tp (om_price n)"
proof -
  have wf: "levels_wf level_ok b" using assms by (simp add: book_inv_def book_wf_def)
  have key: "om_price n \<in> fst ` set (levels_of (opposite s) b)"
    using level_keys_index [OF assms(1)] assms(3,4) by blast
  show ?thesis
  proof (cases s)
    case Bid
    then have "best_ask b \<noteq> None" using key by (auto simp: best_None)
    then obtain ap where "best_ask b = Some ap" by blast
    then show ?thesis
      using best_ask_min(2) [OF wf] key assms(2) Bid by (fastforce simp: would_cross_def)
  next
    case Ask
    then have "best_bid b \<noteq> None" using key by (auto simp: best_None)
    then obtain bp where "best_bid b = Some bp" by blast
    then show ?thesis
      using best_bid_max(2) [OF wf] key assms(2) Ask by (fastforce simp: would_cross_def)
  qed
qed

lemma idx_uncrossed_add:
  assumes "book_inv queue level_ok b" "idx_uncrossed (index b)"
    and "\<not> would_cross b (om_side m) (Some (om_price m))"
  shows "idx_uncrossed ((index b)(oid \<mapsto> m))"
  using assms(2) would_cross_index [OF assms(1,3)]
  by (cases "om_side m") (auto simp: idx_uncrossed_def not_le)

section \<open>Matching an aggressive order\<close>

text \<open>What the specification gives for an order arriving at a book.\<close>

definition spec_of ::
  "('l \<Rightarrow> pl_order list) \<Rightarrow> 'l book \<Rightarrow> aggressive_order \<Rightarrow>
   (maker \<times> u64) list \<times> u64 \<times> maker option \<times> maker list" where
  "spec_of queue b taker =
     spec_match (limit_ok taker) (owned_by (index b) (ao_account_id taker)) (as_lots (ao_qty taker))
       (makers queue (opposite (ao_side taker)) b)"

definition result_of :: "(maker \<times> u64) list \<Rightarrow> u64 \<Rightarrow> maker option \<Rightarrow> match_result" where
  "result_of fs r st =
     \<lparr>mr_fills_count = length fs, mr_stp_cancellations = (if st = None then 0 else 1),
      mr_taker_remaining = (if r = 0 then None else Some (Qty r)),
      mr_taker_stp_cancelled = (st \<noteq> None), mr_taker_post_only_rejected = False\<rparr>"

definition post_only_gate :: "'l book \<Rightarrow> aggressive_order \<Rightarrow> bool" where
  "post_only_gate b taker \<longleftrightarrow> ao_tif taker = PostOnly \<and> would_cross b (ao_side taker) (ao_price taker)"

text \<open>The order \<^verbatim>\<open>replace\<close> sends through the walk and the residual it rests.\<close>

definition resubmit :: "order_id \<Rightarrow> order_meta \<Rightarrow> price \<Rightarrow> qty \<Rightarrow> aggressive_order" where
  "resubmit oid m p q =
     \<lparr>ao_order_id = oid, ao_account_id = om_account_id m, ao_side = om_side m, ao_price = Some p,
      ao_qty = q, ao_tif = om_tif m\<rparr>"

definition re_rest :: "order_id \<Rightarrow> order_meta \<Rightarrow> price \<Rightarrow> qty \<Rightarrow> resting_order" where
  "re_rest oid m p q =
     \<lparr>ro_order_id = oid, ro_account_id = om_account_id m, ro_side = om_side m, ro_price = p,
      ro_qty = q, ro_tif = om_tif m\<rparr>"

lemma length_stp_of: "length (stp_of taker st) = (if st = None then 0 else 1)"
  by (auto simp: stp_of_def split: option.split)

lemma level_makers_facts:
  assumes "book_wf queue level_ok b" "(i, p, q) \<in> set (makers queue s b)"
  shows "q \<noteq> 0" "\<exists>m. index b i = Some m \<and> om_side m = s \<and> om_price m = p"
    "resting_lots queue b i = Some q"
proof -
  obtain l x where l: "(p, l) \<in> set (levels_of s b)" "x \<in> set (queue l)" "maker_of p x = (i, p, q)"
    using assms(2) by (cases s) (auto simp: makers_def level_makers_def maker_of_def)
  have Q: "queue_at queue b s p = queue l"
    using l(1) btm_get_eq_Some [OF levels_wfD(1) [OF book_wf_levels [OF assms(1)]], of s p l]
    by (simp add: queue_at_def)
  have "queue_wf (index b) (book_seq b) s p (queue l)"
    using book_wf_queue [OF assms(1), of s p] Q by simp
  then obtain oid m where x: "pl_id x = Sequential (order_id_raw oid)" "index b oid = Some m"
      "om_side m = s" "om_price m = p" "pl_quantity x \<noteq> 0" "distinct (map pl_id (queue l))"
    using l(2) by (auto simp: queue_wf_def entry_wf_def)
  then have i: "i = oid" "q = pl_quantity x" using l(3) by (auto simp: maker_of_def)
  show "q \<noteq> 0" "\<exists>m. index b i = Some m \<and> om_side m = s \<and> om_price m = p" using x i by auto
  show "resting_lots queue b i = Some q"
    using x i Q find_unique [OF l(2) x(1) x(6)] by (simp add: resting_lots_def)
qed

lemma makers_pos: "book_wf queue level_ok b \<Longrightarrow> \<forall>(i, p, q) \<in> set (makers queue s b). q \<noteq> 0"
  using level_makers_facts(1) by fast

context price_level_total
begin

lemma match_aggressive_spec:
  assumes inv: "book_inv queue level_ok b" and gate: "\<not> post_only_gate b taker"
    and spec: "spec_of queue b taker = (fs, r, st, rest)"
  shows "case ids_run nti (length fs) ids of
      None \<Rightarrow> match_aggressive api nti b taker ids F S = None
    | Some (tids, ids') \<Rightarrow>
        \<exists>b'. match_aggressive api nti b taker ids F S =
               Some (result_of fs r st, b', ids', F @ map2 (fill_of taker) tids fs, S @ stp_of taker st) \<and>
             walk_post queue level_ok (opposite (ao_side taker)) b rest b'"
proof -
  let ?w = "\<lparr>w_book = b, w_ids = ids, w_fills = F, w_stp = S,
             w_remaining = as_lots (ao_qty taker), w_stp_cancelled = False\<rparr>"
  have "walk_refines api queue level_ok nti taker ?w (fs, r, st, rest)"
    using match_walk_refines [of "owned_by (index b) (ao_account_id taker)" "index b" taker ?w nti]
      inv spec by (simp add: spec_of_def)
  then show ?thesis
    using gate ids_run_length [of nti "length fs" ids]
    by (auto simp: walk_refines_def match_aggressive_def post_only_gate_def walked_def result_of_def
        length_stp_of Qty_new_ok split: option.splits)
qed

lemma match_aggressive_gate:
  "post_only_gate b taker \<Longrightarrow>
   match_aggressive api nti b taker ids F S =
     Some (\<lparr>mr_fills_count = 0, mr_stp_cancellations = 0, mr_taker_remaining = Some (ao_qty taker),
            mr_taker_stp_cancelled = False, mr_taker_post_only_rejected = True\<rparr>, b, ids, F, S)"
  by (simp add: match_aggressive_def post_only_gate_def)

lemma match_aggressive_Some:
  assumes inv: "book_inv queue level_ok b" and gate: "\<not> post_only_gate b taker"
    and m: "match_aggressive api nti b taker ids F S = Some (res, b', ids', F', S')"
  shows "\<exists>fs r st rest tids. spec_of queue b taker = (fs, r, st, rest) \<and>
    ids_run nti (length fs) ids = Some (tids, ids') \<and> res = result_of fs r st \<and>
    F' = F @ map2 (fill_of taker) tids fs \<and> S' = S @ stp_of taker st \<and>
    walk_post queue level_ok (opposite (ao_side taker)) b rest b'"
proof -
  obtain fs r st rest where spec: "spec_of queue b taker = (fs, r, st, rest)" by (metis prod_cases4)
  show ?thesis
    using match_aggressive_spec [OF inv gate spec, of nti ids F S] m spec
    by (auto split: option.splits)
qed

text \<open>The invariant, the crossing invariant, and the residual being safe to rest.\<close>

lemma match_aggressive_inv:
  assumes inv: "book_inv queue level_ok b"
    and m: "match_aggressive api nti b taker ids F S = Some (res, b', ids', F', S')"
  shows "book_inv queue level_ok b'" "index b' \<subseteq>\<^sub>m index b" "book_seq b' = book_seq b"
    "uncrossed b \<Longrightarrow> uncrossed b'"
proof -
  show b': "book_inv queue level_ok b'" and idx: "index b' \<subseteq>\<^sub>m index b" and "book_seq b' = book_seq b"
    using match_aggressive_Some [OF inv _ m] match_aggressive_gate [of b taker nti ids F S] m inv
    by (cases "post_only_gate b taker"; auto simp: walk_post_def)+
  show "uncrossed b \<Longrightarrow> uncrossed b'"
    using uncrossed_index [OF inv] uncrossed_index [OF b'] idx_uncrossed_mono [OF idx] by simp
qed

lemma residual_does_not_cross:
  assumes inv: "book_inv queue level_ok b" and gate: "\<not> post_only_gate b taker"
    and spec: "spec_of queue b taker = (fs, r, None, rest)" and r: "r \<noteq> 0"
    and post: "walk_post queue level_ok (opposite (ao_side taker)) b rest b'"
    and limit: "ao_price taker = Some tp"
  shows "\<not> would_cross b' (ao_side taker) (Some tp)"
proof -
  let ?opp = "opposite (ao_side taker)"
  have wf: "book_wf queue level_ok b" using inv by (simp add: book_inv_def)
  have rest: "rest = [] \<or> (\<exists>i p q ms'. rest = (i, p, q) # ms' \<and> \<not> limit_ok taker p)"
    using spec_match_residual [OF spec [unfolded spec_of_def] r makers_pos [OF wf]] .
  have inv': "book_inv queue level_ok b'" and mk: "makers queue ?opp b' = rest"
    using post by (auto simp: walk_post_def)
  show ?thesis
  proof (cases "best_first ?opp (levels_of ?opp b')")
    case Nil
    then show ?thesis
      using best_opposite_best_first [of "ao_side taker" b'] by (simp add: would_cross_def)
  next
    case (Cons pl lower)
    then obtain p l where best: "best_first ?opp (levels_of ?opp b') = (p, l) # lower" by (cases pl) simp
    note facts = best_level_facts [OF inv' best]
    then obtain x xs where "queue l = x # xs" by (cases "queue l") auto
    then have "\<not> limit_ok taker p"
      using rest mk by (auto simp: makers_best [OF best] maker_of_def)
    then show ?thesis using facts(4) limit by (simp add: would_cross_def limit_ok_def)
  qed
qed

text \<open>Resting the residual of a walk, the step \<^verbatim>\<open>handle_new_order\<close> and \<^verbatim>\<open>replace\<close> share.\<close>

lemma match_then_rest:
  assumes inv: "book_inv queue level_ok b" and gate: "\<not> post_only_gate b taker"
    and m: "match_aggressive api nti b taker ids F S = Some (res, b', ids', F', S')"
    and res: "\<not> mr_taker_stp_cancelled res" "mr_taker_remaining res = Some rq"
    and ord: "ro_side ord = ao_side taker" "ao_price taker = Some (ro_price ord)" "ro_qty ord = rq"
      "order_id_ok (ro_order_id ord)"
    and add: "add_resting api b' ord = (Inr (), b'')"
  shows "book_inv queue level_ok b''" "uncrossed b \<Longrightarrow> uncrossed b''"
proof -
  obtain fs r st rest tids where spec: "spec_of queue b taker = (fs, r, st, rest)"
    and res_eq: "res = result_of fs r st"
    and post: "walk_post queue level_ok (opposite (ao_side taker)) b rest b'"
    using match_aggressive_Some [OF inv gate m] by blast
  have st: "st = None" and r: "r \<noteq> 0" "rq = Qty r"
    using res res_eq by (auto simp: result_of_def split: if_splits)
  note b' = match_aggressive_inv [OF inv m]
  note added = add_resting_ok [OF b'(1) ord(4) _ add]
  have qok: "qty_ok (ro_qty ord)" using ord(3) r by (simp add: qty_ok_def)
  show b'': "book_inv queue level_ok b''" using added(1) [OF qok] .
  have nc: "\<not> would_cross b' (om_side (meta_of ord)) (Some (om_price (meta_of ord)))"
    using residual_does_not_cross [OF inv gate spec [unfolded st] r(1) post ord(2)] ord(1) by simp
  show "uncrossed b''" if "uncrossed b"
    using b'(4) [OF that] idx_uncrossed_add [OF b'(1) _ nc]
    by (simp add: uncrossed_index [OF b'(1)] uncrossed_index [OF b''] added(3) [OF qok])
qed

section \<open>Cancel-replace\<close>

text \<open>Same price, no more quantity: the order keeps its place and only its quantity changes.\<close>

lemma pruned_get:
  assumes "levels_wf lok b"
  shows "pruned queue b \<longleftrightarrow>
    (\<forall>s p. btm_get (levels_of s b) p \<noteq> None \<longrightarrow> queue_at queue b s p \<noteq> [])"
proof -
  have "pruned queue b \<longleftrightarrow> (\<forall>s p l. btm_get (levels_of s b) p = Some l \<longrightarrow> queue l \<noteq> [])"
    using btm_get_eq_Some [OF levels_wfD(1) [OF assms]] by (auto simp: pruned_def)
  then show ?thesis unfolding queue_at_def by (metis not_None_eq option.simps(5))
qed

lemma level_update_dom:
  "btm_get (levels_of s' (level_update api s p u b)) p' = None \<longleftrightarrow> btm_get (levels_of s' b) p' = None"
  by (auto simp: level_update_def btm_get_insert split: option.split)

lemma replace_in_place:
  assumes inv: "book_inv queue level_ok b" and m: "index b oid = Some m"
    and lots: "resting_lots queue b oid = Some q" and q: "qty_ok new_qty" "as_lots new_qty \<le> q"
  shows "\<exists>b'. replace api nti b oid (om_price m) new_qty ids F S =
      Some (Inr \<lparr>rp_kept_priority = True, rp_match_result = None\<rparr>, b', ids, F, S) \<and>
    book_inv queue level_ok b' \<and> index b' = index b \<and> book_seq b' = book_seq b \<and>
    queue_at queue b' = at_level (om_side m) (om_price m)
      (map (set_qty (Sequential (order_id_raw oid)) (as_lots new_qty))
        (queue_at queue b (om_side m) (om_price m))) (queue_at queue b)"
proof -
  have wf: "book_wf queue level_ok b" using inv by (simp add: book_inv_def)
  obtain l x where x: "btm_get (levels_of (om_side m) b) (om_price m) = Some l"
      "x \<in> set (queue_at queue b (om_side m) (om_price m))" "pl_id x = Sequential (order_id_raw oid)"
      "q = pl_quantity x"
    using book_wf_index [OF wf m] lots by auto
  have n: "0 < as_lots new_qty" "as_lots new_qty \<le> pl_quantity x"
    using q x(4) by (simp_all add: qty_ok_def word_neq_0_conv)
  let ?b = "level_update api (om_side m) (om_price m)
      (PlUpdateQuantity (Sequential (order_id_raw oid)) (as_lots new_qty)) b"
  note step = level_update_reduce [OF book_wf_levels [OF wf] x(2) n, unfolded x(3)]
  have "replace api nti b oid (om_price m) new_qty ids F S =
      Some (Inr \<lparr>rp_kept_priority = True, rp_match_result = None\<rparr>, ?b, ids, F, S)"
    using m x(1) q lots by (simp add: replace_def resting_qty_eq [OF wf] Let_def less_qty_def not_less)
  moreover have "pruned queue ?b"
    using inv by (simp add: pruned_get [OF step(1)] pruned_get [OF book_wf_levels [OF wf]]
        level_update_dom step(2) book_inv_def)
  moreover have "book_wf queue level_ok ?b" using reduced_book_wf [OF wf x(2) n] by (simp add: x(3))
  ultimately show ?thesis using step(2) by (auto simp: book_inv_def)
qed

text \<open>A resting \<^verbatim>\<open>PostOnly\<close> order repriced through the touch: nothing changes.\<close>

lemma replace_post_only:
  assumes inv: "book_inv queue level_ok b" and m: "index b oid = Some m"
    and lots: "resting_lots queue b oid = Some q"
    and lose: "new_price \<noteq> om_price m \<or> q < as_lots new_qty"
    and gate: "om_tif m = PostOnly" "would_cross b (om_side m) (Some new_price)"
  shows "replace api nti b oid new_price new_qty ids F S =
    Some (Inr \<lparr>rp_kept_priority = False,
               rp_match_result = Some \<lparr>mr_fills_count = 0, mr_stp_cancellations = 0,
                 mr_taker_remaining = Some new_qty, mr_taker_stp_cancelled = False,
                 mr_taker_post_only_rejected = True\<rparr>\<rparr>, b, ids, F, S)"
  using assms resting_qty_eq [of b oid]
  by (auto simp: replace_def Let_def book_inv_def less_qty_def)

lemma replace_resubmits:
  assumes inv: "book_inv queue level_ok b" and m: "index b oid = Some m"
    and lots: "resting_lots queue b oid = Some q"
    and lose: "new_price \<noteq> om_price m \<or> q < as_lots new_qty"
    and gate: "\<not> (om_tif m = PostOnly \<and> would_cross b (om_side m) (Some new_price))"
  defines "b1 \<equiv> prune_level api (om_side m) (om_price m) (removed api oid m b)"
  shows "replace api nti b oid new_price new_qty ids F S =
    (case match_aggressive api nti b1 (resubmit oid m new_price new_qty) ids F S of
       None \<Rightarrow> None
     | Some (res, b2, ids', F', S') \<Rightarrow>
         (case (mr_taker_stp_cancelled res, mr_taker_remaining res) of
            (False, Some rq) \<Rightarrow>
              (case add_resting api b2 (re_rest oid m new_price rq) of
                 (Inl e, b3) \<Rightarrow> Some (Inl e, b3, ids', F', S')
               | (Inr _, b3) \<Rightarrow> Some (Inr \<lparr>rp_kept_priority = False, rp_match_result = Some res\<rparr>,
                                    b3, ids', F', S'))
          | _ \<Rightarrow> Some (Inr \<lparr>rp_kept_priority = False, rp_match_result = Some res\<rparr>, b2, ids', F', S')))"
proof -
  have wf: "book_wf queue level_ok b" using inv by (simp add: book_inv_def)
  have lost: "(\<not> new_price \<noteq> om_price m \<and> \<not> unwrap_or (resting_qty api b oid) Qty_MIN < new_qty) = False"
    using lose lots resting_qty_eq [OF wf, of oid] by (auto simp: less_qty_def)
  have open_gate: "(om_tif m = PostOnly \<and> would_cross b (om_side m) (Some new_price)) = False"
    using gate by simp
  show ?thesis
    unfolding replace_def resubmit_def re_rest_def b1_def m option.case Let_def lost open_gate if_False
      cancel_known [OF wf m] prod.case sum.case ..
qed

lemma would_cross_cong:
  "levels_of (opposite s) b' = levels_of (opposite s) b \<Longrightarrow> would_cross b' s p = would_cross b s p"
  using best_opposite_best_first [of s b] best_opposite_best_first [of s b'] by (simp add: would_cross_def)

lemma replace_cases:
  assumes inv: "book_inv queue level_ok b" and m: "index b oid = Some m"
  obtains (keep) lots where "resting_lots queue b oid = Some lots" "new_price = om_price m" "as_lots new_qty \<le> lots"
  | (gate) lots where "resting_lots queue b oid = Some lots" "new_price \<noteq> om_price m \<or> lots < as_lots new_qty"
      "om_tif m = PostOnly" "would_cross b (om_side m) (Some new_price)"
  | (walk) lots where "resting_lots queue b oid = Some lots" "new_price \<noteq> om_price m \<or> lots < as_lots new_qty"
      "\<not> (om_tif m = PostOnly \<and> would_cross b (om_side m) (Some new_price))"
proof -
  have "book_wf queue level_ok b" using inv by (simp add: book_inv_def)
  then obtain lots where "resting_lots queue b oid = Some lots" using resting_lots_pos m by blast
  then show thesis using that by (metis not_le)
qed

text \<open>The parts of a replace that gives up its place: the walk of the resubmitted order and, unless it
  was cancelled or filled, the insertion of the residual.\<close>

lemma replace_walked:
  assumes inv: "book_inv queue level_ok b" and m: "index b oid = Some m"
    and lots: "resting_lots queue b oid = Some q" "new_price \<noteq> om_price m \<or> q < as_lots new_qty"
    and gate: "\<not> (om_tif m = PostOnly \<and> would_cross b (om_side m) (Some new_price))"
    and rep: "replace api nti b oid new_price new_qty ids F S = Some (out, b', ids', F', S')"
  defines "b1 \<equiv> prune_level api (om_side m) (om_price m) (removed api oid m b)"
  defines "t \<equiv> resubmit oid m new_price new_qty"
  obtains (walked) res b2 where "\<not> post_only_gate b1 t" "match_aggressive api nti b1 t ids F S = Some (res, b2, ids', F', S')"
    "mr_taker_stp_cancelled res \<or> mr_taker_remaining res = None \<Longrightarrow>
       b' = b2 \<and> out = Inr \<lparr>rp_kept_priority = False, rp_match_result = Some res\<rparr>"
    "\<And>rq ar b3. \<not> mr_taker_stp_cancelled res \<Longrightarrow> mr_taker_remaining res = Some rq \<Longrightarrow>
       add_resting api b2 (re_rest oid m new_price rq) = (ar, b3) \<Longrightarrow>
       b' = b3 \<and> (ar = Inr () \<longrightarrow> out = Inr \<lparr>rp_kept_priority = False, rp_match_result = Some res\<rparr>)"
proof -
  note eq = replace_resubmits [OF inv m lots gate, of nti ids F S, folded b1_def t_def]
  have gate1: "\<not> post_only_gate b1 t"
    using gate would_cross_cong [of "om_side m" b1 b] by (simp add: post_only_gate_def t_def resubmit_def b1_def)
  obtain res b2 where m2: "match_aggressive api nti b1 t ids F S = Some (res, b2, ids', F', S')"
    using rep eq by (auto split: option.splits prod.splits bool.splits sum.splits)
  show thesis
    by (rule that [OF gate1 m2]) (use rep eq m2 in \<open>auto split: bool.splits option.splits sum.splits\<close>)
qed

lemma replace_inv:
  assumes inv: "book_inv queue level_ok b" and q: "qty_ok new_qty"
    and rep: "replace api nti b oid new_price new_qty ids F S = Some (res, b', ids', F', S')"
  shows "book_inv queue level_ok b' \<and> (uncrossed b \<longrightarrow> uncrossed b')"
proof (cases "index b oid")
  case None
  then show ?thesis using rep inv by (simp add: replace_def)
next
  case (Some m)
  from inv Some show ?thesis
  proof (cases rule: replace_cases [where new_price = new_price and new_qty = new_qty])
    case (keep lots)
    then show ?thesis
      using replace_in_place [OF inv Some keep(1) q keep(3), of nti ids F S] rep
      by (auto simp: uncrossed_index [OF inv] uncrossed_index)
  next
    case (gate lots)
    then show ?thesis using replace_post_only [OF inv Some gate, of nti ids F S] rep inv by simp
  next
    case (walk lots)
    let ?b1 = "prune_level api (om_side m) (om_price m) (removed api oid m b)"
    note b1 = removed_book_inv [OF inv Some]
    have unc1: "uncrossed b \<Longrightarrow> uncrossed ?b1"
      using idx_uncrossed_mono [OF map_le_drop] by (simp add: uncrossed_index [OF inv] uncrossed_index [OF b1])
    from inv Some walk rep show ?thesis
    proof (cases rule: replace_walked)
      case (walked r b2)
      note w = walked(1,2) and inv2 = match_aggressive_inv [OF b1 walked(2)]
      show ?thesis
      proof (cases "mr_taker_stp_cancelled r \<or> mr_taker_remaining r = None")
        case True
        then show ?thesis using walked(3) inv2 unc1 by simp
      next
        case False
        then obtain rq where rq: "\<not> mr_taker_stp_cancelled r" "mr_taker_remaining r = Some rq" by blast
        obtain ar b3 where add: "add_resting api b2 (re_rest oid m new_price rq) = (ar, b3)" by fastforce
        have "order_id_ok oid" using book_wf_order_id_ok [OF _ Some] inv by (auto simp: book_inv_def)
        then show ?thesis
          using add_resting_err(1) [OF inv2(1)] match_then_rest [OF b1 w rq, of "re_rest oid m new_price rq" b3]
            walked(4) [OF rq add] add inv2 unc1
          by (cases ar) (auto simp: re_rest_def resubmit_def)
      qed
    qed
  qed
qed

end

end
