(* ===== verification/Demo.thy ===== *)
theory Demo
  imports Match_Props
begin

text \<open>
  A concrete book over the reference queue \<open>fifo_api\<close>, reached by \<^verbatim>\<open>add_resting\<close> from the empty
  book: two asks at 101 and one at 102, one bid at 99. It supplies the concrete inputs at which
  the theorems with hypotheses are instantiated.
\<close>

definition demo_order :: "u64 \<Rightarrow> u32 \<Rightarrow> side \<Rightarrow> i64 \<Rightarrow> u64 \<Rightarrow> tif \<Rightarrow> resting_order" where
  "demo_order i a s p q t =
     \<lparr>ro_order_id = OrderId i, ro_account_id = AccountId a, ro_side = s, ro_price = Price p,
      ro_qty = Qty q, ro_tif = t\<rparr>"

definition demo1 :: "pl_order list book" where
  "demo1 = snd (add_resting fifo_api Book_new (demo_order 1 7 Ask 101 5 Gtc))"

definition demo2 :: "pl_order list book" where
  "demo2 = snd (add_resting fifo_api demo1 (demo_order 2 8 Ask 101 3 Gtc))"

definition demo3 :: "pl_order list book" where
  "demo3 = snd (add_resting fifo_api demo2 (demo_order 3 9 Ask 102 4 PostOnly))"

definition demo_book :: "pl_order list book" where
  "demo_book = snd (add_resting fifo_api demo3 (demo_order 4 8 Bid 99 6 Gtc))"

text \<open>An id generator that never runs out, and one that is exhausted.\<close>

definition demo_ids :: "nat \<Rightarrow> (trade_id \<times> nat) option" where
  "demo_ids n = Some (TradeId (word_of_nat n), Suc n)"

lemma demo_order_ok:
  "i \<noteq> 0 \<Longrightarrow> order_id_ok (ro_order_id (demo_order i a s p q t))"
  "q \<noteq> 0 \<Longrightarrow> qty_ok (ro_qty (demo_order i a s p q t))"
  by (simp_all add: demo_order_def order_id_ok_def qty_ok_def)

lemma demo_step:
  assumes "book_inv (\<lambda>l. l) (\<lambda>_. True) b" "order_id_ok (ro_order_id ord)" "qty_ok (ro_qty ord)"
    and "fst (add_resting fifo_api b ord) = Inr ()"
  shows "book_inv (\<lambda>l. l) (\<lambda>_. True) (snd (add_resting fifo_api b ord))"
  using fifo.add_resting_ok(1) [OF assms(1-3)] assms(4) by (metis prod.collapse)

lemma demo_adds:
  "fst (add_resting fifo_api Book_new (demo_order 1 7 Ask 101 5 Gtc)) = Inr ()"
  "fst (add_resting fifo_api demo1 (demo_order 2 8 Ask 101 3 Gtc)) = Inr ()"
  "fst (add_resting fifo_api demo2 (demo_order 3 9 Ask 102 4 PostOnly)) = Inr ()"
  "fst (add_resting fifo_api demo3 (demo_order 4 8 Bid 99 6 Gtc)) = Inr ()"
  by code_simp+

lemma demo_inv:
  "book_inv (\<lambda>l. l) (\<lambda>_. True) demo1" "book_inv (\<lambda>l. l) (\<lambda>_. True) demo2"
  "book_inv (\<lambda>l. l) (\<lambda>_. True) demo3" "book_inv (\<lambda>l. l) (\<lambda>_. True) demo_book"
proof -
  show 1: "book_inv (\<lambda>l. l) (\<lambda>_. True) demo1"
    unfolding demo1_def by (intro demo_step Book_new_inv demo_order_ok demo_adds) simp_all
  show 2: "book_inv (\<lambda>l. l) (\<lambda>_. True) demo2"
    unfolding demo2_def by (intro demo_step 1 demo_order_ok demo_adds) simp_all
  show 3: "book_inv (\<lambda>l. l) (\<lambda>_. True) demo3"
    unfolding demo3_def by (intro demo_step 2 demo_order_ok demo_adds) simp_all
  show "book_inv (\<lambda>l. l) (\<lambda>_. True) demo_book"
    unfolding demo_book_def by (intro demo_step 3 demo_order_ok demo_adds) simp_all
qed

definition demo_taker :: "side \<Rightarrow> i64 option \<Rightarrow> u64 \<Rightarrow> tif \<Rightarrow> aggressive_order" where
  "demo_taker s p q t =
     \<lparr>ao_order_id = OrderId 50, ao_account_id = AccountId 10, ao_side = s,
      ao_price = map_option Price p, ao_qty = Qty q, ao_tif = t\<rparr>"

lemma demo_spec:
  "spec_of (\<lambda>l. l) demo_book (demo_taker Bid (Some 101) 10 Gtc) =
     ([((OrderId 1, Price 101, 5), 5), ((OrderId 2, Price 101, 3), 3)], 2, None, [(OrderId 3, Price 102, 4)])"
  by code_simp


lemma demo_gate: "\<not> post_only_gate demo_book (demo_taker Bid (Some 101) 10 Gtc)"
  by (simp add: post_only_gate_def demo_taker_def)

definition demo_res :: match_result where
  "demo_res = result_of [((OrderId 1, Price 101, 5), 5), ((OrderId 2, Price 101, 3), 3)] 2 None"

definition demo_fills :: "fill list" where
  "demo_fills = map2 (fill_of (demo_taker Bid (Some 101) 10 Gtc)) [TradeId 7, TradeId 8]
     [((OrderId 1, Price 101, 5), 5), ((OrderId 2, Price 101, 3), 3)]"

lemma demo_match:
  "\<exists>b'. match_aggressive fifo_api demo_ids demo_book (demo_taker Bid (Some 101) 10 Gtc) 7 [] [] =
     Some (demo_res, b', 9, demo_fills, [])"
  using fifo.match_aggressive_spec [OF demo_inv(4) demo_gate demo_spec, of demo_ids 7 "[]" "[]"]
  by (auto simp: demo_ids_def stp_of_def demo_taker_def demo_res_def demo_fills_def)

lemma demo_result:
  "\<not> mr_taker_post_only_rejected demo_res" "length demo_fills = 2"
  "map f_maker_order_id demo_fills = [OrderId 1, OrderId 2]" "f_maker_fully_filled (last demo_fills)"
  by (simp_all add: demo_res_def result_of_def demo_fills_def fill_of_def)

end
