(* ===== verification/Matching_Theorems.thy ===== *)
theory Matching_Theorems
  imports Demo
begin

text \<open>
  What the matching core promises, for every implementation of the level interface that satisfies
  its laws, each with an instance on the book of \<open>Demo\<close>.
\<close>

section \<open>Reading results off the specification\<close>

lemma fill_of_simps [simp]:
  "f_qty (fill_of taker t (m, n)) = Qty n" "f_maker_order_id (fill_of taker t (m, n)) = fst m"
  "f_price (fill_of taker t (m, n)) = fst (snd m)" "f_taker_order_id (fill_of taker t (m, n)) = ao_order_id taker"
  "f_maker_side (fill_of taker t (m, n)) = opposite (ao_side taker)"
  "f_maker_fully_filled (fill_of taker t (m, n)) \<longleftrightarrow> n = snd (snd m)" "f_trade_id (fill_of taker t (m, n)) = t"
  by (cases m; simp add: fill_of_def)+

lemma map2_fill_of_lots:
  "length tids = length fs \<Longrightarrow>
   map (\<lambda>f. unat (as_lots (f_qty f))) (map2 (fill_of taker) tids fs) = map (\<lambda>(m, n). unat n) fs"
  by (induction tids fs rule: list_induct2) (auto simp: fill_of_def)

lemma map2_fill_of_mem:
  "f \<in> set (map2 (fill_of taker) tids fs) \<Longrightarrow> \<exists>t m n. (m, n) \<in> set fs \<and> f = fill_of taker t (m, n)"
  by (auto dest!: set_zip_rightD) blast

definition legal_fill :: "('l \<Rightarrow> pl_order list) \<Rightarrow> 'l book \<Rightarrow> aggressive_order \<Rightarrow> fill \<Rightarrow> bool" where
  "legal_fill queue b taker f \<longleftrightarrow>
     (\<exists>m q. index b (f_maker_order_id f) = Some m \<and> om_side m = opposite (ao_side taker) \<and>
        om_price m = f_price f \<and> limit_ok taker (f_price f) \<and>
        om_account_id m \<noteq> ao_account_id taker \<and> resting_lots queue b (f_maker_order_id f) = Some q \<and>
        0 < as_lots (f_qty f) \<and> as_lots (f_qty f) \<le> q \<and>
        (f_maker_fully_filled f \<longleftrightarrow> as_lots (f_qty f) = q) \<and>
        f_taker_order_id f = ao_order_id taker \<and> f_maker_side f = opposite (ao_side taker))"

context price_level_total
begin

lemma not_rejected_gate:
  "match_aggressive api nti b taker ids F S = Some (res, b', ids', F', S') \<Longrightarrow>
   \<not> mr_taker_post_only_rejected res \<Longrightarrow> \<not> post_only_gate b taker"
  using match_aggressive_gate [of b taker nti ids F S] by auto

lemma match_aggressive_conserves:
  assumes "book_inv queue level_ok b" "\<not> post_only_gate b taker"
    and "match_aggressive api nti b taker ids [] [] = Some (res, b', ids', F, S)"
  shows "sum_list (map (\<lambda>f. unat (as_lots (f_qty f))) F) +
      unat (case mr_taker_remaining res of None \<Rightarrow> 0 | Some q \<Rightarrow> as_lots q) = unat (as_lots (ao_qty taker))"
proof -
  obtain fs r st rest tids where m: "spec_of queue b taker = (fs, r, st, rest)"
    "ids_run nti (length fs) ids = Some (tids, ids')" "res = result_of fs r st"
    "F = map2 (fill_of taker) tids fs"
    using match_aggressive_Some [OF assms] by auto
  have "unat (case mr_taker_remaining res of None \<Rightarrow> 0 | Some q \<Rightarrow> as_lots q) = unat r"
    by (simp add: m(3) result_of_def)
  then show ?thesis
    using spec_match_conserves [OF m(1) [unfolded spec_of_def]] ids_run_length [OF m(2)]
    unfolding m(4) by (simp only: map2_fill_of_lots)
qed

lemma match_aggressive_legal:
  assumes inv: "book_inv queue level_ok b" and gate: "\<not> post_only_gate b taker"
    and m: "match_aggressive api nti b taker ids [] [] = Some (res, b', ids', F, S)" and f: "f \<in> set F"
  shows "legal_fill queue b taker f"
proof -
  have wf: "book_wf queue level_ok b" using inv by (simp add: book_inv_def)
  obtain fs r st rest tids where spec: "spec_of queue b taker = (fs, r, st, rest)"
    and F: "F = map2 (fill_of taker) tids fs"
    using match_aggressive_Some [OF inv gate m] by auto
  obtain t i p q n where mem: "((i, p, q), n) \<in> set fs" and f_eq: "f = fill_of taker t ((i, p, q), n)"
    using map2_fill_of_mem [of f taker tids fs] f F by (metis prod_cases3)
  have leg: "(i, p, q) \<in> set (makers queue (opposite (ao_side taker)) b)" "limit_ok taker p"
      "\<not> owned_by (index b) (ao_account_id taker) i" "0 < n" "n \<le> q"
    using spec_match_fills [OF spec [unfolded spec_of_def] makers_pos [OF wf] mem] by auto
  obtain om where om: "index b i = Some om" "om_side om = opposite (ao_side taker)" "om_price om = p"
    using level_makers_facts(2) [OF wf leg(1)] by blast
  then show ?thesis
    using leg level_makers_facts(3) [OF wf leg(1)]
    by (simp add: legal_fill_def f_eq owned_by_def)
qed

lemma match_aggressive_fifo:
  assumes inv: "book_inv queue level_ok b" and gate: "\<not> post_only_gate b taker"
    and m: "match_aggressive api nti b taker ids [] [] = Some (res, b', ids', F, S)"
  shows "\<exists>tail. map fst (makers queue (opposite (ao_side taker)) b) =
      map f_maker_order_id F @ map sc_order_id S @ tail \<and> list_all f_maker_fully_filled (butlast F) \<and>
      map fst (makers queue (opposite (ao_side taker)) b') =
        (if F \<noteq> [] \<and> \<not> f_maker_fully_filled (last F) then [f_maker_order_id (last F)] else []) @ tail"
proof -
  obtain fs r st rest tids where spec: "spec_of queue b taker = (fs, r, st, rest)"
    and ids: "ids_run nti (length fs) ids = Some (tids, ids')"
    and F: "F = map2 (fill_of taker) tids fs" and S: "S = stp_of taker st"
    and post: "walk_post queue level_ok (opposite (ao_side taker)) b rest b'"
    using match_aggressive_Some [OF inv gate m] by auto
  have len: "length tids = length fs" using ids by (rule ids_run_length)
  have mk: "makers queue (opposite (ao_side taker)) b' = rest" using post by (simp add: walk_post_def)
  have ids_eq: "map f_maker_order_id F = map fst (map fst fs)"
    unfolding F using len by (induction tids fs rule: list_induct2) auto
  have full: "list_all f_maker_fully_filled (map2 (fill_of taker) ts gs) \<longleftrightarrow> (\<forall>((i, p, q), n) \<in> set gs. n = q)"
    if "length ts = length gs" for ts gs
    using that by (induction ts gs rule: list_induct2) auto
  have bl: "butlast F = map2 (fill_of taker) (butlast tids) (butlast fs)"
    unfolding F using len by (simp add: butlast_conv_take take_map take_zip)
  have lst: "fs \<noteq> [] \<Longrightarrow> last F = fill_of taker (last tids) (last fs)"
    unfolding F using len by (cases "tids = []") (simp_all add: last_map last_zip)
  have nil: "F = [] \<longleftrightarrow> fs = []" unfolding F using len by auto
  have all_last: "(\<forall>((i, p, q), n) \<in> set fs. n = q) \<Longrightarrow> F \<noteq> [] \<Longrightarrow> f_maker_fully_filled (last F)"
    using full [OF len] last_in_set [of F] by (auto simp: F list_all_iff)
  have S_ids: "map sc_order_id S = (case st of None \<Rightarrow> [] | Some m \<Rightarrow> [fst m])"
    by (simp add: S stp_of_def split: option.split prod.split)
  obtain tail where t: "makers queue (opposite (ao_side taker)) b = map fst fs @ tail"
    "\<forall>((i, p, q), n) \<in> set (butlast fs). n = q"
    "case st of
        Some m \<Rightarrow> tail = m # rest \<and> owned_by (index b) (ao_account_id taker) (fst m) \<and> (\<forall>((i, p, q), n) \<in> set fs. n = q)
      | None \<Rightarrow> rest = tail \<and> (\<forall>((i, p, q), n) \<in> set fs. n = q) \<or>
          (\<exists>i p q n. fs \<noteq> [] \<and> last fs = ((i, p, q), n) \<and> n < q \<and> r = 0 \<and> rest = (i, p, q - n) # tail)"
    using spec_match_prefix [OF spec [unfolded spec_of_def]] by blast
  have "list_all f_maker_fully_filled (butlast F)"
    unfolding bl using full [of "butlast tids" "butlast fs"] t(2) len by simp
  then show ?thesis
    using t(1,3) mk all_last lst nil
    by (cases st) (auto simp: ids_eq S_ids intro: exI [of _ "map fst rest"] exI [of _ "map fst tail"])
qed

lemma match_post_only:
  assumes inv: "book_inv queue level_ok b" and po: "ao_tif taker = PostOnly" and q: "qty_ok (ao_qty taker)"
  shows "\<exists>res b'. match_aggressive api nti b taker ids F S = Some (res, b', ids, F, S) \<and>
    mr_taker_remaining res = Some (ao_qty taker) \<and> \<not> mr_taker_stp_cancelled res \<and>
    (mr_taker_post_only_rejected res \<longleftrightarrow> would_cross b (ao_side taker) (ao_price taker)) \<and>
    (mr_taker_post_only_rejected res \<longrightarrow> b' = b)"
proof (cases "would_cross b (ao_side taker) (ao_price taker)")
  case True
  then show ?thesis using po by (auto simp: match_aggressive_def)
next
  case False
  let ?opp = "opposite (ao_side taker)"
  have gate: "\<not> post_only_gate b taker" using False by (simp add: post_only_gate_def)
  have "spec_of queue b taker = ([], as_lots (ao_qty taker), None, makers queue ?opp b)"
  proof (cases "best_first ?opp (levels_of ?opp b)")
    case Nil
    then show ?thesis by (simp add: spec_of_def makers_def level_makers_def)
  next
    case (Cons pl lower)
    then obtain p l where best: "best_first ?opp (levels_of ?opp b) = (p, l) # lower" by (cases pl) simp
    note facts = best_level_facts [OF inv best]
    then obtain x xs where "queue l = x # xs" by (cases "queue l") auto
    moreover have "\<not> limit_ok taker p"
      using False facts(4) by (auto simp: would_cross_def limit_ok_def split: option.splits)
    ultimately show ?thesis by (simp add: spec_of_def makers_best [OF best] maker_of_def)
  qed
  from match_aggressive_spec [OF inv gate this, of nti ids F S] show ?thesis
    using q False by (cases "ao_qty taker") (auto simp: result_of_def stp_of_def qty_ok_def)
qed

end

section \<open>Matching\<close>

text \<open>C1: \<^verbatim>\<open>match_aggressive\<close> computes price-time priority. On any book that satisfies the
  invariant, an order that the post-only gate lets through produces exactly the fills, the residual
  and the self-trade cancellation of \<open>spec_match\<close> on the flat list of opposite makers, leaves
  exactly the remaining makers in the book with the own side untouched, and panics exactly when the
  id generator cannot supply one id per fill. In particular the walk always returns.\<close>

theorem match_refines_priority:
  assumes "price_level_total api queue level_ok" "book_inv queue level_ok b"
    and "\<not> post_only_gate b taker" "spec_of queue b taker = (fs, r, st, rest)"
  shows "case ids_run nti (length fs) ids of
      None \<Rightarrow> match_aggressive api nti b taker ids F S = None
    | Some (tids, ids') \<Rightarrow>
        \<exists>b'. match_aggressive api nti b taker ids F S =
               Some (result_of fs r st, b', ids', F @ map2 (fill_of taker) tids fs, S @ stp_of taker st) \<and>
             walk_post queue level_ok (opposite (ao_side taker)) b rest b'"
  by (rule price_level_total.match_aggressive_spec [OF assms])

theorem match_refines_priority_witness:
  "\<exists>b'. match_aggressive fifo_api demo_ids demo_book (demo_taker Bid (Some 101) 10 Gtc) 7 [] [] =
      Some (result_of [((OrderId 1, Price 101, 5), 5), ((OrderId 2, Price 101, 3), 3)] 2 None, b', 9,
        map2 (fill_of (demo_taker Bid (Some 101) 10 Gtc)) [TradeId 7, TradeId 8]
          [((OrderId 1, Price 101, 5), 5), ((OrderId 2, Price 101, 3), 3)], []) \<and>
    walk_post (\<lambda>l. l) (\<lambda>_. True) Ask demo_book [(OrderId 3, Price 102, 4)] b'"
  using match_refines_priority [OF fifo.price_level_total_axioms demo_inv(4) demo_gate demo_spec,
      of demo_ids 7 "[]" "[]"]
  by (simp add: demo_ids_def stp_of_def demo_taker_def)

text \<open>C9: every fill is legal and lots are conserved. The lots of the fills and the residual add up
  to the order's quantity; each fill is at the maker's own price, within the taker's limit, against
  a resting order of the opposite side and of another account, for a positive quantity no larger
  than what that order had, and it is marked as a full fill exactly when it takes all of it.\<close>

theorem match_fills_legal:
  assumes "price_level_total api queue level_ok" "book_inv queue level_ok b"
    and "match_aggressive api nti b taker ids [] [] = Some (res, b', ids', F, S)"
    and "\<not> mr_taker_post_only_rejected res"
  shows "sum_list (map (\<lambda>f. unat (as_lots (f_qty f))) F) +
      unat (case mr_taker_remaining res of None \<Rightarrow> 0 | Some q \<Rightarrow> as_lots q) = unat (as_lots (ao_qty taker)) \<and>
    (\<forall>f \<in> set F. legal_fill queue b taker f)"
proof -
  note gate = price_level_total.not_rejected_gate [OF assms(1,3,4)]
  show ?thesis
    using price_level_total.match_aggressive_conserves [OF assms(1,2) gate assms(3)]
      price_level_total.match_aggressive_legal [OF assms(1,2) gate assms(3)] by blast
qed

theorem match_fills_legal_witness:
  "\<exists>b'. match_aggressive fifo_api demo_ids demo_book (demo_taker Bid (Some 101) 10 Gtc) 7 [] [] =
      Some (demo_res, b', 9, demo_fills, []) \<and> length demo_fills = 2 \<and>
    sum_list (map (\<lambda>f. unat (as_lots (f_qty f))) demo_fills) +
      unat (case mr_taker_remaining demo_res of None \<Rightarrow> 0 | Some q \<Rightarrow> as_lots q) =
      unat (as_lots (ao_qty (demo_taker Bid (Some 101) 10 Gtc))) \<and>
    (\<forall>f \<in> set demo_fills. legal_fill (\<lambda>l. l) demo_book (demo_taker Bid (Some 101) 10 Gtc) f)"
proof -
  obtain b' where m: "match_aggressive fifo_api demo_ids demo_book (demo_taker Bid (Some 101) 10 Gtc) 7 [] [] =
      Some (demo_res, b', 9, demo_fills, [])" using demo_match by blast
  with match_fills_legal [OF fifo.price_level_total_axioms demo_inv(4) m demo_result(1)]
  show ?thesis using demo_result(2) by blast
qed

text \<open>C13: time priority. The makers filled, followed by the maker dropped by self-trade prevention
  if there is one, are a prefix of the queue of opposite orders in price-time order; all of them but
  possibly the last one filled are taken whole; and what stays in the book is the rest of that
  queue in the same order, headed by the last maker when it was filled in part.\<close>

theorem match_takes_a_prefix:
  assumes "price_level_total api queue level_ok" "book_inv queue level_ok b"
    and "match_aggressive api nti b taker ids [] [] = Some (res, b', ids', F, S)"
    and "\<not> mr_taker_post_only_rejected res"
  shows "\<exists>tail. map fst (makers queue (opposite (ao_side taker)) b) =
      map f_maker_order_id F @ map sc_order_id S @ tail \<and> list_all f_maker_fully_filled (butlast F) \<and>
      map fst (makers queue (opposite (ao_side taker)) b') =
        (if F \<noteq> [] \<and> \<not> f_maker_fully_filled (last F) then [f_maker_order_id (last F)] else []) @ tail"
  using price_level_total.match_aggressive_fifo [OF assms(1,2) _ assms(3)]
    price_level_total.not_rejected_gate [OF assms(1,3,4)] by blast

lemma demo_makers: "map fst (makers (\<lambda>l. l) Ask demo_book) = [OrderId 1, OrderId 2, OrderId 3]"
  by code_simp

theorem match_takes_a_prefix_witness:
  "\<exists>b'. match_aggressive fifo_api demo_ids demo_book (demo_taker Bid (Some 101) 10 Gtc) 7 [] [] =
      Some (demo_res, b', 9, demo_fills, []) \<and> map fst (makers (\<lambda>l. l) Ask b') = [OrderId 3]"
proof -
  obtain b' where m: "match_aggressive fifo_api demo_ids demo_book (demo_taker Bid (Some 101) 10 Gtc) 7 [] [] =
      Some (demo_res, b', 9, demo_fills, [])" using demo_match by blast
  with match_takes_a_prefix [OF fifo.price_level_total_axioms demo_inv(4) m demo_result(1)]
  have "map fst (makers (\<lambda>l. l) Ask b') = [OrderId 3]"
    unfolding demo_result(3) using demo_result(4) by (simp add: demo_taker_def demo_makers)
  with m show ?thesis by (intro exI [of _ b'] conjI)
qed

text \<open>C21: a \<^verbatim>\<open>PostOnly\<close> order never takes liquidity: it is either rejected with the book, the
  generator and the buffers exactly as they were, or it produces no fill and no self-trade
  cancellation and its whole quantity is left to rest.\<close>

theorem post_only_never_takes:
  assumes "price_level_total api queue level_ok" "book_inv queue level_ok b"
    and "ao_tif taker = PostOnly" "qty_ok (ao_qty taker)"
  shows "\<exists>res b'. match_aggressive api nti b taker ids F S = Some (res, b', ids, F, S) \<and>
    mr_taker_remaining res = Some (ao_qty taker) \<and> \<not> mr_taker_stp_cancelled res \<and>
    (mr_taker_post_only_rejected res \<longleftrightarrow> would_cross b (ao_side taker) (ao_price taker)) \<and>
    (mr_taker_post_only_rejected res \<longrightarrow> b' = b)"
  using price_level_total.match_post_only [OF assms] .

theorem post_only_never_takes_witness:
  "(\<exists>res b'. match_aggressive fifo_api demo_ids demo_book (demo_taker Bid (Some 101) 10 PostOnly) 7 [] [] =
      Some (res, b', 7, [], []) \<and> mr_taker_post_only_rejected res \<and> b' = demo_book) \<and>
   (\<exists>res b'. match_aggressive fifo_api demo_ids demo_book (demo_taker Bid (Some 100) 10 PostOnly) 7 [] [] =
      Some (res, b', 7, [], []) \<and> \<not> mr_taker_post_only_rejected res)"
proof -
  have c: "would_cross demo_book Bid (Some (Price 101))" "\<not> would_cross demo_book Bid (Some (Price 100))" by code_simp+
  note m = post_only_never_takes [OF fifo.price_level_total_axioms demo_inv(4), where nti = demo_ids and ids = 7 and F = "[]" and S = "[]"]
  show ?thesis
    using m [of "demo_taker Bid (Some 101) 10 PostOnly"] m [of "demo_taker Bid (Some 100) 10 PostOnly"] c
    by (auto simp: demo_taker_def qty_ok_def)
qed

end
