(* ===== verification/Book_Theorems.thy ===== *)
theory Book_Theorems
  imports Demo
begin

text \<open>
  What the operations of the book promise besides matching: insertion, cancellation, look-ups and
  cancel-replace, for every implementation of the level interface that satisfies its laws.
\<close>

section \<open>Undoing an insertion\<close>

lemma bts_remove_insert: "k \<notin> set s \<Longrightarrow> bts_remove k (bts_insert k s) = s"
  by (induction s) (auto simp: bts_remove_def filter_id_conv)

lemma acc_drop_add:
  assumes "oid \<notin> set (account_orders acc a)" "acc a \<noteq> Some []"
  shows "acc_drop (acc_add acc a oid) a oid = acc"
  using bts_remove_insert [OF assms(1)] assms(2)
  by (cases "acc a") (auto simp: acc_drop_def acc_add_def account_orders_def fun_upd_idem)

context price_level_total
begin

lemma add_resting_decides:
  assumes inv: "book_inv queue level_ok b"
    and "order_id_ok (ro_order_id ord)" "qty_ok (ro_qty ord)"
  shows "case add_resting api b ord of
      (Inr _, b') \<Rightarrow> index b (ro_order_id ord) = None \<and> unat (book_seq b) < 2 ^ 64 - 1 \<and>
        book_inv queue level_ok b' \<and> index b' = (index b)(ro_order_id ord \<mapsto> meta_of ord) \<and>
        queue_at queue b' = at_level (ro_side ord) (ro_price ord)
          (queue_at queue b (ro_side ord) (ro_price ord) @ [pl_order_of ord (book_seq b + 1)]) (queue_at queue b)
    | (Inl err, b') \<Rightarrow> b' = b \<and>
        err = (if index b (ro_order_id ord) \<noteq> None then BE_DuplicateOrderId else BE_SeqOverflow) \<and>
        (err = BE_SeqOverflow \<longrightarrow> unat (book_seq b) = 2 ^ 64 - 1)"
proof -
  obtain r b' where add: "add_resting api b ord = (r, b')" by fastforce
  have over: "checked_add (book_seq b) 1 = None \<longleftrightarrow> unat (book_seq b) = 2 ^ 64 - 1"
    by (rule checked_add_1_eq_None_iff)
  have lt: "unat (book_seq b) < 2 ^ 64" using unsigned_less [of "book_seq b"] by simp
  show ?thesis
  proof (cases r)
    case (Inl err)
    show ?thesis
    proof (cases "index b (ro_order_id ord)")
      case (Some m)
      then show ?thesis using add Inl by (simp add: add_resting_def)
    next
      case None
      have "unat (book_seq b) = 2 ^ 64 - 1"
        using add_resting_total [OF inv None] add Inl lt by fastforce
      then show ?thesis using add Inl None over by (simp add: add_resting_def)
    qed
  next
    case (Inr u)
    then have add': "add_resting api b ord = (Inr (), b')" using add by simp
    have "checked_add (book_seq b) 1 \<noteq> None"
      using add' by (auto simp: add_resting_def Let_def split: if_splits option.splits)
    then have "unat (book_seq b) < 2 ^ 64 - 1" using over lt by simp
    then show ?thesis using add_resting_ok [OF assms add'] add' by simp
  qed
qed

lemma add_cancel:
  assumes inv: "book_inv queue level_ok b"
    and ord: "order_id_ok (ro_order_id ord)" "qty_ok (ro_qty ord)"
    and add: "add_resting api b ord = (Inr (), b')"
  shows "\<exists>b''. cancel api b' (ro_order_id ord) = (Inr (ro_side ord, ro_price ord), b'') \<and>
    book_inv queue level_ok b'' \<and> index b'' = index b \<and> by_account b'' = by_account b \<and>
    queue_at queue b'' = queue_at queue b"
proof -
  let ?oid = "ro_order_id ord" and ?m = "meta_of ord"
  note a = add_resting_ok [OF inv ord add]
  have wf: "book_wf queue level_ok b" "book_wf queue level_ok b'" using inv a(1) by (auto simp: book_inv_def)
  have m: "index b' ?oid = Some ?m" by (simp add: a(3))
  let ?b = "prune_level api (om_side ?m) (om_price ?m) (removed api ?oid ?m b')"
  have acc: "by_account b' = acc_add (by_account b) (ro_account_id ord) ?oid"
    using add by (auto simp: add_resting_cases [OF inv] added_def acc_add_def
        split: if_splits option.splits sum.splits pl_error.splits)
  have fresh: "?oid \<notin> set (account_orders (by_account b) (ro_account_id ord))" "by_account b (ro_account_id ord) \<noteq> Some []"
    using wf(1) a(2) by (auto simp: book_wf_def view_wf_def accounts_wf_def)
  have "by_account ?b = by_account b"
    using by_account_removed [OF m] acc acc_drop_add [OF fresh] by simp
  moreover have "index ?b = index b" using a(2,3) by (auto simp: fun_upd_idem)
  moreover have "queue_at queue ?b = queue_at queue b"
  proof (intro ext)
    fix s p
    have "\<forall>x \<in> set (queue_at queue b s p). pl_id x \<noteq> Sequential (order_id_raw ?oid)"
      using book_wf_queue [OF wf(1), of s p] a(2) by (auto simp: queue_wf_def entry_wf_def)
    then show "queue_at queue ?b s p = queue_at queue b s p"
      using filter_everywhere [OF wf(2) m] by (simp add: a(4) filter_id_conv)
  qed
  ultimately show ?thesis
    using cancel_known [OF wf(2) m] removed_book_inv [OF a(1) m] by simp
qed

lemma qty_at_level_exact:
  assumes "book_wf queue level_ok b"
    and "\<forall>l. btm_get (levels_of s b) p = Some l \<longrightarrow> pl_total_quantity api l \<noteq> None"
  shows "unat (qty_at_level api b s p) = sum_list (map (\<lambda>x. unat (pl_quantity x)) (queue_at queue b s p))"
  using assms wf_level_ok [OF assms(1), of s p] total
  by (cases "btm_get (levels_of s b) p") (auto simp: qty_at_level_def queue_at_def)

end

section \<open>Insertion and cancellation\<close>



text \<open>Cancelling what was just added restores the book: both indices and every queue are as they
  were before the insertion, and the cancel reports the order's side and price.\<close>

lemma add_then_cancel_restores:
  assumes "price_level_total api queue level_ok" "book_inv queue level_ok b"
    and "order_id_ok (ro_order_id ord)" "qty_ok (ro_qty ord)" "add_resting api b ord = (Inr (), b')"
  shows "\<exists>b''. cancel api b' (ro_order_id ord) = (Inr (ro_side ord, ro_price ord), b'') \<and>
    book_inv queue level_ok b'' \<and> index b'' = index b \<and> by_account b'' = by_account b \<and>
    queue_at queue b'' = queue_at queue b"
  by (rule price_level_total.add_cancel [OF assms])

text \<open>The quantity look-ups agree with the queues. \<^verbatim>\<open>resting_qty\<close> answers the remaining quantity of
  an order exactly when it rests, and \<^verbatim>\<open>qty_at_level\<close> the sum of the quantities queued at a price,
  whenever the level can compute its total.\<close>

lemma lookups_agree_with_queues:
  assumes "price_level_total api queue level_ok" "book_inv queue level_ok b"
    and "\<forall>l. btm_get (levels_of s b) p = Some l \<longrightarrow> pl_total_quantity api l \<noteq> None"
  shows "resting_qty api b oid = map_option Qty (resting_lots queue b oid) \<and>
    unat (qty_at_level api b s p) = sum_list (map (\<lambda>x. unat (pl_quantity x)) (queue_at queue b s p))"
proof -
  have wf: "book_wf queue level_ok b" using assms(2) by (simp add: book_inv_def)
  show ?thesis
    using price_level.resting_qty_eq [OF price_level_total.axioms(1) [OF assms(1)] wf]
      price_level_total.qty_at_level_exact [OF assms(1) wf assms(3)] by simp
qed

section \<open>Cancel-replace\<close>




text \<open>C12: no replace breaks the book. Whatever the outcome (unknown order, kept in place, refused as
  post-only, matched and re-rested, self-trade cancelled or failed), the book keeps its
  representation invariant, and an uncrossed book stays uncrossed.\<close>

theorem replace_keeps_book_sound:
  assumes "price_level_total api queue level_ok" "book_inv queue level_ok b" "qty_ok new_qty"
    and "replace api nti b oid new_price new_qty ids F S = Some (res, b', ids', F', S')"
  shows "book_inv queue level_ok b' \<and> (uncrossed b \<longrightarrow> uncrossed b')"
  by (rule price_level_total.replace_inv [OF assms])

theorem replace_keeps_book_sound_witness:
  "\<exists>res b' ids' F S. replace fifo_api demo_ids demo_book (OrderId 4) (Price 101) (Qty 6) 7 [] [] = Some (res, b', ids', F, S) \<and>
     uncrossed b' \<and> length F = 1"
proof -
  define r where "r = replace fifo_api demo_ids demo_book (OrderId 4) (Price 101) (Qty 6) 7 [] []"
  have l: "map_option (\<lambda>(_, _, _, F, _). length F) r = Some 1" unfolding r_def by code_simp
  then obtain res b' ids' F S where r: "r = Some (res, b', ids', F, S)" "length F = 1" by auto
  have "uncrossed demo_book" by code_simp
  then have "uncrossed b'"
    using replace_keeps_book_sound [OF fifo.price_level_total_axioms demo_inv(4) _ r(1) [unfolded r_def]]
    by (simp add: qty_ok_def)
  with r show ?thesis unfolding r_def by blast
qed

section \<open>Resting a residual\<close>

text \<open>C14: the residual never crosses. When a limit order has been matched and its residual is put to
  rest at its limit price, the book keeps its invariant and best bid stays below best ask.\<close>

theorem residual_rests_uncrossed:
  assumes "price_level_total api queue level_ok" "book_inv queue level_ok b" "uncrossed b"
    and "match_aggressive api nti b taker ids F S = Some (res, b', ids', F', S')"
    and "\<not> post_only_gate b taker" "\<not> mr_taker_stp_cancelled res" "mr_taker_remaining res = Some (ro_qty ord)"
    and "ro_side ord = ao_side taker" "ao_price taker = Some (ro_price ord)" "order_id_ok (ro_order_id ord)"
    and "add_resting api b' ord = (Inr (), b'')"
  shows "book_inv queue level_ok b'' \<and> uncrossed b''"
  using price_level_total.match_then_rest [OF assms(1,2,5,4,6,7,8,9) refl assms(10,11)] assms(3) by blast

theorem residual_rests_uncrossed_witness:
  "\<exists>b' b''. match_aggressive fifo_api demo_ids demo_book (demo_taker Bid (Some 101) 10 Gtc) 7 [] [] =
      Some (demo_res, b', 9, demo_fills, []) \<and>
    add_resting fifo_api b' (demo_order 50 10 Bid 101 2 Gtc) = (Inr (), b'') \<and> uncrossed b''"
proof -
  obtain b' where m: "match_aggressive fifo_api demo_ids demo_book (demo_taker Bid (Some 101) 10 Gtc) 7 [] [] =
      Some (demo_res, b', 9, demo_fills, [])" using demo_match by blast
  note b' = fifo.match_aggressive_inv [OF demo_inv(4) m]
  have "index demo_book (OrderId 50) = None" "unat (book_seq demo_book) = 4" "uncrossed demo_book" by code_simp+
  moreover from this(1) have "index b' (OrderId 50) = None"
    using b'(2) by (metis domIff map_le_implies_dom_le subsetD)
  ultimately obtain b'' where a: "add_resting fifo_api b' (demo_order 50 10 Bid 101 2 Gtc) = (Inr (), b'')"
    using fifo.add_resting_total [OF b'(1), of "demo_order 50 10 Bid 101 2 Gtc"] b'(3) by (auto simp: demo_order_def)
  have "uncrossed b''"
    using residual_rests_uncrossed [OF fifo.price_level_total_axioms demo_inv(4) \<open>uncrossed demo_book\<close> m demo_gate _ _ _ _ _ a]
    by (simp add: demo_res_def result_of_def demo_order_def demo_taker_def order_id_ok_def)
  with m a show ?thesis by blast
qed


end
