(* ===== verification/Wire.thy ===== *)
theory Wire
  imports Domain
begin

text \<open>
  The \<^verbatim>\<open>wire\<close> crate, part 1: \<^verbatim>\<open>error.rs\<close> and \<^verbatim>\<open>framing.rs\<close>, the layout of a
  \<^verbatim>\<open>#[repr(C, packed)]\<close> structure as the bytes of its fields, and the two interfaces the
  message modules share. \<^verbatim>\<open>usize\<close> is \<open>nat\<close>: every length here is that of a slice in memory. An
  \<^verbatim>\<open>encode(msg, out)\<close> returns the buffer with the bytes appended.
\<close>

section \<open>Errors (\<^verbatim>\<open>error.rs\<close>, \<^verbatim>\<open>domain/src/error.rs\<close>)\<close>

datatype domain_error =
  DE_Price price_error | DE_Qty qty_error | DE_OrderId order_id_error
| DE_AccountId account_id_error | DE_EngineSeq engine_seq_error | DE_TradeId trade_id_error
| DE_Side side_error | DE_OrderType order_type_error | DE_Tif tif_error
| DE_RejectReason reject_reason_error | DE_CancelReason cancel_reason_error
| DE_ExecState exec_state_error

datatype wire_error =
  Truncated
| UnknownKind u8
| NonZeroPad nat
| PayloadSize nat nat
| InvalidEnumValue string u8
| PayloadTooLarge nat
| InconsistentPayload string
| WE_Domain domain_error

text \<open>\<^verbatim>\<open>.map_err(to_wire)\<close>; the argument is the \<^verbatim>\<open>Into<DomainError>\<close> of the error at hand.\<close>

definition to_wire :: "('e \<Rightarrow> domain_error) \<Rightarrow> 'e + 'a \<Rightarrow> wire_error + 'a" where
  "to_wire into r = map_err (\<lambda>e. WE_Domain (into e)) r"

lemma to_wire_simps [simp]:
  "to_wire into (Inr x) = Inr x" "to_wire into (Inl e) = Inl (WE_Domain (into e))"
  by (simp_all add: to_wire_def)

lemma to_wire_Inr_iff [simp]: "to_wire into r = Inr x \<longleftrightarrow> r = Inr x"
  by (simp add: to_wire_def)

section \<open>Packed layouts\<close>

text \<open>The bytes of the field of width \<open>LENGTH('a)\<close> at a byte offset, and a byte-array field.\<close>

definition le_at :: "nat \<Rightarrow> u8 list \<Rightarrow> 'a::len word" where
  "le_at off bs = from_le_bytes (take (LENGTH('a) div 8) (drop off bs))"

definition bytes_at :: "nat \<Rightarrow> nat \<Rightarrow> u8 list \<Rightarrow> u8 list" where
  "bytes_at off n bs = take n (drop off bs)"

text \<open>\<^verbatim>\<open>for (i, byte) in pad.iter().enumerate()\<close>: the first non-zero byte is reported.\<close>

fun check_pad :: "nat \<Rightarrow> u8 list \<Rightarrow> wire_error + unit" where
  "check_pad off [] = Inr ()"
| "check_pad off (byte # bs) = (if byte \<noteq> 0 then Inl (NonZeroPad off) else check_pad (Suc off) bs)"

section \<open>Framing (\<^verbatim>\<open>framing.rs\<close>)\<close>

definition FRAME_LEN_BYTES :: nat where "FRAME_LEN_BYTES = 4"
definition FRAME_KIND_BYTES :: nat where "FRAME_KIND_BYTES = 1"
definition FRAME_HEADER_BYTES :: nat where "FRAME_HEADER_BYTES = FRAME_LEN_BYTES + FRAME_KIND_BYTES"

datatype message_kind =
  MK_NewOrder | MK_CancelOrder | MK_CancelReplace | MK_MassCancel | MK_KillSwitchSet
| MK_SnapshotRequest | MK_ExecReport | MK_TradePrint | MK_BookUpdateTop | MK_BookUpdateL2Delta
| MK_SnapshotResponse

primrec kind_as_u8 :: "message_kind \<Rightarrow> u8" where
  "kind_as_u8 MK_NewOrder = 0x01"
| "kind_as_u8 MK_CancelOrder = 0x02"
| "kind_as_u8 MK_CancelReplace = 0x03"
| "kind_as_u8 MK_MassCancel = 0x04"
| "kind_as_u8 MK_KillSwitchSet = 0x05"
| "kind_as_u8 MK_SnapshotRequest = 0x06"
| "kind_as_u8 MK_ExecReport = 0x65"
| "kind_as_u8 MK_TradePrint = 0x66"
| "kind_as_u8 MK_BookUpdateTop = 0x67"
| "kind_as_u8 MK_BookUpdateL2Delta = 0x68"
| "kind_as_u8 MK_SnapshotResponse = 0x69"

definition kind_try_from :: "u8 \<Rightarrow> wire_error + message_kind" where
  "kind_try_from v =
     (if v = 0x01 then Inr MK_NewOrder else if v = 0x02 then Inr MK_CancelOrder
      else if v = 0x03 then Inr MK_CancelReplace else if v = 0x04 then Inr MK_MassCancel
      else if v = 0x05 then Inr MK_KillSwitchSet else if v = 0x06 then Inr MK_SnapshotRequest
      else if v = 0x65 then Inr MK_ExecReport else if v = 0x66 then Inr MK_TradePrint
      else if v = 0x67 then Inr MK_BookUpdateTop else if v = 0x68 then Inr MK_BookUpdateL2Delta
      else if v = 0x69 then Inr MK_SnapshotResponse else Inl (UnknownKind v))"

record frame =
  fr_kind :: message_kind
  fr_payload :: "u8 list"

datatype parse_outcome = PO_Frame frame | PO_UnknownKind u8

text \<open>\<^verbatim>\<open>buf.get(..n)\<close>\<close>

definition get_prefix :: "u8 list \<Rightarrow> nat \<Rightarrow> u8 list option" where
  "get_prefix buf n = (if n \<le> length buf then Some (take n buf) else None)"

definition parse_or_skip :: "u8 list \<Rightarrow> wire_error + parse_outcome \<times> nat" where
  "parse_or_skip buf =
     rbind (ok_or (get_prefix buf FRAME_LEN_BYTES) Truncated) (\<lambda>len_arr.
     let len = unat (from_le_bytes len_arr :: u32) in
     if len < FRAME_KIND_BYTES then Inl Truncated
     else let total = FRAME_LEN_BYTES + len in
     rbind (ok_or (get_prefix buf total) Truncated) (\<lambda>frame_bytes.
     if FRAME_LEN_BYTES < length frame_bytes then
       let kind_byte = frame_bytes ! FRAME_LEN_BYTES in
       (case kind_try_from kind_byte of
          Inr kind \<Rightarrow>
            if FRAME_HEADER_BYTES \<le> length frame_bytes
            then Inr (PO_Frame \<lparr>fr_kind = kind, fr_payload = drop FRAME_HEADER_BYTES frame_bytes\<rparr>, total)
            else Inl Truncated
        | Inl _ \<Rightarrow> Inr (PO_UnknownKind kind_byte, total))
     else Inl Truncated))"

definition frame_parse :: "u8 list \<Rightarrow> wire_error + frame \<times> nat" where
  "frame_parse buf =
     rbind (parse_or_skip buf) (\<lambda>(outcome, total).
       case outcome of
         PO_Frame f \<Rightarrow> Inr (f, total)
       | PO_UnknownKind byte \<Rightarrow> Inl (UnknownKind byte))"

definition u32_max :: nat where "u32_max = 2 ^ 32 - 1"

definition frame_write :: "message_kind \<Rightarrow> u8 list \<Rightarrow> u8 list \<Rightarrow> wire_error + u8 list" where
  "frame_write kind payload out =
     (let framed = FRAME_KIND_BYTES + length payload in
      if u32_max < framed then Inl (PayloadTooLarge framed)
      else Inr (out @ to_le_bytes (word_of_nat framed :: u32) @ [kind_as_u8 kind] @ payload))"

section \<open>Interfaces\<close>

text \<open>A packed structure: \<^verbatim>\<open>ref_from_bytes\<close> succeeds exactly on slices of its size and is the
  inverse of \<^verbatim>\<open>as_bytes\<close>. \<open>wf\<close> fixes the length of the byte-array fields, which the type does
  in the source.\<close>

locale packed =
  fixes size :: nat
    and from_bytes :: "u8 list \<Rightarrow> 'w option"
    and as_bytes :: "'w \<Rightarrow> u8 list"
    and wf :: "'w \<Rightarrow> bool"
  assumes from_as_bytes: "wf w \<Longrightarrow> from_bytes (as_bytes w) = Some w"
    and as_from_bytes: "from_bytes bs = Some w \<Longrightarrow> wf w \<and> as_bytes w = bs"
    and from_bytes_size: "from_bytes bs = None \<longleftrightarrow> length bs \<noteq> size"
begin

lemma as_bytes_size: "wf w \<Longrightarrow> length (as_bytes w) = size"
  using from_bytes_size [of "as_bytes w"] from_as_bytes [of w] by auto

lemma as_bytes_inject: "wf v \<Longrightarrow> wf w \<Longrightarrow> as_bytes v = as_bytes w \<longleftrightarrow> v = w"
  by (metis from_as_bytes option.inject)

end

text \<open>A message module: \<^verbatim>\<open>encode\<close> appends a payload from which \<^verbatim>\<open>parse\<close> gets the message back,
  for every message built of valid domain values, and \<^verbatim>\<open>parse\<close> yields such messages only.\<close>

locale codec =
  fixes parse :: "u8 list \<Rightarrow> wire_error + 'm"
    and encode :: "'m \<Rightarrow> u8 list \<Rightarrow> u8 list"
    and valid :: "'m \<Rightarrow> bool"
  assumes parse_encode: "valid m \<Longrightarrow> parse (encode m []) = Inr m"
    and parse_valid: "parse bs = Inr m \<Longrightarrow> valid m"
    and encode_append: "encode m out = out @ encode m []"
begin

lemma encode_inject: "valid m \<Longrightarrow> valid n \<Longrightarrow> encode m out = encode n out \<longleftrightarrow> m = n"
  by (metis encode_append parse_encode same_append_eq sum.inject(2))

lemma reencode: "parse bs = Inr m \<Longrightarrow> parse (encode m []) = Inr m"
  using parse_valid parse_encode by blast

end

text \<open>A module whose payloads are canonical: no two payloads decode to the same message.\<close>

locale canonical_codec = codec +
  assumes encode_parse: "parse bs = Inr m \<Longrightarrow> encode m [] = bs"
begin

lemma parse_iff: "parse bs = Inr m \<longleftrightarrow> valid m \<and> bs = encode m []"
  using parse_valid encode_parse parse_encode by blast

end

section \<open>Facts\<close>

lemma le_at_append [simp]:
  "le_at 0 (to_le_bytes (w :: u8) @ bs) = w" "le_at 0 (to_le_bytes (x :: u32) @ bs) = x"
  "le_at 0 (to_le_bytes (y :: u64) @ bs) = y"
  by (simp_all add: le_at_def)

lemma le_at_skip:
  "length as \<le> off \<Longrightarrow> le_at off (as @ bs) = le_at (off - length as) bs"
  by (simp add: le_at_def)

lemma le_at_last [simp]:
  "le_at 0 (to_le_bytes (w :: u8)) = w" "le_at 0 (to_le_bytes (x :: u32)) = x"
  "le_at 0 (to_le_bytes (y :: u64)) = y"
  by (simp_all add: le_at_def)

lemma to_le_at:
  "off + 1 \<le> length bs \<Longrightarrow> to_le_bytes (le_at off bs :: u8) = take 1 (drop off bs)"
  "off + 4 \<le> length bs \<Longrightarrow> to_le_bytes (le_at off bs :: u32) = take 4 (drop off bs)"
  "off + 8 \<le> length bs \<Longrightarrow> to_le_bytes (le_at off bs :: u64) = take 8 (drop off bs)"
  by (simp_all add: le_at_def to_from_le_bytes)

lemma take_drop_join: "j = n + k \<Longrightarrow> take n (drop k xs) @ drop j xs = drop k xs"
  by (metis append_take_drop_id drop_drop)

lemma take_drop_all: "length xs \<le> n + k \<Longrightarrow> take n (drop k xs) = drop k xs"
  by simp

lemma bytes_at_skip:
  "length as \<le> off \<Longrightarrow> bytes_at off n (as @ bs) = bytes_at (off - length as) n bs"
  by (simp add: bytes_at_def)

lemma check_pad_Inr: "check_pad off bs = Inr u \<longleftrightarrow> bs = replicate (length bs) 0"
  by (induction off bs rule: check_pad.induct) auto

lemma check_pad_replicate [simp]: "check_pad off (replicate n 0) = Inr ()"
  by (induction n arbitrary: off) auto

interpretation kind_enum: wire_enum_nonzero kind_as_u8 kind_try_from
proof
  show "kind_try_from (kind_as_u8 x) = Inr x" for x by (cases x) (simp_all add: kind_try_from_def)
  show "kind_try_from v = Inr x \<Longrightarrow> kind_as_u8 x = v" for v x
    by (auto simp: kind_try_from_def split: if_splits)
  show "kind_as_u8 x \<noteq> 0" for x by (cases x) simp_all
qed

lemmas frame_consts = FRAME_LEN_BYTES_def FRAME_KIND_BYTES_def FRAME_HEADER_BYTES_def

text \<open>What one call of \<^verbatim>\<open>parse_or_skip\<close> sees of a well-formed frame, whatever follows it.\<close>

lemma parse_or_skip_framed:
  assumes "1 + length payload \<le> u32_max"
  shows "parse_or_skip (to_le_bytes (word_of_nat (1 + length payload) :: u32) @ [k] @ payload @ tail) =
    Inr (case kind_try_from k of
           Inr kind \<Rightarrow> PO_Frame \<lparr>fr_kind = kind, fr_payload = payload\<rparr>
         | Inl _ \<Rightarrow> PO_UnknownKind k, 5 + length payload)"
proof -
  have "unat (word_of_nat (1 + length payload) :: u32) = 1 + length payload"
    using assms by (simp add: u32_max_def unat_of_nat del: of_nat_add of_nat_Suc)
  then show ?thesis
    by (simp add: parse_or_skip_def frame_consts get_prefix_def nth_append Let_def
        split: sum.split)
qed

lemma frame_write_parse:
  assumes "frame_write kind payload out = Inr out'"
  shows "\<exists>bs. out' = out @ bs \<and> length bs = 5 + length payload \<and>
    frame_parse (bs @ tail) = Inr (\<lparr>fr_kind = kind, fr_payload = payload\<rparr>, length bs)"
proof -
  have len: "1 + length payload \<le> u32_max"
    using assms by (auto simp: frame_write_def frame_consts Let_def split: if_splits)
  let ?bs = "to_le_bytes (word_of_nat (1 + length payload) :: u32) @ [kind_as_u8 kind] @ payload"
  have "out' = out @ ?bs"
    using assms by (auto simp: frame_write_def frame_consts Let_def split: if_splits)
  moreover have "frame_parse (?bs @ tail) =
      Inr (\<lparr>fr_kind = kind, fr_payload = payload\<rparr>, 5 + length payload)"
    using parse_or_skip_framed [OF len, of "kind_as_u8 kind" tail]
    by (simp add: frame_parse_def kind_enum.try_from_as_u8)
  ultimately show ?thesis by (intro exI [of _ ?bs]) simp
qed

lemma frame_write_code [code]:
  "frame_write kind payload out =
     (let framed = FRAME_KIND_BYTES + length payload in
      if 4294967295 < int framed then Inl (PayloadTooLarge framed)
      else Inr (out @ to_le_bytes (word_of_nat framed :: u32) @ [kind_as_u8 kind] @ payload))"
  by (simp add: frame_write_def u32_max_def Let_def)

text \<open>Whatever \<^verbatim>\<open>parse_or_skip\<close> accepts is a frame: the consumed bytes are the prefix, the kind
  byte and the payload.\<close>

lemma parse_or_skip_Inr:
  assumes "parse_or_skip buf = Inr (outcome, n)"
  shows "n \<le> length buf" "5 \<le> n"
    and "case outcome of
           PO_Frame f \<Rightarrow> take n buf =
             to_le_bytes (word_of_nat (1 + length (fr_payload f)) :: u32) @ [kind_as_u8 (fr_kind f)] @ fr_payload f
         | PO_UnknownKind k \<Rightarrow> k \<notin> range kind_as_u8 \<and> buf ! 4 = k"
proof -
  define len where "len = unat (from_le_bytes (take 4 buf) :: u32)"
  have pre: "4 \<le> length buf" "1 \<le> len" "n = 4 + len" "4 + len \<le> length buf"
    using assms
    by (auto simp: parse_or_skip_def frame_consts get_prefix_def Let_def len_def split: if_splits sum.splits)
  then show "n \<le> length buf" "5 \<le> n" by auto
  let ?k = "take n buf ! 4"
  have k: "?k = buf ! 4" using pre by simp
  have lenw: "(word_of_nat len :: u32) = from_le_bytes (take 4 buf)" by (simp add: len_def)
  have prefix: "to_le_bytes (word_of_nat len :: u32) = take 4 buf"
    unfolding lenw using pre(1) by (simp add: to_from_le_bytes)
  have split: "take n buf = take 4 buf @ [?k] @ drop 5 (take n buf)"
  proof -
    have "take n buf = take 4 (take n buf) @ drop 4 (take n buf)" by (rule append_take_drop_id [symmetric])
    also have "drop 4 (take n buf) = ?k # drop 5 (take n buf)"
      using pre by (subst Cons_nth_drop_Suc [symmetric]) auto
    finally show ?thesis using pre by (simp add: min_def)
  qed
  have out: "outcome = (case kind_try_from ?k of
      Inr kind \<Rightarrow> PO_Frame \<lparr>fr_kind = kind, fr_payload = drop 5 (take n buf)\<rparr>
    | Inl _ \<Rightarrow> PO_UnknownKind ?k)"
    using assms pre
    by (auto simp: parse_or_skip_def frame_consts get_prefix_def Let_def len_def [symmetric]
        split: if_splits sum.splits)
  show "case outcome of
           PO_Frame f \<Rightarrow> take n buf =
             to_le_bytes (word_of_nat (1 + length (fr_payload f)) :: u32) @ [kind_as_u8 (fr_kind f)] @ fr_payload f
         | PO_UnknownKind k \<Rightarrow> k \<notin> range kind_as_u8 \<and> buf ! 4 = k"
  proof (cases "kind_try_from ?k")
    case (Inl e)
    then show ?thesis using out k kind_enum.rejects_iff [of ?k] by auto
  next
    case (Inr kind)
    have "1 + length (drop 5 (take n buf)) = len" using pre by simp
    then show ?thesis
      using out Inr split prefix kind_enum.as_u8_try_from [OF Inr] by simp
  qed
qed

end
