(* ===== verification/Wire_Inbound.thy ===== *)
theory Wire_Inbound
  imports Wire
begin

text \<open>
  The \<^verbatim>\<open>wire\<close> crate, part 2: the inbound messages (\<^verbatim>\<open>wire/src/inbound\<close>). Each has its packed
  structure, the domain-typed message, \<^verbatim>\<open>parse\<close> and \<^verbatim>\<open>encode\<close>; every structure interprets
  \<open>packed\<close> and every message module \<open>codec\<close>, canonical where no field is ignored on decode.
\<close>

section \<open>\<^verbatim>\<open>NewOrder\<close>\<close>

record new_order_wire =
  now_client_ts :: u64
  now_order_id :: u64
  now_account_id :: u32
  now_side :: u8
  now_order_type :: u8
  now_tif :: u8
  now_pad0 :: u8
  now_price :: i64
  now_qty :: u64

record new_order =
  no_client_ts :: client_ts
  no_order_id :: order_id
  no_account_id :: account_id
  no_side :: side
  no_order_type :: order_type
  no_tif :: tif
  no_price :: "price option"
  no_qty :: qty

definition NEW_ORDER_SIZE :: nat where "NEW_ORDER_SIZE = 40"

definition new_order_from_bytes :: "u8 list \<Rightarrow> new_order_wire option" where
  "new_order_from_bytes bs =
     (if length bs = NEW_ORDER_SIZE then
        Some \<lparr>now_client_ts = le_at 0 bs, now_order_id = le_at 8 bs, now_account_id = le_at 16 bs,
              now_side = le_at 20 bs, now_order_type = le_at 21 bs, now_tif = le_at 22 bs,
              now_pad0 = le_at 23 bs, now_price = le_at 24 bs, now_qty = le_at 32 bs\<rparr>
      else None)"

definition new_order_as_bytes :: "new_order_wire \<Rightarrow> u8 list" where
  "new_order_as_bytes w =
     to_le_bytes (now_client_ts w) @ to_le_bytes (now_order_id w) @ to_le_bytes (now_account_id w) @
     to_le_bytes (now_side w) @ to_le_bytes (now_order_type w) @ to_le_bytes (now_tif w) @
     to_le_bytes (now_pad0 w) @ to_le_bytes (now_price w) @ to_le_bytes (now_qty w)"

definition new_order_parse :: "u8 list \<Rightarrow> wire_error + new_order" where
  "new_order_parse payload =
     rbind (ok_or (new_order_from_bytes payload) (PayloadSize NEW_ORDER_SIZE (length payload))) (\<lambda>w.
     if now_pad0 w \<noteq> 0 then Inl (NonZeroPad 23) else
     rbind (to_wire DE_OrderId (OrderId_new (now_order_id w))) (\<lambda>order_id.
     rbind (to_wire DE_AccountId (AccountId_new (now_account_id w))) (\<lambda>account_id.
     rbind (to_wire DE_Side (side_try_from (now_side w))) (\<lambda>side.
     rbind (to_wire DE_OrderType (order_type_try_from (now_order_type w))) (\<lambda>order_type.
     rbind (to_wire DE_Tif (tif_try_from (now_tif w))) (\<lambda>tif.
     rbind (to_wire DE_Qty (Qty_new (now_qty w))) (\<lambda>qty.
     rbind (case order_type of
              Market \<Rightarrow> Inr None
            | Limit \<Rightarrow> rmap Some (to_wire DE_Price (Price_new (now_price w)))) (\<lambda>price.
     Inr \<lparr>no_client_ts = ClientTs (now_client_ts w), no_order_id = order_id,
          no_account_id = account_id, no_side = side, no_order_type = order_type, no_tif = tif,
          no_price = price, no_qty = qty\<rparr>))))))))"

definition new_order_encode :: "new_order \<Rightarrow> u8 list \<Rightarrow> u8 list" where
  "new_order_encode msg out =
     out @ new_order_as_bytes
       \<lparr>now_client_ts = client_nanos (no_client_ts msg), now_order_id = order_id_raw (no_order_id msg),
        now_account_id = account_id_raw (no_account_id msg), now_side = side_as_u8 (no_side msg),
        now_order_type = order_type_as_u8 (no_order_type msg), now_tif = tif_as_u8 (no_tif msg),
        now_pad0 = 0, now_price = unwrap_or (map_option as_ticks (no_price msg)) 0,
        now_qty = as_lots (no_qty msg)\<rparr>"

section \<open>\<^verbatim>\<open>CancelOrder\<close>\<close>

record cancel_order_wire =
  cow_client_ts :: u64
  cow_order_id :: u64
  cow_account_id :: u32
  cow_pad0 :: u32

record cancel_order =
  co_client_ts :: client_ts
  co_order_id :: order_id
  co_account_id :: account_id

definition cancel_order_from_bytes :: "u8 list \<Rightarrow> cancel_order_wire option" where
  "cancel_order_from_bytes bs =
     (if length bs = 24 then
        Some \<lparr>cow_client_ts = le_at 0 bs, cow_order_id = le_at 8 bs, cow_account_id = le_at 16 bs,
              cow_pad0 = le_at 20 bs\<rparr>
      else None)"

definition cancel_order_as_bytes :: "cancel_order_wire \<Rightarrow> u8 list" where
  "cancel_order_as_bytes w =
     to_le_bytes (cow_client_ts w) @ to_le_bytes (cow_order_id w) @ to_le_bytes (cow_account_id w) @
     to_le_bytes (cow_pad0 w)"

definition cancel_order_parse :: "u8 list \<Rightarrow> wire_error + cancel_order" where
  "cancel_order_parse payload =
     rbind (ok_or (cancel_order_from_bytes payload) (PayloadSize 24 (length payload))) (\<lambda>w.
     if cow_pad0 w \<noteq> 0 then Inl (NonZeroPad 20) else
     rbind (to_wire DE_OrderId (OrderId_new (cow_order_id w))) (\<lambda>order_id.
     rbind (to_wire DE_AccountId (AccountId_new (cow_account_id w))) (\<lambda>account_id.
     Inr \<lparr>co_client_ts = ClientTs (cow_client_ts w), co_order_id = order_id,
          co_account_id = account_id\<rparr>)))"

definition cancel_order_encode :: "cancel_order \<Rightarrow> u8 list \<Rightarrow> u8 list" where
  "cancel_order_encode msg out =
     out @ cancel_order_as_bytes
       \<lparr>cow_client_ts = client_nanos (co_client_ts msg), cow_order_id = order_id_raw (co_order_id msg),
        cow_account_id = account_id_raw (co_account_id msg), cow_pad0 = 0\<rparr>"

section \<open>\<^verbatim>\<open>CancelReplace\<close>\<close>

record cancel_replace_wire =
  crw_client_ts :: u64
  crw_order_id :: u64
  crw_account_id :: u32
  crw_pad0 :: u32
  crw_new_price :: i64
  crw_new_qty :: u64

record cancel_replace =
  cr_client_ts :: client_ts
  cr_order_id :: order_id
  cr_account_id :: account_id
  cr_new_price :: price
  cr_new_qty :: qty

definition cancel_replace_from_bytes :: "u8 list \<Rightarrow> cancel_replace_wire option" where
  "cancel_replace_from_bytes bs =
     (if length bs = 40 then
        Some \<lparr>crw_client_ts = le_at 0 bs, crw_order_id = le_at 8 bs, crw_account_id = le_at 16 bs,
              crw_pad0 = le_at 20 bs, crw_new_price = le_at 24 bs, crw_new_qty = le_at 32 bs\<rparr>
      else None)"

definition cancel_replace_as_bytes :: "cancel_replace_wire \<Rightarrow> u8 list" where
  "cancel_replace_as_bytes w =
     to_le_bytes (crw_client_ts w) @ to_le_bytes (crw_order_id w) @ to_le_bytes (crw_account_id w) @
     to_le_bytes (crw_pad0 w) @ to_le_bytes (crw_new_price w) @ to_le_bytes (crw_new_qty w)"

definition cancel_replace_parse :: "u8 list \<Rightarrow> wire_error + cancel_replace" where
  "cancel_replace_parse payload =
     rbind (ok_or (cancel_replace_from_bytes payload) (PayloadSize 40 (length payload))) (\<lambda>w.
     if crw_pad0 w \<noteq> 0 then Inl (NonZeroPad 20) else
     rbind (to_wire DE_OrderId (OrderId_new (crw_order_id w))) (\<lambda>order_id.
     rbind (to_wire DE_AccountId (AccountId_new (crw_account_id w))) (\<lambda>account_id.
     rbind (to_wire DE_Price (Price_new (crw_new_price w))) (\<lambda>new_price.
     rbind (to_wire DE_Qty (Qty_new (crw_new_qty w))) (\<lambda>new_qty.
     Inr \<lparr>cr_client_ts = ClientTs (crw_client_ts w), cr_order_id = order_id,
          cr_account_id = account_id, cr_new_price = new_price, cr_new_qty = new_qty\<rparr>)))))"

definition cancel_replace_encode :: "cancel_replace \<Rightarrow> u8 list \<Rightarrow> u8 list" where
  "cancel_replace_encode msg out =
     out @ cancel_replace_as_bytes
       \<lparr>crw_client_ts = client_nanos (cr_client_ts msg), crw_order_id = order_id_raw (cr_order_id msg),
        crw_account_id = account_id_raw (cr_account_id msg), crw_pad0 = 0,
        crw_new_price = as_ticks (cr_new_price msg), crw_new_qty = as_lots (cr_new_qty msg)\<rparr>"

section \<open>\<^verbatim>\<open>MassCancel\<close>\<close>

record mass_cancel_wire =
  mxw_client_ts :: u64
  mxw_account_id :: u32
  mxw_pad0 :: u32

record mass_cancel_msg =
  mx_client_ts :: client_ts
  mx_account_id :: account_id

definition mass_cancel_from_bytes :: "u8 list \<Rightarrow> mass_cancel_wire option" where
  "mass_cancel_from_bytes bs =
     (if length bs = 16 then
        Some \<lparr>mxw_client_ts = le_at 0 bs, mxw_account_id = le_at 8 bs, mxw_pad0 = le_at 12 bs\<rparr>
      else None)"

definition mass_cancel_as_bytes :: "mass_cancel_wire \<Rightarrow> u8 list" where
  "mass_cancel_as_bytes w =
     to_le_bytes (mxw_client_ts w) @ to_le_bytes (mxw_account_id w) @ to_le_bytes (mxw_pad0 w)"

definition mass_cancel_parse :: "u8 list \<Rightarrow> wire_error + mass_cancel_msg" where
  "mass_cancel_parse payload =
     rbind (ok_or (mass_cancel_from_bytes payload) (PayloadSize 16 (length payload))) (\<lambda>w.
     if mxw_pad0 w \<noteq> 0 then Inl (NonZeroPad 12) else
     rbind (to_wire DE_AccountId (AccountId_new (mxw_account_id w))) (\<lambda>account_id.
     Inr \<lparr>mx_client_ts = ClientTs (mxw_client_ts w), mx_account_id = account_id\<rparr>))"

definition mass_cancel_encode :: "mass_cancel_msg \<Rightarrow> u8 list \<Rightarrow> u8 list" where
  "mass_cancel_encode msg out =
     out @ mass_cancel_as_bytes
       \<lparr>mxw_client_ts = client_nanos (mx_client_ts msg),
        mxw_account_id = account_id_raw (mx_account_id msg), mxw_pad0 = 0\<rparr>"

section \<open>\<^verbatim>\<open>KillSwitchSet\<close>\<close>

record kill_switch_wire =
  ksw_client_ts :: u64
  ksw_admin_token :: u64
  ksw_state :: u8
  ksw_pad0 :: "u8 list"

datatype kill_switch_state = Resume | Halt

primrec kill_switch_as_u8 :: "kill_switch_state \<Rightarrow> u8" where
  "kill_switch_as_u8 Resume = 0"
| "kill_switch_as_u8 Halt = 1"

definition kill_switch_try_from :: "u8 \<Rightarrow> wire_error + kill_switch_state" where
  "kill_switch_try_from v =
     (if v = 0 then Inr Resume else if v = 1 then Inr Halt
      else Inl (InvalidEnumValue ''state'' v))"

record kill_switch_set =
  ks_client_ts :: client_ts
  ks_admin_token :: u64
  ks_state :: kill_switch_state

definition kill_switch_from_bytes :: "u8 list \<Rightarrow> kill_switch_wire option" where
  "kill_switch_from_bytes bs =
     (if length bs = 24 then
        Some \<lparr>ksw_client_ts = le_at 0 bs, ksw_admin_token = le_at 8 bs, ksw_state = le_at 16 bs,
              ksw_pad0 = bytes_at 17 7 bs\<rparr>
      else None)"

definition kill_switch_as_bytes :: "kill_switch_wire \<Rightarrow> u8 list" where
  "kill_switch_as_bytes w =
     to_le_bytes (ksw_client_ts w) @ to_le_bytes (ksw_admin_token w) @ to_le_bytes (ksw_state w) @
     ksw_pad0 w"

definition kill_switch_parse :: "u8 list \<Rightarrow> wire_error + kill_switch_set" where
  "kill_switch_parse payload =
     rbind (ok_or (kill_switch_from_bytes payload) (PayloadSize 24 (length payload))) (\<lambda>w.
     rbind (check_pad 17 (ksw_pad0 w)) (\<lambda>_.
     rbind (kill_switch_try_from (ksw_state w)) (\<lambda>state.
     Inr \<lparr>ks_client_ts = ClientTs (ksw_client_ts w), ks_admin_token = ksw_admin_token w,
          ks_state = state\<rparr>)))"

definition kill_switch_encode :: "kill_switch_set \<Rightarrow> u8 list \<Rightarrow> u8 list" where
  "kill_switch_encode msg out =
     out @ kill_switch_as_bytes
       \<lparr>ksw_client_ts = client_nanos (ks_client_ts msg), ksw_admin_token = ks_admin_token msg,
        ksw_state = kill_switch_as_u8 (ks_state msg), ksw_pad0 = replicate 7 0\<rparr>"

section \<open>\<^verbatim>\<open>SnapshotRequest\<close>\<close>

record snapshot_request_wire =
  srw_request_id :: u64
  srw_pad0 :: "u8 list"

record snapshot_request =
  sr_request_id :: u64

definition snapshot_request_from_bytes :: "u8 list \<Rightarrow> snapshot_request_wire option" where
  "snapshot_request_from_bytes bs =
     (if length bs = 16 then Some \<lparr>srw_request_id = le_at 0 bs, srw_pad0 = bytes_at 8 8 bs\<rparr> else None)"

definition snapshot_request_as_bytes :: "snapshot_request_wire \<Rightarrow> u8 list" where
  "snapshot_request_as_bytes w = to_le_bytes (srw_request_id w) @ srw_pad0 w"

definition snapshot_request_parse :: "u8 list \<Rightarrow> wire_error + snapshot_request" where
  "snapshot_request_parse payload =
     rbind (ok_or (snapshot_request_from_bytes payload) (PayloadSize 16 (length payload))) (\<lambda>w.
     rbind (check_pad 8 (srw_pad0 w)) (\<lambda>_. Inr \<lparr>sr_request_id = srw_request_id w\<rparr>))"

definition snapshot_request_encode :: "snapshot_request \<Rightarrow> u8 list \<Rightarrow> u8 list" where
  "snapshot_request_encode msg out =
     out @ snapshot_request_as_bytes
       \<lparr>srw_request_id = sr_request_id msg, srw_pad0 = replicate 8 0\<rparr>"

section \<open>Dispatch (\<^verbatim>\<open>inbound/mod.rs\<close>)\<close>

datatype inbound =
  In_NewOrder new_order
| In_CancelOrder cancel_order
| In_CancelReplace cancel_replace
| In_MassCancel mass_cancel_msg
| In_KillSwitchSet kill_switch_set
| In_SnapshotRequest snapshot_request

definition inbound_parse_frame :: "frame \<Rightarrow> wire_error + inbound" where
  "inbound_parse_frame f =
     (case fr_kind f of
        MK_NewOrder \<Rightarrow> rmap In_NewOrder (new_order_parse (fr_payload f))
      | MK_CancelOrder \<Rightarrow> rmap In_CancelOrder (cancel_order_parse (fr_payload f))
      | MK_CancelReplace \<Rightarrow> rmap In_CancelReplace (cancel_replace_parse (fr_payload f))
      | MK_MassCancel \<Rightarrow> rmap In_MassCancel (mass_cancel_parse (fr_payload f))
      | MK_KillSwitchSet \<Rightarrow> rmap In_KillSwitchSet (kill_switch_parse (fr_payload f))
      | MK_SnapshotRequest \<Rightarrow> rmap In_SnapshotRequest (snapshot_request_parse (fr_payload f))
      | k \<Rightarrow> Inl (UnknownKind (kind_as_u8 k)))"

text \<open>The kind and payload a client sends for a message: the pair the message modules and
  \<^verbatim>\<open>MessageKind\<close> assign to each variant.\<close>

fun inbound_kind :: "inbound \<Rightarrow> message_kind" where
  "inbound_kind (In_NewOrder _) = MK_NewOrder"
| "inbound_kind (In_CancelOrder _) = MK_CancelOrder"
| "inbound_kind (In_CancelReplace _) = MK_CancelReplace"
| "inbound_kind (In_MassCancel _) = MK_MassCancel"
| "inbound_kind (In_KillSwitchSet _) = MK_KillSwitchSet"
| "inbound_kind (In_SnapshotRequest _) = MK_SnapshotRequest"

fun inbound_payload :: "inbound \<Rightarrow> u8 list" where
  "inbound_payload (In_NewOrder m) = new_order_encode m []"
| "inbound_payload (In_CancelOrder m) = cancel_order_encode m []"
| "inbound_payload (In_CancelReplace m) = cancel_replace_encode m []"
| "inbound_payload (In_MassCancel m) = mass_cancel_encode m []"
| "inbound_payload (In_KillSwitchSet m) = kill_switch_encode m []"
| "inbound_payload (In_SnapshotRequest m) = snapshot_request_encode m []"

section \<open>Valid messages\<close>

definition new_order_ok :: "new_order \<Rightarrow> bool" where
  "new_order_ok m \<longleftrightarrow> order_id_ok (no_order_id m) \<and> account_id_ok (no_account_id m) \<and> qty_ok (no_qty m) \<and>
     (case no_order_type m of
        Market \<Rightarrow> no_price m = None
      | Limit \<Rightarrow> (case no_price m of None \<Rightarrow> False | Some p \<Rightarrow> price_ok p))"

definition cancel_order_ok :: "cancel_order \<Rightarrow> bool" where
  "cancel_order_ok m \<longleftrightarrow> order_id_ok (co_order_id m) \<and> account_id_ok (co_account_id m)"

definition cancel_replace_ok :: "cancel_replace \<Rightarrow> bool" where
  "cancel_replace_ok m \<longleftrightarrow> order_id_ok (cr_order_id m) \<and> account_id_ok (cr_account_id m) \<and>
     price_ok (cr_new_price m) \<and> qty_ok (cr_new_qty m)"

definition mass_cancel_ok :: "mass_cancel_msg \<Rightarrow> bool" where
  "mass_cancel_ok m \<longleftrightarrow> account_id_ok (mx_account_id m)"

fun inbound_ok :: "inbound \<Rightarrow> bool" where
  "inbound_ok (In_NewOrder m) \<longleftrightarrow> new_order_ok m"
| "inbound_ok (In_CancelOrder m) \<longleftrightarrow> cancel_order_ok m"
| "inbound_ok (In_CancelReplace m) \<longleftrightarrow> cancel_replace_ok m"
| "inbound_ok (In_MassCancel m) \<longleftrightarrow> mass_cancel_ok m"
| "inbound_ok (In_KillSwitchSet m) \<longleftrightarrow> True"
| "inbound_ok (In_SnapshotRequest m) \<longleftrightarrow> True"

section \<open>The layouts\<close>

lemmas le_field_simps = le_at_skip bytes_at_skip to_le_at bytes_at_def take_drop_join take_drop_all

interpretation new_order_layout: packed 40 new_order_from_bytes new_order_as_bytes "\<lambda>_. True"
proof
  show "new_order_from_bytes (new_order_as_bytes w) = Some w" if "(\<lambda>_. True) w" for w
    using that by (simp add: new_order_from_bytes_def new_order_as_bytes_def le_field_simps NEW_ORDER_SIZE_def)
  show "(\<lambda>_. True) w \<and> new_order_as_bytes w = bs" if "new_order_from_bytes bs = Some w" for bs w
    using that by (auto simp: new_order_from_bytes_def new_order_as_bytes_def le_field_simps NEW_ORDER_SIZE_def split: if_splits)
  show "new_order_from_bytes bs = None \<longleftrightarrow> length bs \<noteq> 40" for bs
    by (simp add: new_order_from_bytes_def NEW_ORDER_SIZE_def)
qed

interpretation cancel_order_layout: packed 24 cancel_order_from_bytes cancel_order_as_bytes "\<lambda>_. True"
proof
  show "cancel_order_from_bytes (cancel_order_as_bytes w) = Some w" if "(\<lambda>_. True) w" for w
    using that by (simp add: cancel_order_from_bytes_def cancel_order_as_bytes_def le_field_simps)
  show "(\<lambda>_. True) w \<and> cancel_order_as_bytes w = bs" if "cancel_order_from_bytes bs = Some w" for bs w
    using that by (auto simp: cancel_order_from_bytes_def cancel_order_as_bytes_def le_field_simps split: if_splits)
  show "cancel_order_from_bytes bs = None \<longleftrightarrow> length bs \<noteq> 24" for bs
    by (simp add: cancel_order_from_bytes_def)
qed

interpretation cancel_replace_layout: packed 40 cancel_replace_from_bytes cancel_replace_as_bytes "\<lambda>_. True"
proof
  show "cancel_replace_from_bytes (cancel_replace_as_bytes w) = Some w" if "(\<lambda>_. True) w" for w
    using that by (simp add: cancel_replace_from_bytes_def cancel_replace_as_bytes_def le_field_simps)
  show "(\<lambda>_. True) w \<and> cancel_replace_as_bytes w = bs" if "cancel_replace_from_bytes bs = Some w" for bs w
    using that by (auto simp: cancel_replace_from_bytes_def cancel_replace_as_bytes_def le_field_simps split: if_splits)
  show "cancel_replace_from_bytes bs = None \<longleftrightarrow> length bs \<noteq> 40" for bs
    by (simp add: cancel_replace_from_bytes_def)
qed

interpretation mass_cancel_layout: packed 16 mass_cancel_from_bytes mass_cancel_as_bytes "\<lambda>_. True"
proof
  show "mass_cancel_from_bytes (mass_cancel_as_bytes w) = Some w" if "(\<lambda>_. True) w" for w
    using that by (simp add: mass_cancel_from_bytes_def mass_cancel_as_bytes_def le_field_simps)
  show "(\<lambda>_. True) w \<and> mass_cancel_as_bytes w = bs" if "mass_cancel_from_bytes bs = Some w" for bs w
    using that by (auto simp: mass_cancel_from_bytes_def mass_cancel_as_bytes_def le_field_simps split: if_splits)
  show "mass_cancel_from_bytes bs = None \<longleftrightarrow> length bs \<noteq> 16" for bs
    by (simp add: mass_cancel_from_bytes_def)
qed

interpretation kill_switch_layout: packed 24 kill_switch_from_bytes kill_switch_as_bytes "\<lambda>w. length (ksw_pad0 w) = 7"
proof
  show "kill_switch_from_bytes (kill_switch_as_bytes w) = Some w" if "(\<lambda>w. length (ksw_pad0 w) = 7) w" for w
    using that by (simp add: kill_switch_from_bytes_def kill_switch_as_bytes_def le_field_simps)
  show "(\<lambda>w. length (ksw_pad0 w) = 7) w \<and> kill_switch_as_bytes w = bs" if "kill_switch_from_bytes bs = Some w" for bs w
    using that by (auto simp: kill_switch_from_bytes_def kill_switch_as_bytes_def le_field_simps split: if_splits)
  show "kill_switch_from_bytes bs = None \<longleftrightarrow> length bs \<noteq> 24" for bs
    by (simp add: kill_switch_from_bytes_def)
qed

interpretation snapshot_request_layout: packed 16 snapshot_request_from_bytes snapshot_request_as_bytes "\<lambda>w. length (srw_pad0 w) = 8"
proof
  show "snapshot_request_from_bytes (snapshot_request_as_bytes w) = Some w" if "(\<lambda>w. length (srw_pad0 w) = 8) w" for w
    using that by (simp add: snapshot_request_from_bytes_def snapshot_request_as_bytes_def le_field_simps)
  show "(\<lambda>w. length (srw_pad0 w) = 8) w \<and> snapshot_request_as_bytes w = bs" if "snapshot_request_from_bytes bs = Some w" for bs w
    using that by (auto simp: snapshot_request_from_bytes_def snapshot_request_as_bytes_def le_field_simps split: if_splits)
  show "snapshot_request_from_bytes bs = None \<longleftrightarrow> length bs \<noteq> 16" for bs
    by (simp add: snapshot_request_from_bytes_def)
qed

interpretation kill_switch_enum: wire_enum kill_switch_as_u8 kill_switch_try_from
proof
  show "kill_switch_try_from (kill_switch_as_u8 x) = Inr x" for x
    by (cases x) (simp_all add: kill_switch_try_from_def)
  show "kill_switch_try_from v = Inr x \<Longrightarrow> kill_switch_as_u8 x = v" for v x
    by (auto simp: kill_switch_try_from_def split: if_splits)
qed

lemmas enum_facts =
  side_enum.try_from_as_u8 order_type_enum.try_from_as_u8 tif_enum.try_from_as_u8
  exec_state_enum.try_from_as_u8 cancel_reason_enum.try_from_as_u8
  reject_reason_enum.try_from_as_u8 kill_switch_enum.try_from_as_u8

lemmas enum_iffs =
  side_enum.try_from_Inr_iff order_type_enum.try_from_Inr_iff tif_enum.try_from_Inr_iff
  exec_state_enum.try_from_Inr_iff cancel_reason_enum.try_from_Inr_iff
  reject_reason_enum.try_from_Inr_iff kill_switch_enum.try_from_Inr_iff

lemmas ok_defs = price_ok_def qty_ok_def order_id_ok_def account_id_ok_def

section \<open>The message modules\<close>

lemma not_Limit: "x \<noteq> Limit \<longleftrightarrow> x = Market"
  by (cases x) simp_all

lemma new_order_codec: "codec new_order_parse new_order_encode new_order_ok"
proof
  show "new_order_parse (new_order_encode m []) = Inr m" if "new_order_ok m" for m
    using that
    by (cases m) (auto simp: new_order_parse_def new_order_encode_def new_order_layout.from_as_bytes
        new_order_ok_def enum_facts split: order_type.splits option.splits)
  show "new_order_ok m" if "new_order_parse bs = Inr m" for bs m
    using that
    by (auto simp: new_order_parse_def new_order_ok_def rbind_Inr_iff rmap_Inr_iff newtype_iffs ok_defs not_Limit
        split: if_splits order_type.splits)
qed (simp add: new_order_encode_def)

interpretation new_order: codec new_order_parse new_order_encode new_order_ok
  by (rule new_order_codec)

interpretation cancel_order: canonical_codec cancel_order_parse cancel_order_encode "cancel_order_ok"
proof
  show "cancel_order_parse (cancel_order_encode m []) = Inr m" if "cancel_order_ok m" for m
    using that by (cases m) (simp add: cancel_order_parse_def cancel_order_encode_def
        cancel_order_layout.from_as_bytes cancel_order_ok_def enum_facts)
  show "cancel_order_ok m" "cancel_order_encode m [] = bs" if m: "cancel_order_parse bs = Inr m" for bs m
  proof -
    obtain w where w: "cancel_order_from_bytes bs = Some w"
        "m = \<lparr>co_client_ts = ClientTs (cow_client_ts w), co_order_id = OrderId (cow_order_id w), co_account_id = AccountId (cow_account_id w)\<rparr>"
        "cow_pad0 w = 0" "cow_order_id w \<noteq> 0" "cow_account_id w \<noteq> 0"
      using m by (cases "cancel_order_from_bytes bs")
        (auto simp: cancel_order_parse_def rbind_Inr_iff newtype_iffs enum_iffs check_pad_Inr split: if_splits)
    then show "cancel_order_ok m" by (simp add: cancel_order_ok_def ok_defs)
    show "cancel_order_encode m [] = bs"
      using cancel_order_layout.as_from_bytes [OF w(1)] w by (cases w) (auto simp: cancel_order_encode_def enum_iffs)
  qed
qed (simp add: cancel_order_encode_def)

interpretation cancel_replace: canonical_codec cancel_replace_parse cancel_replace_encode "cancel_replace_ok"
proof
  show "cancel_replace_parse (cancel_replace_encode m []) = Inr m" if "cancel_replace_ok m" for m
    using that by (cases m) (simp add: cancel_replace_parse_def cancel_replace_encode_def
        cancel_replace_layout.from_as_bytes cancel_replace_ok_def enum_facts)
  show "cancel_replace_ok m" "cancel_replace_encode m [] = bs" if m: "cancel_replace_parse bs = Inr m" for bs m
  proof -
    obtain w where w: "cancel_replace_from_bytes bs = Some w"
        "m = \<lparr>cr_client_ts = ClientTs (crw_client_ts w), cr_order_id = OrderId (crw_order_id w), cr_account_id = AccountId (crw_account_id w), cr_new_price = Price (crw_new_price w), cr_new_qty = Qty (crw_new_qty w)\<rparr>"
        "crw_pad0 w = 0" "crw_order_id w \<noteq> 0" "crw_account_id w \<noteq> 0" "0 < sint (crw_new_price w)" "crw_new_qty w \<noteq> 0"
      using m by (cases "cancel_replace_from_bytes bs")
        (auto simp: cancel_replace_parse_def rbind_Inr_iff newtype_iffs enum_iffs check_pad_Inr split: if_splits)
    then show "cancel_replace_ok m" by (simp add: cancel_replace_ok_def ok_defs)
    show "cancel_replace_encode m [] = bs"
      using cancel_replace_layout.as_from_bytes [OF w(1)] w by (cases w) (auto simp: cancel_replace_encode_def enum_iffs)
  qed
qed (simp add: cancel_replace_encode_def)

interpretation mass_cancel: canonical_codec mass_cancel_parse mass_cancel_encode "mass_cancel_ok"
proof
  show "mass_cancel_parse (mass_cancel_encode m []) = Inr m" if "mass_cancel_ok m" for m
    using that by (cases m) (simp add: mass_cancel_parse_def mass_cancel_encode_def
        mass_cancel_layout.from_as_bytes mass_cancel_ok_def enum_facts)
  show "mass_cancel_ok m" "mass_cancel_encode m [] = bs" if m: "mass_cancel_parse bs = Inr m" for bs m
  proof -
    obtain w where w: "mass_cancel_from_bytes bs = Some w"
        "m = \<lparr>mx_client_ts = ClientTs (mxw_client_ts w), mx_account_id = AccountId (mxw_account_id w)\<rparr>"
        "mxw_pad0 w = 0" "mxw_account_id w \<noteq> 0"
      using m by (cases "mass_cancel_from_bytes bs")
        (auto simp: mass_cancel_parse_def rbind_Inr_iff newtype_iffs enum_iffs check_pad_Inr split: if_splits)
    then show "mass_cancel_ok m" by (simp add: mass_cancel_ok_def ok_defs)
    show "mass_cancel_encode m [] = bs"
      using mass_cancel_layout.as_from_bytes [OF w(1)] w by (cases w) (auto simp: mass_cancel_encode_def enum_iffs)
  qed
qed (simp add: mass_cancel_encode_def)

interpretation kill_switch: canonical_codec kill_switch_parse kill_switch_encode "\<lambda>_. True"
proof
  show "kill_switch_parse (kill_switch_encode m []) = Inr m" for m
    by (cases m) (simp add: kill_switch_parse_def kill_switch_encode_def
        kill_switch_layout.from_as_bytes enum_facts)
  show "kill_switch_encode m [] = bs" if m: "kill_switch_parse bs = Inr m" for bs m
  proof -
    obtain w where w: "kill_switch_from_bytes bs = Some w"
        "ks_client_ts m = ClientTs (ksw_client_ts w)" "ks_admin_token m = ksw_admin_token w"
        "ksw_state w = kill_switch_as_u8 (ks_state m)" "ksw_pad0 w = replicate (length (ksw_pad0 w)) 0"
      using m by (cases "kill_switch_from_bytes bs")
        (auto simp: kill_switch_parse_def rbind_Inr_iff enum_iffs check_pad_Inr)
    note bytes = kill_switch_layout.as_from_bytes [OF w(1)]
    have "w = \<lparr>ksw_client_ts = client_nanos (ks_client_ts m), ksw_admin_token = ks_admin_token m,
        ksw_state = kill_switch_as_u8 (ks_state m), ksw_pad0 = replicate 7 0\<rparr>"
      using w bytes by (cases w) simp
    then show ?thesis using bytes by (simp add: kill_switch_encode_def)
  qed
qed (simp_all add: kill_switch_encode_def)

interpretation snapshot_request: canonical_codec snapshot_request_parse snapshot_request_encode "\<lambda>_. True"
proof
  show "snapshot_request_parse (snapshot_request_encode m []) = Inr m" for m
    by (cases m) (simp add: snapshot_request_parse_def snapshot_request_encode_def
        snapshot_request_layout.from_as_bytes)
  show "snapshot_request_encode m [] = bs" if m: "snapshot_request_parse bs = Inr m" for bs m
  proof -
    obtain w where w: "snapshot_request_from_bytes bs = Some w" "sr_request_id m = srw_request_id w"
        "srw_pad0 w = replicate (length (srw_pad0 w)) 0"
      using m by (cases "snapshot_request_from_bytes bs")
        (auto simp: snapshot_request_parse_def rbind_Inr_iff check_pad_Inr)
    note bytes = snapshot_request_layout.as_from_bytes [OF w(1)]
    have "w = \<lparr>srw_request_id = sr_request_id m, srw_pad0 = replicate 8 0\<rparr>"
      using w bytes by (cases w) simp
    then show ?thesis using bytes by (simp add: snapshot_request_encode_def)
  qed
qed (simp_all add: snapshot_request_encode_def)

section \<open>Frames\<close>

lemma inbound_parse_frame_encode:
  "inbound_ok m \<Longrightarrow>
   inbound_parse_frame \<lparr>fr_kind = inbound_kind m, fr_payload = inbound_payload m\<rparr> = Inr m"
  by (cases m) (simp_all add: inbound_parse_frame_def new_order.parse_encode cancel_order.parse_encode
      cancel_replace.parse_encode mass_cancel.parse_encode kill_switch.parse_encode
      snapshot_request.parse_encode)

lemma inbound_parse_frame_ok:
  "inbound_parse_frame f = Inr m \<Longrightarrow> inbound_ok m \<and> fr_kind f = inbound_kind m"
  by (auto simp: inbound_parse_frame_def rmap_Inr_iff new_order.parse_valid cancel_order.parse_valid
      cancel_replace.parse_valid mass_cancel.parse_valid split: message_kind.splits)

end
