(* ===== verification/Wire_Outbound.thy ===== *)
theory Wire_Outbound
  imports Wire_Inbound
begin

text \<open>
  The \<^verbatim>\<open>wire\<close> crate, part 3: the outbound messages (\<^verbatim>\<open>wire/src/outbound\<close>). The fixed-size ones
  interpret \<open>packed\<close> and \<open>canonical_codec\<close>; \<^verbatim>\<open>SnapshotResponse\<close> has a variable number of levels
  and panics when a count does not fit its \<^verbatim>\<open>u32\<close>, which \<open>None\<close> stands for.
\<close>

section \<open>\<^verbatim>\<open>ExecReport\<close>\<close>

record exec_report_wire =
  erw_engine_seq :: u64
  erw_order_id :: u64
  erw_account_id :: u32
  erw_state :: u8
  erw_reject_reason :: u8
  erw_cancel_reason :: u8
  erw_pad0 :: u8
  erw_fill_price :: i64
  erw_fill_qty :: u64
  erw_leaves_qty :: u64
  erw_recv_ts :: u64
  erw_emit_ts :: u64

record exec_report =
  er_engine_seq :: engine_seq
  er_order_id :: order_id
  er_account_id :: account_id
  er_state :: exec_state
  er_fill_price :: "price option"
  er_fill_qty :: "qty option"
  er_leaves_qty :: "qty option"
  er_reject_reason :: "reject_reason option"
  er_cancel_reason :: "cancel_reason option"
  er_recv_ts :: recv_ts
  er_emit_ts :: recv_ts

definition exec_report_from_bytes :: "u8 list \<Rightarrow> exec_report_wire option" where
  "exec_report_from_bytes bs =
     (if length bs = 64 then
        Some \<lparr>erw_engine_seq = le_at 0 bs, erw_order_id = le_at 8 bs, erw_account_id = le_at 16 bs,
              erw_state = le_at 20 bs, erw_reject_reason = le_at 21 bs, erw_cancel_reason = le_at 22 bs,
              erw_pad0 = le_at 23 bs, erw_fill_price = le_at 24 bs, erw_fill_qty = le_at 32 bs,
              erw_leaves_qty = le_at 40 bs, erw_recv_ts = le_at 48 bs, erw_emit_ts = le_at 56 bs\<rparr>
      else None)"

definition exec_report_as_bytes :: "exec_report_wire \<Rightarrow> u8 list" where
  "exec_report_as_bytes w =
     to_le_bytes (erw_engine_seq w) @ to_le_bytes (erw_order_id w) @ to_le_bytes (erw_account_id w) @
     to_le_bytes (erw_state w) @ to_le_bytes (erw_reject_reason w) @ to_le_bytes (erw_cancel_reason w) @
     to_le_bytes (erw_pad0 w) @ to_le_bytes (erw_fill_price w) @ to_le_bytes (erw_fill_qty w) @
     to_le_bytes (erw_leaves_qty w) @ to_le_bytes (erw_recv_ts w) @ to_le_bytes (erw_emit_ts w)"

definition validate_coherent :: "exec_report \<Rightarrow> wire_error + unit" where
  "validate_coherent msg =
     (let has_fill = (er_fill_price msg \<noteq> None \<or> er_fill_qty msg \<noteq> None);
          has_both_fill_fields = (er_fill_price msg \<noteq> None \<and> er_fill_qty msg \<noteq> None)
      in case er_state msg of
           Accepted \<Rightarrow>
             if has_fill \<or> er_reject_reason msg \<noteq> None \<or> er_cancel_reason msg \<noteq> None
             then Inl (InconsistentPayload ''ExecReport: Accepted requires no fill / reject / cancel fields'')
             else if er_leaves_qty msg = None
             then Inl (InconsistentPayload ''ExecReport: Accepted requires leaves_qty'')
             else Inr ()
         | Rejected \<Rightarrow>
             if has_fill \<or> er_leaves_qty msg \<noteq> None \<or> er_cancel_reason msg \<noteq> None
             then Inl (InconsistentPayload ''ExecReport: Rejected requires reject_reason only'')
             else if er_reject_reason msg = None
             then Inl (InconsistentPayload ''ExecReport: Rejected requires reject_reason'')
             else Inr ()
         | PartiallyFilled \<Rightarrow>
             if \<not> has_both_fill_fields
             then Inl (InconsistentPayload ''ExecReport: PartiallyFilled requires both fill_price and fill_qty'')
             else if er_leaves_qty msg = None
             then Inl (InconsistentPayload ''ExecReport: PartiallyFilled requires leaves_qty'')
             else if er_reject_reason msg \<noteq> None \<or> er_cancel_reason msg \<noteq> None
             then Inl (InconsistentPayload ''ExecReport: PartiallyFilled cannot carry reject / cancel reason'')
             else Inr ()
         | Filled \<Rightarrow>
             if \<not> has_both_fill_fields
             then Inl (InconsistentPayload ''ExecReport: Filled requires both fill_price and fill_qty'')
             else if er_leaves_qty msg \<noteq> None
             then Inl (InconsistentPayload ''ExecReport: Filled is terminal - leaves_qty must be None'')
             else if er_reject_reason msg \<noteq> None \<or> er_cancel_reason msg \<noteq> None
             then Inl (InconsistentPayload ''ExecReport: Filled cannot carry reject / cancel reason'')
             else Inr ()
         | _ \<Rightarrow>
             if has_fill \<or> er_leaves_qty msg \<noteq> None \<or> er_reject_reason msg \<noteq> None
             then Inl (InconsistentPayload ''ExecReport: Cancelled / Replaced require cancel_reason only'')
             else if er_cancel_reason msg = None
             then Inl (InconsistentPayload ''ExecReport: Cancelled / Replaced require cancel_reason'')
             else Inr ())"

text \<open>\<^verbatim>\<open>if raw != 0 { Some(f(raw)?) } else { None }\<close>\<close>

definition opt_field :: "('a::zero \<Rightarrow> wire_error + 'b) \<Rightarrow> 'a \<Rightarrow> wire_error + 'b option" where
  "opt_field f raw = (if raw \<noteq> 0 then rmap Some (f raw) else Inr None)"

definition exec_report_parse :: "u8 list \<Rightarrow> wire_error + exec_report" where
  "exec_report_parse payload =
     rbind (ok_or (exec_report_from_bytes payload) (PayloadSize 64 (length payload))) (\<lambda>w.
     if erw_pad0 w \<noteq> 0 then Inl (NonZeroPad 23) else
     rbind (to_wire DE_ExecState (exec_state_try_from (erw_state w))) (\<lambda>state.
     rbind (to_wire DE_OrderId (OrderId_new (erw_order_id w))) (\<lambda>order_id.
     rbind (to_wire DE_AccountId (AccountId_new (erw_account_id w))) (\<lambda>account_id.
     rbind (opt_field (\<lambda>v. to_wire DE_RejectReason (reject_reason_try_from v)) (erw_reject_reason w)) (\<lambda>reject_reason.
     rbind (opt_field (\<lambda>v. to_wire DE_CancelReason (cancel_reason_try_from v)) (erw_cancel_reason w)) (\<lambda>cancel_reason.
     rbind (opt_field (\<lambda>v. to_wire DE_Price (Price_new v)) (erw_fill_price w)) (\<lambda>fill_price.
     rbind (opt_field (\<lambda>v. to_wire DE_Qty (Qty_new v)) (erw_fill_qty w)) (\<lambda>fill_qty.
     rbind (opt_field (\<lambda>v. to_wire DE_Qty (Qty_new v)) (erw_leaves_qty w)) (\<lambda>leaves_qty.
     let msg = \<lparr>er_engine_seq = EngineSeq (erw_engine_seq w), er_order_id = order_id,
                er_account_id = account_id, er_state = state, er_fill_price = fill_price,
                er_fill_qty = fill_qty, er_leaves_qty = leaves_qty, er_reject_reason = reject_reason,
                er_cancel_reason = cancel_reason, er_recv_ts = RecvTs (erw_recv_ts w),
                er_emit_ts = RecvTs (erw_emit_ts w)\<rparr>
     in rbind (validate_coherent msg) (\<lambda>_. Inr msg))))))))))"

definition exec_report_wire_of :: "exec_report \<Rightarrow> exec_report_wire" where
  "exec_report_wire_of msg =
     (let state = er_state msg;
          reject_reason = (if state = Rejected
            then unwrap_or (map_option reject_reason_as_u8 (er_reject_reason msg)) 0 else 0);
          cancel_reason = (if state = Cancelled \<or> state = Replaced
            then unwrap_or (map_option cancel_reason_as_u8 (er_cancel_reason msg)) 0 else 0);
          (fill_price, fill_qty) =
            (if state = PartiallyFilled \<or> state = Filled
             then (case (er_fill_price msg, er_fill_qty msg) of
                     (Some p, Some q) \<Rightarrow> (as_ticks p, as_lots q) | _ \<Rightarrow> (0, 0))
             else (0, 0));
          leaves_qty = (case state of
              Accepted \<Rightarrow> unwrap_or (map_option as_lots (er_leaves_qty msg)) 0
            | PartiallyFilled \<Rightarrow> unwrap_or (map_option as_lots (er_leaves_qty msg)) 0
            | _ \<Rightarrow> 0)
      in \<lparr>erw_engine_seq = engine_seq_raw (er_engine_seq msg), erw_order_id = order_id_raw (er_order_id msg),
          erw_account_id = account_id_raw (er_account_id msg), erw_state = exec_state_as_u8 state,
          erw_reject_reason = reject_reason, erw_cancel_reason = cancel_reason, erw_pad0 = 0,
          erw_fill_price = fill_price, erw_fill_qty = fill_qty, erw_leaves_qty = leaves_qty,
          erw_recv_ts = recv_nanos (er_recv_ts msg), erw_emit_ts = recv_nanos (er_emit_ts msg)\<rparr>)"

definition exec_report_encode :: "exec_report \<Rightarrow> u8 list \<Rightarrow> u8 list" where
  "exec_report_encode msg out = out @ exec_report_as_bytes (exec_report_wire_of msg)"

section \<open>\<^verbatim>\<open>TradePrint\<close>\<close>

record trade_print_wire =
  tpw_engine_seq :: u64
  tpw_trade_id :: u64
  tpw_price :: i64
  tpw_qty :: u64
  tpw_aggressor_side :: u8
  tpw_pad0 :: "u8 list"
  tpw_emit_ts :: u64

record trade_print =
  tp_engine_seq :: engine_seq
  tp_trade_id :: trade_id
  tp_price :: price
  tp_qty :: qty
  tp_aggressor_side :: side
  tp_emit_ts :: recv_ts

definition trade_print_from_bytes :: "u8 list \<Rightarrow> trade_print_wire option" where
  "trade_print_from_bytes bs =
     (if length bs = 48 then
        Some \<lparr>tpw_engine_seq = le_at 0 bs, tpw_trade_id = le_at 8 bs, tpw_price = le_at 16 bs,
              tpw_qty = le_at 24 bs, tpw_aggressor_side = le_at 32 bs, tpw_pad0 = bytes_at 33 7 bs,
              tpw_emit_ts = le_at 40 bs\<rparr>
      else None)"

definition trade_print_as_bytes :: "trade_print_wire \<Rightarrow> u8 list" where
  "trade_print_as_bytes w =
     to_le_bytes (tpw_engine_seq w) @ to_le_bytes (tpw_trade_id w) @ to_le_bytes (tpw_price w) @
     to_le_bytes (tpw_qty w) @ to_le_bytes (tpw_aggressor_side w) @ tpw_pad0 w @
     to_le_bytes (tpw_emit_ts w)"

definition trade_print_parse :: "u8 list \<Rightarrow> wire_error + trade_print" where
  "trade_print_parse payload =
     rbind (ok_or (trade_print_from_bytes payload) (PayloadSize 48 (length payload))) (\<lambda>w.
     rbind (check_pad 33 (tpw_pad0 w)) (\<lambda>_.
     rbind (to_wire DE_Price (Price_new (tpw_price w))) (\<lambda>price.
     rbind (to_wire DE_Qty (Qty_new (tpw_qty w))) (\<lambda>qty.
     rbind (to_wire DE_Side (side_try_from (tpw_aggressor_side w))) (\<lambda>aggressor_side.
     Inr \<lparr>tp_engine_seq = EngineSeq (tpw_engine_seq w), tp_trade_id = TradeId (tpw_trade_id w),
          tp_price = price, tp_qty = qty, tp_aggressor_side = aggressor_side,
          tp_emit_ts = RecvTs (tpw_emit_ts w)\<rparr>)))))"

definition trade_print_encode :: "trade_print \<Rightarrow> u8 list \<Rightarrow> u8 list" where
  "trade_print_encode msg out =
     out @ trade_print_as_bytes
       \<lparr>tpw_engine_seq = engine_seq_raw (tp_engine_seq msg), tpw_trade_id = trade_id_raw (tp_trade_id msg),
        tpw_price = as_ticks (tp_price msg), tpw_qty = as_lots (tp_qty msg),
        tpw_aggressor_side = side_as_u8 (tp_aggressor_side msg), tpw_pad0 = replicate 7 0,
        tpw_emit_ts = recv_nanos (tp_emit_ts msg)\<rparr>"

section \<open>\<^verbatim>\<open>BookUpdateTop\<close>\<close>

record book_update_top_wire =
  btw_engine_seq :: u64
  btw_bid_price :: i64
  btw_bid_qty :: u64
  btw_ask_price :: i64
  btw_ask_qty :: u64
  btw_emit_ts :: u64

record book_update_top =
  bt_engine_seq :: engine_seq
  bt_bid :: "(price \<times> qty) option"
  bt_ask :: "(price \<times> qty) option"
  bt_emit_ts :: recv_ts

definition book_update_top_from_bytes :: "u8 list \<Rightarrow> book_update_top_wire option" where
  "book_update_top_from_bytes bs =
     (if length bs = 48 then
        Some \<lparr>btw_engine_seq = le_at 0 bs, btw_bid_price = le_at 8 bs, btw_bid_qty = le_at 16 bs,
              btw_ask_price = le_at 24 bs, btw_ask_qty = le_at 32 bs, btw_emit_ts = le_at 40 bs\<rparr>
      else None)"

definition book_update_top_as_bytes :: "book_update_top_wire \<Rightarrow> u8 list" where
  "book_update_top_as_bytes w =
     to_le_bytes (btw_engine_seq w) @ to_le_bytes (btw_bid_price w) @ to_le_bytes (btw_bid_qty w) @
     to_le_bytes (btw_ask_price w) @ to_le_bytes (btw_ask_qty w) @ to_le_bytes (btw_emit_ts w)"

definition decode_side :: "i64 \<Rightarrow> u64 \<Rightarrow> string \<Rightarrow> wire_error + (price \<times> qty) option" where
  "decode_side p q side =
     (if p = 0 \<and> q = 0 then Inr None
      else if p \<noteq> 0 \<and> q \<noteq> 0 then
        rbind (to_wire DE_Price (Price_new p)) (\<lambda>price.
        rbind (to_wire DE_Qty (Qty_new q)) (\<lambda>qty.
        Inr (Some (price, qty))))
      else Inl (InconsistentPayload side))"

fun encode_side :: "(price \<times> qty) option \<Rightarrow> i64 \<times> u64" where
  "encode_side (Some (p, q)) = (as_ticks p, as_lots q)"
| "encode_side None = (0, 0)"

definition book_update_top_parse :: "u8 list \<Rightarrow> wire_error + book_update_top" where
  "book_update_top_parse payload =
     rbind (ok_or (book_update_top_from_bytes payload) (PayloadSize 48 (length payload))) (\<lambda>w.
     rbind (decode_side (btw_bid_price w) (btw_bid_qty w) ''BookUpdateTop: half-empty bid side'') (\<lambda>bid.
     rbind (decode_side (btw_ask_price w) (btw_ask_qty w) ''BookUpdateTop: half-empty ask side'') (\<lambda>ask.
     Inr \<lparr>bt_engine_seq = EngineSeq (btw_engine_seq w), bt_bid = bid, bt_ask = ask,
          bt_emit_ts = RecvTs (btw_emit_ts w)\<rparr>)))"

definition book_update_top_encode :: "book_update_top \<Rightarrow> u8 list \<Rightarrow> u8 list" where
  "book_update_top_encode msg out =
     (case encode_side (bt_bid msg) of (bid_price, bid_qty) \<Rightarrow>
      case encode_side (bt_ask msg) of (ask_price, ask_qty) \<Rightarrow>
      out @ book_update_top_as_bytes
        \<lparr>btw_engine_seq = engine_seq_raw (bt_engine_seq msg), btw_bid_price = bid_price,
         btw_bid_qty = bid_qty, btw_ask_price = ask_price, btw_ask_qty = ask_qty,
         btw_emit_ts = recv_nanos (bt_emit_ts msg)\<rparr>)"

section \<open>\<^verbatim>\<open>BookUpdateL2Delta\<close>\<close>

record l2_delta_wire =
  bdw_engine_seq :: u64
  bdw_price :: i64
  bdw_new_qty :: u64
  bdw_side :: u8
  bdw_pad0 :: "u8 list"
  bdw_emit_ts :: u64

record l2_delta =
  bd_engine_seq :: engine_seq
  bd_price :: price
  bd_new_qty :: "qty option"
  bd_side :: side
  bd_emit_ts :: recv_ts

definition l2_delta_from_bytes :: "u8 list \<Rightarrow> l2_delta_wire option" where
  "l2_delta_from_bytes bs =
     (if length bs = 40 then
        Some \<lparr>bdw_engine_seq = le_at 0 bs, bdw_price = le_at 8 bs, bdw_new_qty = le_at 16 bs,
              bdw_side = le_at 24 bs, bdw_pad0 = bytes_at 25 7 bs, bdw_emit_ts = le_at 32 bs\<rparr>
      else None)"

definition l2_delta_as_bytes :: "l2_delta_wire \<Rightarrow> u8 list" where
  "l2_delta_as_bytes w =
     to_le_bytes (bdw_engine_seq w) @ to_le_bytes (bdw_price w) @ to_le_bytes (bdw_new_qty w) @
     to_le_bytes (bdw_side w) @ bdw_pad0 w @ to_le_bytes (bdw_emit_ts w)"

definition l2_delta_parse :: "u8 list \<Rightarrow> wire_error + l2_delta" where
  "l2_delta_parse payload =
     rbind (ok_or (l2_delta_from_bytes payload) (PayloadSize 40 (length payload))) (\<lambda>w.
     rbind (check_pad 25 (bdw_pad0 w)) (\<lambda>_.
     rbind (opt_field (\<lambda>v. to_wire DE_Qty (Qty_new v)) (bdw_new_qty w)) (\<lambda>new_qty.
     rbind (to_wire DE_Price (Price_new (bdw_price w))) (\<lambda>price.
     rbind (to_wire DE_Side (side_try_from (bdw_side w))) (\<lambda>side.
     Inr \<lparr>bd_engine_seq = EngineSeq (bdw_engine_seq w), bd_price = price, bd_new_qty = new_qty,
          bd_side = side, bd_emit_ts = RecvTs (bdw_emit_ts w)\<rparr>)))))"

definition l2_delta_encode :: "l2_delta \<Rightarrow> u8 list \<Rightarrow> u8 list" where
  "l2_delta_encode msg out =
     out @ l2_delta_as_bytes
       \<lparr>bdw_engine_seq = engine_seq_raw (bd_engine_seq msg), bdw_price = as_ticks (bd_price msg),
        bdw_new_qty = unwrap_or (map_option as_lots (bd_new_qty msg)) 0,
        bdw_side = side_as_u8 (bd_side msg), bdw_pad0 = replicate 7 0,
        bdw_emit_ts = recv_nanos (bd_emit_ts msg)\<rparr>"

section \<open>\<^verbatim>\<open>SnapshotResponse\<close>\<close>

record level =
  lv_price :: price
  lv_qty :: qty

record snapshot_response =
  sp_engine_seq :: engine_seq
  sp_request_id :: u64
  sp_recv_ts :: recv_ts
  sp_emit_ts :: recv_ts
  sp_bids :: "level list"
  sp_asks :: "level list"

definition HEADER_BYTES :: nat where "HEADER_BYTES = 40"
definition LEVEL_BYTES :: nat where "LEVEL_BYTES = 16"

definition encoded_len :: "snapshot_response \<Rightarrow> nat" where
  "encoded_len msg = HEADER_BYTES + LEVEL_BYTES * (length (sp_bids msg) + length (sp_asks msg))"

definition level_bytes :: "level \<Rightarrow> u8 list" where
  "level_bytes l = to_le_bytes (as_ticks (lv_price l)) @ to_le_bytes (as_lots (lv_qty l))"

definition snapshot_encode :: "snapshot_response \<Rightarrow> u8 list \<Rightarrow> u8 list option" where
  "snapshot_encode msg out =
     (if length (sp_bids msg) \<le> u32_max \<and> length (sp_asks msg) \<le> u32_max then
        Some (out @ to_le_bytes (engine_seq_raw (sp_engine_seq msg)) @ to_le_bytes (sp_request_id msg) @
          to_le_bytes (recv_nanos (sp_recv_ts msg)) @ to_le_bytes (recv_nanos (sp_emit_ts msg)) @
          to_le_bytes (word_of_nat (length (sp_bids msg)) :: u32) @
          to_le_bytes (word_of_nat (length (sp_asks msg)) :: u32) @
          concat (map level_bytes (sp_bids msg)) @ concat (map level_bytes (sp_asks msg)))
      else None)"

text \<open>One of the two decode loops: \<open>n\<close> levels from \<open>cursor\<close> on.\<close>

fun parse_levels :: "nat \<Rightarrow> nat \<Rightarrow> u8 list \<Rightarrow> wire_error + level list" where
  "parse_levels 0 cursor payload = Inr []"
| "parse_levels (Suc n) cursor payload =
     rbind (to_wire DE_Price (Price_new (le_at cursor payload))) (\<lambda>price.
     rbind (to_wire DE_Qty (Qty_new (le_at (cursor + 8) payload))) (\<lambda>qty.
     rbind (parse_levels n (cursor + LEVEL_BYTES) payload) (\<lambda>ls.
     Inr (\<lparr>lv_price = price, lv_qty = qty\<rparr> # ls))))"

definition snapshot_parse :: "u8 list \<Rightarrow> wire_error + snapshot_response" where
  "snapshot_parse payload =
     (if length payload < HEADER_BYTES then Inl (PayloadSize HEADER_BYTES (length payload))
      else
        let n_bid = unat (le_at 32 payload :: u32);
            n_ask = unat (le_at 36 payload :: u32);
            expected = HEADER_BYTES + LEVEL_BYTES * (n_bid + n_ask)
        in if length payload \<noteq> expected then Inl (PayloadSize expected (length payload))
           else
             rbind (parse_levels n_bid HEADER_BYTES payload) (\<lambda>bids.
             rbind (parse_levels n_ask (HEADER_BYTES + LEVEL_BYTES * n_bid) payload) (\<lambda>asks.
             Inr \<lparr>sp_engine_seq = EngineSeq (le_at 0 payload), sp_request_id = le_at 8 payload,
                  sp_recv_ts = RecvTs (le_at 16 payload), sp_emit_ts = RecvTs (le_at 24 payload),
                  sp_bids = bids, sp_asks = asks\<rparr>)))"

section \<open>Dispatch (\<^verbatim>\<open>outbound/mod.rs\<close>)\<close>

datatype outbound =
  Out_ExecReport exec_report
| Out_TradePrint trade_print
| Out_BookUpdateTop book_update_top
| Out_BookUpdateL2Delta l2_delta
| Out_SnapshotResponse snapshot_response

definition outbound_parse_frame :: "frame \<Rightarrow> wire_error + outbound" where
  "outbound_parse_frame f =
     (case fr_kind f of
        MK_ExecReport \<Rightarrow> rmap Out_ExecReport (exec_report_parse (fr_payload f))
      | MK_TradePrint \<Rightarrow> rmap Out_TradePrint (trade_print_parse (fr_payload f))
      | MK_BookUpdateTop \<Rightarrow> rmap Out_BookUpdateTop (book_update_top_parse (fr_payload f))
      | MK_BookUpdateL2Delta \<Rightarrow> rmap Out_BookUpdateL2Delta (l2_delta_parse (fr_payload f))
      | MK_SnapshotResponse \<Rightarrow> rmap Out_SnapshotResponse (snapshot_parse (fr_payload f))
      | k \<Rightarrow> Inl (UnknownKind (kind_as_u8 k)))"

section \<open>Valid messages\<close>

definition opt_ok :: "('a \<Rightarrow> bool) \<Rightarrow> 'a option \<Rightarrow> bool" where
  "opt_ok P x \<longleftrightarrow> (case x of None \<Rightarrow> True | Some v \<Rightarrow> P v)"

lemma opt_ok_simps [simp]: "opt_ok P None" "opt_ok P (Some v) \<longleftrightarrow> P v"
  by (simp_all add: opt_ok_def)

definition exec_report_ok :: "exec_report \<Rightarrow> bool" where
  "exec_report_ok m \<longleftrightarrow> order_id_ok (er_order_id m) \<and> account_id_ok (er_account_id m) \<and>
     opt_ok price_ok (er_fill_price m) \<and> opt_ok qty_ok (er_fill_qty m) \<and>
     opt_ok qty_ok (er_leaves_qty m) \<and> validate_coherent m = Inr ()"

definition trade_print_ok :: "trade_print \<Rightarrow> bool" where
  "trade_print_ok m \<longleftrightarrow> price_ok (tp_price m) \<and> qty_ok (tp_qty m)"

definition book_update_top_ok :: "book_update_top \<Rightarrow> bool" where
  "book_update_top_ok m \<longleftrightarrow>
     opt_ok (\<lambda>(p, q). price_ok p \<and> qty_ok q) (bt_bid m) \<and> opt_ok (\<lambda>(p, q). price_ok p \<and> qty_ok q) (bt_ask m)"

definition l2_delta_ok :: "l2_delta \<Rightarrow> bool" where
  "l2_delta_ok m \<longleftrightarrow> price_ok (bd_price m) \<and> opt_ok qty_ok (bd_new_qty m)"

definition snap_level_ok :: "level \<Rightarrow> bool" where
  "snap_level_ok l \<longleftrightarrow> price_ok (lv_price l) \<and> qty_ok (lv_qty l)"

definition snapshot_ok :: "snapshot_response \<Rightarrow> bool" where
  "snapshot_ok m \<longleftrightarrow> list_all snap_level_ok (sp_bids m) \<and> list_all snap_level_ok (sp_asks m)"

section \<open>The layouts\<close>

interpretation exec_report_layout: packed 64 exec_report_from_bytes exec_report_as_bytes "\<lambda>_. True"
proof
  show "exec_report_from_bytes (exec_report_as_bytes w) = Some w" if "(\<lambda>_. True) w" for w
    using that by (simp add: exec_report_from_bytes_def exec_report_as_bytes_def le_field_simps)
  show "(\<lambda>_. True) w \<and> exec_report_as_bytes w = bs" if "exec_report_from_bytes bs = Some w" for bs w
    using that by (auto simp: exec_report_from_bytes_def exec_report_as_bytes_def le_field_simps split: if_splits)
  show "exec_report_from_bytes bs = None \<longleftrightarrow> length bs \<noteq> 64" for bs
    by (simp add: exec_report_from_bytes_def)
qed

interpretation trade_print_layout: packed 48 trade_print_from_bytes trade_print_as_bytes "\<lambda>w. length (tpw_pad0 w) = 7"
proof
  show "trade_print_from_bytes (trade_print_as_bytes w) = Some w" if "(\<lambda>w. length (tpw_pad0 w) = 7) w" for w
    using that by (simp add: trade_print_from_bytes_def trade_print_as_bytes_def le_field_simps)
  show "(\<lambda>w. length (tpw_pad0 w) = 7) w \<and> trade_print_as_bytes w = bs" if "trade_print_from_bytes bs = Some w" for bs w
    using that by (auto simp: trade_print_from_bytes_def trade_print_as_bytes_def le_field_simps split: if_splits)
  show "trade_print_from_bytes bs = None \<longleftrightarrow> length bs \<noteq> 48" for bs
    by (simp add: trade_print_from_bytes_def)
qed

interpretation book_update_top_layout: packed 48 book_update_top_from_bytes book_update_top_as_bytes "\<lambda>_. True"
proof
  show "book_update_top_from_bytes (book_update_top_as_bytes w) = Some w" if "(\<lambda>_. True) w" for w
    using that by (simp add: book_update_top_from_bytes_def book_update_top_as_bytes_def le_field_simps)
  show "(\<lambda>_. True) w \<and> book_update_top_as_bytes w = bs" if "book_update_top_from_bytes bs = Some w" for bs w
    using that by (auto simp: book_update_top_from_bytes_def book_update_top_as_bytes_def le_field_simps split: if_splits)
  show "book_update_top_from_bytes bs = None \<longleftrightarrow> length bs \<noteq> 48" for bs
    by (simp add: book_update_top_from_bytes_def)
qed

interpretation l2_delta_layout: packed 40 l2_delta_from_bytes l2_delta_as_bytes "\<lambda>w. length (bdw_pad0 w) = 7"
proof
  show "l2_delta_from_bytes (l2_delta_as_bytes w) = Some w" if "(\<lambda>w. length (bdw_pad0 w) = 7) w" for w
    using that by (simp add: l2_delta_from_bytes_def l2_delta_as_bytes_def le_field_simps)
  show "(\<lambda>w. length (bdw_pad0 w) = 7) w \<and> l2_delta_as_bytes w = bs" if "l2_delta_from_bytes bs = Some w" for bs w
    using that by (auto simp: l2_delta_from_bytes_def l2_delta_as_bytes_def le_field_simps split: if_splits)
  show "l2_delta_from_bytes bs = None \<longleftrightarrow> length bs \<noteq> 40" for bs
    by (simp add: l2_delta_from_bytes_def)
qed

section \<open>The message modules\<close>

lemma opt_field_Inr:
  "opt_field f raw = Inr r \<longleftrightarrow> (raw = 0 \<and> r = None) \<or> (raw \<noteq> 0 \<and> (\<exists>v. f raw = Inr v \<and> r = Some v))"
  by (auto simp: opt_field_def rmap_Inr_iff)

lemma price_ok_nonzero: "price_ok p \<Longrightarrow> as_ticks p \<noteq> 0"
  by (auto simp: price_ok_def)

lemma opt_field_enc [simp]:
  "opt_ok price_ok p \<Longrightarrow> opt_field (\<lambda>v. to_wire DE_Price (Price_new v)) (unwrap_or (map_option as_ticks p) 0) = Inr p"
  "opt_ok qty_ok q \<Longrightarrow> opt_field (\<lambda>v. to_wire DE_Qty (Qty_new v)) (unwrap_or (map_option as_lots q) 0) = Inr q"
  "opt_field (\<lambda>v. to_wire DE_RejectReason (reject_reason_try_from v)) (unwrap_or (map_option reject_reason_as_u8 r) 0) = Inr r"
  "opt_field (\<lambda>v. to_wire DE_CancelReason (cancel_reason_try_from v)) (unwrap_or (map_option cancel_reason_as_u8 c) 0) = Inr c"
  by (cases p; cases q; cases r; cases c; auto simp: opt_field_def enum_facts price_ok_nonzero qty_ok_def
      reject_reason_enum.as_u8_nonzero cancel_reason_enum.as_u8_nonzero)+

text \<open>On a coherent report the state-dependent zeroing of \<^verbatim>\<open>encode\<close> is the plain image of the
  fields.\<close>

lemma exec_report_wire_of_coherent:
  assumes "validate_coherent m = Inr u"
  shows "exec_report_wire_of m =
    \<lparr>erw_engine_seq = engine_seq_raw (er_engine_seq m), erw_order_id = order_id_raw (er_order_id m),
     erw_account_id = account_id_raw (er_account_id m), erw_state = exec_state_as_u8 (er_state m),
     erw_reject_reason = unwrap_or (map_option reject_reason_as_u8 (er_reject_reason m)) 0,
     erw_cancel_reason = unwrap_or (map_option cancel_reason_as_u8 (er_cancel_reason m)) 0, erw_pad0 = 0,
     erw_fill_price = unwrap_or (map_option as_ticks (er_fill_price m)) 0,
     erw_fill_qty = unwrap_or (map_option as_lots (er_fill_qty m)) 0,
     erw_leaves_qty = unwrap_or (map_option as_lots (er_leaves_qty m)) 0,
     erw_recv_ts = recv_nanos (er_recv_ts m), erw_emit_ts = recv_nanos (er_emit_ts m)\<rparr>"
  using assms
  by (cases "er_state m")
    (auto simp: validate_coherent_def exec_report_wire_of_def Let_def split: if_splits)

interpretation exec_report: canonical_codec exec_report_parse exec_report_encode exec_report_ok
proof
  show "exec_report_parse (exec_report_encode m []) = Inr m" if "exec_report_ok m" for m
    using that
    by (cases m) (simp add: exec_report_parse_def exec_report_encode_def exec_report_layout.from_as_bytes
        exec_report_wire_of_coherent exec_report_ok_def enum_facts)
  show "exec_report_ok m" "exec_report_encode m [] = bs" if m: "exec_report_parse bs = Inr m" for bs m
  proof -
    obtain w where w: "exec_report_from_bytes bs = Some w" "erw_pad0 w = 0"
        "validate_coherent m = Inr ()" "order_id_ok (er_order_id m)" "account_id_ok (er_account_id m)"
        "opt_ok price_ok (er_fill_price m)" "opt_ok qty_ok (er_fill_qty m)" "opt_ok qty_ok (er_leaves_qty m)"
        "engine_seq_raw (er_engine_seq m) = erw_engine_seq w" "order_id_raw (er_order_id m) = erw_order_id w"
        "account_id_raw (er_account_id m) = erw_account_id w" "exec_state_as_u8 (er_state m) = erw_state w"
        "unwrap_or (map_option reject_reason_as_u8 (er_reject_reason m)) 0 = erw_reject_reason w"
        "unwrap_or (map_option cancel_reason_as_u8 (er_cancel_reason m)) 0 = erw_cancel_reason w"
        "unwrap_or (map_option as_ticks (er_fill_price m)) 0 = erw_fill_price w"
        "unwrap_or (map_option as_lots (er_fill_qty m)) 0 = erw_fill_qty w"
        "unwrap_or (map_option as_lots (er_leaves_qty m)) 0 = erw_leaves_qty w"
        "recv_nanos (er_recv_ts m) = erw_recv_ts w" "recv_nanos (er_emit_ts m) = erw_emit_ts w"
      using m by (cases "exec_report_from_bytes bs")
        (auto simp: exec_report_parse_def rbind_Inr_iff newtype_iffs enum_iffs opt_field_Inr ok_defs Let_def
          split: if_splits)
    then show "exec_report_ok m" by (simp add: exec_report_ok_def)
    show "exec_report_encode m [] = bs"
      using exec_report_layout.as_from_bytes [OF w(1)] exec_report_wire_of_coherent [OF w(3)] w(2,9-)
      by (cases w) (simp add: exec_report_encode_def)
  qed
qed (simp add: exec_report_encode_def)

interpretation trade_print: canonical_codec trade_print_parse trade_print_encode trade_print_ok
proof
  show "trade_print_parse (trade_print_encode m []) = Inr m" if "trade_print_ok m" for m
    using that by (cases m) (simp add: trade_print_parse_def trade_print_encode_def
        trade_print_layout.from_as_bytes trade_print_ok_def enum_facts)
  show "trade_print_ok m" "trade_print_encode m [] = bs" if m: "trade_print_parse bs = Inr m" for bs m
  proof -
    obtain w where w: "trade_print_from_bytes bs = Some w" "tpw_pad0 w = replicate (length (tpw_pad0 w)) 0"
        "m = \<lparr>tp_engine_seq = EngineSeq (tpw_engine_seq w), tp_trade_id = TradeId (tpw_trade_id w),
          tp_price = Price (tpw_price w), tp_qty = Qty (tpw_qty w), tp_aggressor_side = tp_aggressor_side m,
          tp_emit_ts = RecvTs (tpw_emit_ts w)\<rparr>" "tpw_aggressor_side w = side_as_u8 (tp_aggressor_side m)"
        "0 < sint (tpw_price w)" "tpw_qty w \<noteq> 0"
      using m by (cases "trade_print_from_bytes bs")
        (auto simp: trade_print_parse_def rbind_Inr_iff newtype_iffs enum_iffs check_pad_Inr)
    then show "trade_print_ok m" by (metis trade_print_ok_def ok_defs(1,2) price.sel qty.sel trade_print.select_convs(3,4))
    have "w = \<lparr>tpw_engine_seq = tpw_engine_seq w, tpw_trade_id = tpw_trade_id w, tpw_price = tpw_price w,
        tpw_qty = tpw_qty w, tpw_aggressor_side = side_as_u8 (tp_aggressor_side m),
        tpw_pad0 = replicate 7 0, tpw_emit_ts = tpw_emit_ts w\<rparr>"
      using w(2,4) trade_print_layout.as_from_bytes [OF w(1)] by (cases w) simp
    then show "trade_print_encode m [] = bs"
      using trade_print_layout.as_from_bytes [OF w(1)] w(3) by (cases m) (simp add: trade_print_encode_def)
  qed
qed (simp add: trade_print_encode_def)

lemma decode_side_Inr:
  "decode_side p q s = Inr x \<longleftrightarrow> encode_side x = (p, q) \<and> opt_ok (\<lambda>(p, q). price_ok p \<and> qty_ok q) x"
proof (cases x)
  case None
  then show ?thesis by (auto simp: decode_side_def rbind_Inr_iff)
next
  case (Some pq)
  obtain p' q' where "pq = (p', q')" by (cases pq)
  then show ?thesis
    using Some price_ok_nonzero [of p']
    by (auto simp: decode_side_def rbind_Inr_iff newtype_iffs ok_defs)
qed

interpretation book_update_top: canonical_codec book_update_top_parse book_update_top_encode book_update_top_ok
proof
  show "book_update_top_parse (book_update_top_encode m []) = Inr m" if "book_update_top_ok m" for m
    using that decode_side_Inr
    by (cases m) (auto simp: book_update_top_parse_def book_update_top_encode_def
        book_update_top_layout.from_as_bytes book_update_top_ok_def rbind_Inr_iff split: prod.split)
  show "book_update_top_ok m" "book_update_top_encode m [] = bs" if m: "book_update_top_parse bs = Inr m" for bs m
  proof -
    obtain w where w: "book_update_top_from_bytes bs = Some w" "bt_engine_seq m = EngineSeq (btw_engine_seq w)"
        "bt_emit_ts m = RecvTs (btw_emit_ts w)"
        "encode_side (bt_bid m) = (btw_bid_price w, btw_bid_qty w)"
        "encode_side (bt_ask m) = (btw_ask_price w, btw_ask_qty w)" "book_update_top_ok m"
      using m by (cases "book_update_top_from_bytes bs")
        (auto simp: book_update_top_parse_def rbind_Inr_iff decode_side_Inr book_update_top_ok_def)
    then show "book_update_top_ok m" by simp
    show "book_update_top_encode m [] = bs"
      using book_update_top_layout.as_from_bytes [OF w(1)] w by (cases w) (simp add: book_update_top_encode_def)
  qed
qed (simp add: book_update_top_encode_def split: prod.split)

interpretation l2_delta: canonical_codec l2_delta_parse l2_delta_encode l2_delta_ok
proof
  show "l2_delta_parse (l2_delta_encode m []) = Inr m" if "l2_delta_ok m" for m
    using that by (cases m) (simp add: l2_delta_parse_def l2_delta_encode_def
        l2_delta_layout.from_as_bytes l2_delta_ok_def enum_facts)
  show "l2_delta_ok m" "l2_delta_encode m [] = bs" if m: "l2_delta_parse bs = Inr m" for bs m
  proof -
    obtain w where w: "l2_delta_from_bytes bs = Some w" "bdw_pad0 w = replicate (length (bdw_pad0 w)) 0"
        "bd_engine_seq m = EngineSeq (bdw_engine_seq w)" "bd_emit_ts m = RecvTs (bdw_emit_ts w)"
        "as_ticks (bd_price m) = bdw_price w" "bdw_side w = side_as_u8 (bd_side m)"
        "unwrap_or (map_option as_lots (bd_new_qty m)) 0 = bdw_new_qty w" "l2_delta_ok m"
      using m by (cases "l2_delta_from_bytes bs")
        (auto simp: l2_delta_parse_def rbind_Inr_iff newtype_iffs enum_iffs check_pad_Inr opt_field_Inr
          l2_delta_ok_def ok_defs)
    then show "l2_delta_ok m" by simp
    have "w = \<lparr>bdw_engine_seq = engine_seq_raw (bd_engine_seq m), bdw_price = as_ticks (bd_price m),
        bdw_new_qty = unwrap_or (map_option as_lots (bd_new_qty m)) 0, bdw_side = side_as_u8 (bd_side m),
        bdw_pad0 = replicate 7 0, bdw_emit_ts = recv_nanos (bd_emit_ts m)\<rparr>"
      using w l2_delta_layout.as_from_bytes [OF w(1)] by (cases w) simp
    then show "l2_delta_encode m [] = bs"
      using l2_delta_layout.as_from_bytes [OF w(1)] by (simp add: l2_delta_encode_def)
  qed
qed (simp add: l2_delta_encode_def)

section \<open>The variable-length snapshot\<close>

lemma length_level_bytes [simp]: "length (level_bytes l) = 16"
  by (simp add: level_bytes_def)

lemma length_levels_bytes [simp]: "length (concat (map level_bytes ls)) = 16 * length ls"
  by (induction ls) simp_all

lemma level_bytes_at:
  "length pre = n \<Longrightarrow> le_at n (pre @ level_bytes l @ bs) = as_ticks (lv_price l)"
  "length pre = n \<Longrightarrow> le_at (n + 8) (pre @ level_bytes l @ bs) = as_lots (lv_qty l)"
  by (simp_all add: le_at_skip level_bytes_def)

lemma parse_levels_encode:
  "list_all snap_level_ok ls \<Longrightarrow> length pre = cursor \<Longrightarrow>
   parse_levels (length ls) cursor (pre @ concat (map level_bytes ls) @ post) = Inr ls"
proof (induction ls arbitrary: pre cursor)
  case (Cons l ls)
  have "parse_levels (length ls) (cursor + 16)
      ((pre @ level_bytes l) @ concat (map level_bytes ls) @ post) = Inr ls"
    using Cons by (intro Cons.IH) auto
  then show ?case
    using Cons.prems level_bytes_at [of pre cursor l "concat (map level_bytes ls) @ post"]
    by (simp add: snap_level_ok_def LEVEL_BYTES_def)
qed simp

lemma snapshot_roundtrip:
  assumes "snapshot_ok m" "snapshot_encode m [] = Some bs"
  shows "snapshot_parse bs = Inr m" "length bs = encoded_len m"
proof -
  let ?B = "concat (map level_bytes (sp_bids m))" and ?A = "concat (map level_bytes (sp_asks m))"
  let ?H = "to_le_bytes (engine_seq_raw (sp_engine_seq m)) @ to_le_bytes (sp_request_id m) @
      to_le_bytes (recv_nanos (sp_recv_ts m)) @ to_le_bytes (recv_nanos (sp_emit_ts m)) @
      to_le_bytes (word_of_nat (length (sp_bids m)) :: u32) @
      to_le_bytes (word_of_nat (length (sp_asks m)) :: u32)"
  have fits: "length (sp_bids m) \<le> u32_max" "length (sp_asks m) \<le> u32_max" and bs: "bs = ?H @ ?B @ ?A"
    using assms(2) by (auto simp: snapshot_encode_def split: if_splits)
  have n: "unat (word_of_nat (length (sp_bids m)) :: u32) = length (sp_bids m)"
    "unat (word_of_nat (length (sp_asks m)) :: u32) = length (sp_asks m)"
    using fits by (simp_all add: u32_max_def unat_of_nat)
  have fields: "le_at 0 bs = engine_seq_raw (sp_engine_seq m)" "le_at 8 bs = sp_request_id m"
    "le_at 16 bs = recv_nanos (sp_recv_ts m)" "le_at 24 bs = recv_nanos (sp_emit_ts m)"
    "le_at 32 bs = (word_of_nat (length (sp_bids m)) :: u32)"
    "le_at 36 bs = (word_of_nat (length (sp_asks m)) :: u32)"
    by (simp_all add: bs le_at_skip)
  show len: "length bs = encoded_len m"
    by (simp add: bs encoded_len_def HEADER_BYTES_def LEVEL_BYTES_def)
  have "parse_levels (length (sp_bids m)) 40 bs = Inr (sp_bids m)"
    using assms(1) parse_levels_encode [of "sp_bids m" ?H 40 ?A] by (simp add: bs snapshot_ok_def)
  moreover have "parse_levels (length (sp_asks m)) (40 + 16 * length (sp_bids m)) bs = Inr (sp_asks m)"
    using assms(1) parse_levels_encode [of "sp_asks m" "?H @ ?B" "40 + 16 * length (sp_bids m)" "[]"]
    by (simp add: bs snapshot_ok_def)
  ultimately show "snapshot_parse bs = Inr m"
    using len n by (cases m)
      (simp add: snapshot_parse_def Let_def fields encoded_len_def HEADER_BYTES_def LEVEL_BYTES_def)
qed

end
