(* ===== verification/Marketdata.thy ===== *)
theory Marketdata
  imports Wire_Outbound
begin

text \<open>
  The \<^verbatim>\<open>marketdata\<close> crate: the \<^verbatim>\<open>VecSink\<close> the engine publishes into (\<^verbatim>\<open>sink.rs\<close>) and the
  framed encoding of an outbound event (\<^verbatim>\<open>encoder.rs\<close>). \<open>None\<close> is the panic of the snapshot
  encoder on a level count beyond \<^verbatim>\<open>u32\<close>.
\<close>

section \<open>Sink (\<^verbatim>\<open>sink.rs\<close>)\<close>

record vec_sink =
  events :: "outbound list"

definition VecSink_new :: vec_sink where "VecSink_new = \<lparr>events = []\<rparr>"

definition VecSink_take :: "vec_sink \<Rightarrow> outbound list \<times> vec_sink" where
  "VecSink_take s = (events s, s\<lparr>events := []\<rparr>)"

definition VecSink_emit :: "outbound \<Rightarrow> vec_sink \<Rightarrow> vec_sink" where
  "VecSink_emit msg s = s\<lparr>events := events s @ [msg]\<rparr>"

section \<open>Encoder (\<^verbatim>\<open>encoder.rs\<close>)\<close>

fun outbound_payload :: "outbound \<Rightarrow> (u8 list \<times> message_kind) option" where
  "outbound_payload (Out_ExecReport r) = Some (exec_report_encode r [], MK_ExecReport)"
| "outbound_payload (Out_TradePrint t) = Some (trade_print_encode t [], MK_TradePrint)"
| "outbound_payload (Out_BookUpdateTop b) = Some (book_update_top_encode b [], MK_BookUpdateTop)"
| "outbound_payload (Out_BookUpdateL2Delta d) = Some (l2_delta_encode d [], MK_BookUpdateL2Delta)"
| "outbound_payload (Out_SnapshotResponse s) =
     map_option (\<lambda>bs. (bs, MK_SnapshotResponse)) (snapshot_encode s [])"

definition md_encode :: "outbound \<Rightarrow> u8 list \<Rightarrow> (wire_error + u8 list) option" where
  "md_encode msg out =
     (case outbound_payload msg of
        None \<Rightarrow> None
      | Some (payload, kind) \<Rightarrow> Some (frame_write kind payload out))"

definition md_decode :: "u8 list \<Rightarrow> wire_error + outbound \<times> nat" where
  "md_decode buf =
     rbind (frame_parse buf) (\<lambda>(f, n).
     rbind (outbound_parse_frame f) (\<lambda>msg. Inr (msg, n)))"

section \<open>Round trip\<close>

fun outbound_ok :: "outbound \<Rightarrow> bool" where
  "outbound_ok (Out_ExecReport m) \<longleftrightarrow> exec_report_ok m"
| "outbound_ok (Out_TradePrint m) \<longleftrightarrow> trade_print_ok m"
| "outbound_ok (Out_BookUpdateTop m) \<longleftrightarrow> book_update_top_ok m"
| "outbound_ok (Out_BookUpdateL2Delta m) \<longleftrightarrow> l2_delta_ok m"
| "outbound_ok (Out_SnapshotResponse m) \<longleftrightarrow> snapshot_ok m"

lemma outbound_parse_payload:
  assumes "outbound_ok msg" "outbound_payload msg = Some (payload, kind)"
  shows "outbound_parse_frame \<lparr>fr_kind = kind, fr_payload = payload\<rparr> = Inr msg"
  using assms
  by (cases msg)
    (auto simp: outbound_parse_frame_def exec_report.parse_encode trade_print.parse_encode
      book_update_top.parse_encode l2_delta.parse_encode snapshot_roundtrip(1))

lemma md_decode_encode:
  assumes "outbound_ok msg" "md_encode msg out = Some (Inr out')"
  shows "\<exists>bs. out' = out @ bs \<and> bs \<noteq> [] \<and> md_decode (bs @ tail) = Inr (msg, length bs)"
proof -
  obtain payload kind where p: "outbound_payload msg = Some (payload, kind)"
      "frame_write kind payload out = Inr out'"
    using assms(2) by (auto simp: md_encode_def split: option.splits)
  obtain bs where bs: "out' = out @ bs" "length bs = 5 + length payload"
      "frame_parse (bs @ tail) = Inr (\<lparr>fr_kind = kind, fr_payload = payload\<rparr>, length bs)"
    using frame_write_parse [OF p(2), of tail] by blast
  then show ?thesis
    using outbound_parse_payload [OF assms(1) p(1)] by (auto simp: md_decode_def)
qed

text \<open>The fixed-size messages always encode.\<close>

lemma md_encode_fixed:
  assumes "\<And>s. msg \<noteq> Out_SnapshotResponse s"
  shows "\<exists>out'. md_encode msg out = Some (Inr out')"
proof -
  have "\<exists>payload kind. outbound_payload msg = Some (payload, kind) \<and> length payload \<le> 64"
    using assms
    by (cases msg)
      (auto simp: exec_report_encode_def trade_print_encode_def book_update_top_encode_def
        l2_delta_encode_def exec_report_layout.as_bytes_size trade_print_layout.as_bytes_size
        book_update_top_layout.as_bytes_size l2_delta_layout.as_bytes_size split: prod.split)
  then show ?thesis by (auto simp: md_encode_def frame_write_def frame_consts u32_max_def Let_def)
qed

end
