(* ===== verification/Wire_Theorems.thy ===== *)
theory Wire_Theorems
  imports Marketdata
begin

text \<open>
  What the wire protocol promises: frames and messages survive the round trip, decoders accept
  nothing but the encodings of valid messages, and malformed input is refused with the right error.
\<close>

section \<open>Frames\<close>

text \<open>A frame survives the wire. Whatever follows it in the buffer, parsing the bytes that
  \<^verbatim>\<open>Frame::write\<close> appended gives back the kind and the payload and consumes exactly those bytes;
  writing fails only when the payload does not fit the 32-bit length prefix.\<close>

lemma frame_roundtrip:
  assumes "1 + length payload \<le> u32_max"
  shows "\<exists>bs. frame_write kind payload out = Inr (out @ bs) \<and> length bs = 5 + length payload \<and>
    frame_parse (bs @ tail) = Inr (\<lparr>fr_kind = kind, fr_payload = payload\<rparr>, length bs)"
proof -
  obtain out' where w: "frame_write kind payload out = Inr out'"
    using assms by (auto simp: frame_write_def frame_consts Let_def)
  then show ?thesis using frame_write_parse [OF w, of tail] by auto
qed

text \<open>C32: frames are encoded and parsed exactly. Parsing the bytes \<^verbatim>\<open>Frame::write\<close> appended gives
  back the kind and the payload and consumes exactly those bytes, whatever follows them; writing
  fails only when the payload does not fit the 32-bit length prefix. Conversely the parser accepts
  frames only: the bytes it consumed are the prefix, the kind byte and the payload of the frame it
  returns and nothing more, a kind it skips as unknown is one that no message kind has, and it
  consumes at least a header and never more than it was given.\<close>

theorem frame_codec_exact:
  "(1 + length payload \<le> u32_max \<longrightarrow>
     (\<exists>bs. frame_write kind payload out = Inr (out @ bs) \<and> length bs = 5 + length payload \<and>
        frame_parse (bs @ tail) = Inr (\<lparr>fr_kind = kind, fr_payload = payload\<rparr>, length bs))) \<and>
   (parse_or_skip buf = Inr (outcome, n) \<longrightarrow> 5 \<le> n \<and> n \<le> length buf \<and>
     (case outcome of
        PO_Frame f \<Rightarrow> take n buf =
          to_le_bytes (word_of_nat (1 + length (fr_payload f)) :: u32) @ [kind_as_u8 (fr_kind f)] @ fr_payload f
      | PO_UnknownKind k \<Rightarrow> k \<notin> range kind_as_u8 \<and> buf ! 4 = k))"
  using frame_roundtrip [of payload kind out tail] parse_or_skip_Inr [of buf outcome n] by blast

theorem frame_codec_exact_witness:
  "(\<exists>bs. frame_write MK_CancelOrder [1, 2, 3] [9] = Inr ([9] @ bs) \<and> length bs = 8 \<and>
     frame_parse (bs @ [7]) = Inr (\<lparr>fr_kind = MK_CancelOrder, fr_payload = [1, 2, 3]\<rparr>, length bs)) \<and>
   parse_or_skip [2, 0, 0, 0, 255, 8, 9] = Inr (PO_UnknownKind 255, 6) \<and> 255 \<notin> range kind_as_u8"
proof -
  have p: "parse_or_skip [2, 0, 0, 0, 255, 8, 9] = Inr (PO_UnknownKind 255, 6)" by code_simp
  show ?thesis
    using frame_codec_exact [of "[1, 2, 3]" MK_CancelOrder "[9]" "[7]" "[2, 0, 0, 0, 255, 8, 9]" "PO_UnknownKind 255" 6] p
    by (simp add: u32_max_def)
qed

section \<open>Inbound messages\<close>

text \<open>C31: inbound messages are encoded and parsed exactly. Parsing the encoding of a valid command
  gives the command back, and whatever the dispatcher parses is a valid command (ids, quantities
  and prices non-zero and in range, a price exactly when the order type needs one) of the kind
  named in the frame. For every command but \<^verbatim>\<open>NewOrder\<close>, whose parser ignores the price bytes of a
  market order, the payloads accepted are exactly the encodings of valid messages: padding is
  checked and no two byte strings mean the same command.\<close>

theorem inbound_codec_exact:
  "(inbound_ok m \<longrightarrow> inbound_parse_frame \<lparr>fr_kind = inbound_kind m, fr_payload = inbound_payload m\<rparr> = Inr m) \<and>
   (inbound_parse_frame f = Inr m \<longrightarrow> inbound_ok m \<and> fr_kind f = inbound_kind m) \<and>
   (cancel_order_parse bs = Inr c \<longleftrightarrow> cancel_order_ok c \<and> bs = cancel_order_encode c []) \<and>
   (cancel_replace_parse bs = Inr r \<longleftrightarrow> cancel_replace_ok r \<and> bs = cancel_replace_encode r []) \<and>
   (mass_cancel_parse bs = Inr x \<longleftrightarrow> mass_cancel_ok x \<and> bs = mass_cancel_encode x []) \<and>
   (kill_switch_parse bs = Inr k \<longleftrightarrow> bs = kill_switch_encode k []) \<and>
   (snapshot_request_parse bs = Inr s \<longleftrightarrow> bs = snapshot_request_encode s [])"
  using inbound_parse_frame_encode inbound_parse_frame_ok
  by (simp add: cancel_order.parse_iff cancel_replace.parse_iff mass_cancel.parse_iff kill_switch.parse_iff
      snapshot_request.parse_iff)

definition sample_cancel :: inbound where
  "sample_cancel = In_CancelOrder \<lparr>co_client_ts = ClientTs 5, co_order_id = OrderId 4, co_account_id = AccountId 8\<rparr>"

theorem inbound_codec_exact_witness:
  "inbound_ok sample_cancel \<and>
   inbound_parse_frame \<lparr>fr_kind = MK_CancelOrder, fr_payload = inbound_payload sample_cancel\<rparr> = Inr sample_cancel"
  using inbound_codec_exact [of sample_cancel]
  by (simp add: sample_cancel_def cancel_order_ok_def ok_defs)

text \<open>A payload of the wrong size is refused, with the size expected and the size found, whatever
  its content, by every inbound and every fixed-size outbound decoder.\<close>

lemma wrong_size_refused:
  "(length bs \<noteq> 40 \<longrightarrow> new_order_parse bs = Inl (PayloadSize 40 (length bs)) \<and>
      cancel_replace_parse bs = Inl (PayloadSize 40 (length bs)) \<and> l2_delta_parse bs = Inl (PayloadSize 40 (length bs))) \<and>
   (length bs \<noteq> 24 \<longrightarrow> cancel_order_parse bs = Inl (PayloadSize 24 (length bs)) \<and>
      kill_switch_parse bs = Inl (PayloadSize 24 (length bs))) \<and>
   (length bs \<noteq> 16 \<longrightarrow> mass_cancel_parse bs = Inl (PayloadSize 16 (length bs)) \<and>
      snapshot_request_parse bs = Inl (PayloadSize 16 (length bs))) \<and>
   (length bs \<noteq> 64 \<longrightarrow> exec_report_parse bs = Inl (PayloadSize 64 (length bs))) \<and>
   (length bs \<noteq> 48 \<longrightarrow> trade_print_parse bs = Inl (PayloadSize 48 (length bs)) \<and>
      book_update_top_parse bs = Inl (PayloadSize 48 (length bs)))"
  by (auto simp: new_order_parse_def cancel_replace_parse_def l2_delta_parse_def cancel_order_parse_def
      kill_switch_parse_def mass_cancel_parse_def snapshot_request_parse_def exec_report_parse_def
      trade_print_parse_def book_update_top_parse_def new_order_layout.from_bytes_size [THEN iffD2]
      cancel_replace_layout.from_bytes_size [THEN iffD2] l2_delta_layout.from_bytes_size [THEN iffD2]
      cancel_order_layout.from_bytes_size [THEN iffD2] kill_switch_layout.from_bytes_size [THEN iffD2]
      mass_cancel_layout.from_bytes_size [THEN iffD2] snapshot_request_layout.from_bytes_size [THEN iffD2]
      exec_report_layout.from_bytes_size [THEN iffD2] trade_print_layout.from_bytes_size [THEN iffD2]
      book_update_top_layout.from_bytes_size [THEN iffD2] NEW_ORDER_SIZE_def)

section \<open>Outbound messages\<close>

text \<open>C30: one encoding per outbound message. A payload decodes to an execution report, a trade print,
  a top-of-book update or a level delta exactly when it is the encoding of a valid message of that
  kind; for execution reports valid includes the coherence rules between state, fill, leaves and
  reasons.\<close>

theorem outbound_encoding_unique:
  "(exec_report_parse bs = Inr r \<longleftrightarrow> exec_report_ok r \<and> bs = exec_report_encode r []) \<and>
   (trade_print_parse bs = Inr t \<longleftrightarrow> trade_print_ok t \<and> bs = trade_print_encode t []) \<and>
   (book_update_top_parse bs = Inr b \<longleftrightarrow> book_update_top_ok b \<and> bs = book_update_top_encode b []) \<and>
   (l2_delta_parse bs = Inr d \<longleftrightarrow> l2_delta_ok d \<and> bs = l2_delta_encode d [])"
  by (simp add: exec_report.parse_iff trade_print.parse_iff book_update_top.parse_iff l2_delta.parse_iff)

text \<open>C29: a framed event survives the wire. Encoding a valid outbound event appends one frame, and
  decoding from the start of that frame, whatever comes after it, gives back the same event and
  consumes exactly the frame. Only a snapshot can fail to encode.\<close>

theorem event_roundtrip:
  assumes "outbound_ok msg"
  shows "(\<forall>out'. md_encode msg out = Some (Inr out') \<longrightarrow>
      (\<exists>bs. out' = out @ bs \<and> bs \<noteq> [] \<and> md_decode (bs @ tail) = Inr (msg, length bs))) \<and>
    ((\<nexists>s. msg = Out_SnapshotResponse s) \<longrightarrow> (\<exists>out'. md_encode msg out = Some (Inr out')))"
  using md_decode_encode [OF assms] md_encode_fixed [of msg out] by blast

definition sample_print :: outbound where
  "sample_print = Out_TradePrint \<lparr>tp_engine_seq = EngineSeq 9, tp_trade_id = TradeId 2, tp_price = Price 101,
     tp_qty = Qty 5, tp_aggressor_side = Bid, tp_emit_ts = RecvTs 77\<rparr>"

theorem event_roundtrip_witness:
  "\<exists>bs. md_encode sample_print [1] = Some (Inr ([1] @ bs)) \<and> md_decode (bs @ [3]) = Inr (sample_print, length bs)"
proof -
  have ok: "outbound_ok sample_print" "\<nexists>s. sample_print = Out_SnapshotResponse s"
    by (simp_all add: sample_print_def trade_print_ok_def ok_defs)
  show ?thesis using event_roundtrip [OF ok(1), of "[1]" "[3]"] ok(2) by auto
qed

text \<open>A snapshot survives the wire. Decoding the encoding of a snapshot of valid levels gives it
  back, the encoding has exactly the advertised length, and encoding fails only when a side has
  more than 2^32 - 1 levels.\<close>

lemma snapshot_survives:
  assumes "snapshot_ok m" "length (sp_bids m) \<le> u32_max" "length (sp_asks m) \<le> u32_max"
  shows "\<exists>bs. snapshot_encode m [] = Some bs \<and> snapshot_parse bs = Inr m \<and> length bs = encoded_len m"
proof -
  obtain bs where b: "snapshot_encode m [] = Some bs" using assms(2,3) by (auto simp: snapshot_encode_def)
  then show ?thesis using snapshot_roundtrip [OF assms(1) b] by blast
qed

section \<open>Enumerations\<close>

text \<open>Every enumerated byte is decoded strictly: a byte decodes to a value exactly when it is the
  code of that value, for sides, order types, times in force, execution states, cancel and reject
  reasons, kill-switch states and message kinds.\<close>

lemma enum_codes_strict:
  "(side_try_from v = Inr a \<longleftrightarrow> v = side_as_u8 a) \<and> (order_type_try_from v = Inr b \<longleftrightarrow> v = order_type_as_u8 b) \<and>
   (tif_try_from v = Inr c \<longleftrightarrow> v = tif_as_u8 c) \<and> (exec_state_try_from v = Inr d \<longleftrightarrow> v = exec_state_as_u8 d) \<and>
   (cancel_reason_try_from v = Inr e \<longleftrightarrow> v = cancel_reason_as_u8 e) \<and>
   (reject_reason_try_from v16 = Inr f \<longleftrightarrow> v16 = reject_reason_as_u8 f) \<and>
   (kill_switch_try_from v = Inr g \<longleftrightarrow> v = kill_switch_as_u8 g) \<and> (kind_try_from v = Inr h \<longleftrightarrow> v = kind_as_u8 h)"
  by (simp add: side_enum.try_from_Inr_iff order_type_enum.try_from_Inr_iff tif_enum.try_from_Inr_iff
      exec_state_enum.try_from_Inr_iff cancel_reason_enum.try_from_Inr_iff reject_reason_enum.try_from_Inr_iff
      kill_switch_enum.try_from_Inr_iff kind_enum.try_from_Inr_iff)

end
