(* ===== verification/Risk.thy ===== *)
theory Risk
  imports Wire_Inbound
begin

text \<open>
  The \<^verbatim>\<open>risk\<close> crate (\<^verbatim>\<open>risk/src/state.rs\<close>): kill switch, price band and per-account limits. A
  method with a \<^verbatim>\<open>Result\<close> that takes \<^verbatim>\<open>&mut self\<close> returns the result next to the new state:
  \<^verbatim>\<open>entry(account).or_default()\<close> leaves a default entry behind even when the method fails.
\<close>

section \<open>State\<close>

record account_state =
  open_orders :: u32
  notional :: u128

definition account_default :: account_state where
  "account_default = \<lparr>open_orders = 0, notional = 0\<rparr>"

record risk_state =
  kill_switch :: bool
  per_account :: "account_id \<rightharpoonup> account_state"
  last_trade_price :: "price option"

definition RiskState_new :: risk_state where
  "RiskState_new = \<lparr>kill_switch = False, per_account = Map.empty, last_trade_price = None\<rparr>"

definition set_kill_switch :: "bool \<Rightarrow> risk_state \<Rightarrow> risk_state" where
  "set_kill_switch engaged r = r\<lparr>kill_switch := engaged\<rparr>"

definition on_fill :: "price \<Rightarrow> risk_state \<Rightarrow> risk_state" where
  "on_fill trade_price r = r\<lparr>last_trade_price := Some trade_price\<rparr>"

definition notional_of :: "price \<Rightarrow> qty \<Rightarrow> u128" where
  "notional_of price qty = scast (as_ticks price) * ucast (as_lots qty)"

section \<open>Hooks\<close>

definition on_order_resting ::
  "account_id \<Rightarrow> u128 \<Rightarrow> risk_state \<Rightarrow> (reject_reason + unit) \<times> risk_state" where
  "on_order_resting account n r =
     (let entry = unwrap_or (per_account r account) account_default;
          r1 = r\<lparr>per_account := (per_account r)(account \<mapsto> entry)\<rparr>
      in case checked_add (open_orders entry) 1 of
           None \<Rightarrow> (Inl MaxOpenOrders, r1)
         | Some new_open \<Rightarrow>
             if new_open > MAX_OPEN_ORDERS_PER_ACCT then (Inl MaxOpenOrders, r1)
             else (case checked_add (notional entry) n of
                     None \<Rightarrow> (Inl MaxNotional, r1)
                   | Some new_notional \<Rightarrow>
                       if new_notional > MAX_NOTIONAL_PER_ACCT then (Inl MaxNotional, r1)
                       else (Inr (), r1\<lparr>per_account := (per_account r1)(account \<mapsto>
                               \<lparr>open_orders = new_open, notional = new_notional\<rparr>)\<rparr>)))"

definition on_order_removed :: "account_id \<Rightarrow> u128 \<Rightarrow> risk_state \<Rightarrow> risk_state" where
  "on_order_removed account n r =
     (case per_account r account of
        None \<Rightarrow> r
      | Some entry \<Rightarrow>
          let e = \<lparr>open_orders = saturating_sub (open_orders entry) 1,
                   notional = saturating_sub (notional entry) n\<rparr>
          in if open_orders e = 0 \<and> notional e = 0
             then r\<lparr>per_account := (per_account r)(account := None)\<rparr>
             else r\<lparr>per_account := (per_account r)(account \<mapsto> e)\<rparr>)"

section \<open>Checks\<close>

text \<open>\<^verbatim>\<open>(p - r).unsigned_abs()\<close> on \<^verbatim>\<open>i128\<close>: two \<^verbatim>\<open>i64\<close> values never overflow it.\<close>

definition check_price_band :: "price \<Rightarrow> price option \<Rightarrow> reject_reason + unit" where
  "check_price_band price last_price =
     (case last_price of
        None \<Rightarrow> Inr ()
      | Some reference \<Rightarrow>
          let p = sint (as_ticks price);
              r = sint (as_ticks reference);
              diff = (word_of_int \<bar>p - r\<bar> :: u128)
          in rbind (ok_or (checked_mul diff 10000) PriceBand) (\<lambda>lhs.
             rbind (ok_or (checked_mul (scast (as_ticks reference)) (ucast PRICE_BAND_BPS)) PriceBand) (\<lambda>rhs.
             if lhs > rhs then Inl PriceBand else Inr ())))"

definition check_account_limits :: "risk_state \<Rightarrow> account_id \<Rightarrow> price \<Rightarrow> qty \<Rightarrow> reject_reason + unit" where
  "check_account_limits r account effective_price qty =
     (let entry = unwrap_or (per_account r account) account_default
      in rbind (ok_or (checked_add (open_orders entry) 1) MaxOpenOrders) (\<lambda>new_open.
         if new_open > MAX_OPEN_ORDERS_PER_ACCT then Inl MaxOpenOrders
         else
           let order_notional = notional_of effective_price qty
           in rbind (ok_or (checked_add (notional entry) order_notional) MaxNotional) (\<lambda>new_notional.
              if new_notional > MAX_NOTIONAL_PER_ACCT then Inl MaxNotional else Inr ())))"

definition check_new_order :: "risk_state \<Rightarrow> new_order \<Rightarrow> price option \<Rightarrow> reject_reason + unit" where
  "check_new_order r msg best_opposite =
     (if kill_switch r then Inl KillSwitched
      else
        rbind (case no_order_type msg of
                 Limit \<Rightarrow> ok_or (no_price msg) MalformedMessage
               | Market \<Rightarrow> ok_or best_opposite MarketOrderInEmptyBook) (\<lambda>effective_price.
        rbind (check_price_band effective_price (last_trade_price r)) (\<lambda>_.
        rbind (check_account_limits r (no_account_id msg) effective_price (no_qty msg)) (\<lambda>_.
        Inr ()))))"

definition check_cancel :: "risk_state \<Rightarrow> cancel_order \<Rightarrow> reject_reason + unit" where
  "check_cancel r msg = (if kill_switch r then Inl KillSwitched else Inr ())"

definition check_cancel_replace :: "risk_state \<Rightarrow> cancel_replace \<Rightarrow> reject_reason + unit" where
  "check_cancel_replace r msg =
     (if kill_switch r then Inl KillSwitched
      else
        rbind (check_price_band (cr_new_price msg) (last_trade_price r)) (\<lambda>_.
        let order_notional = notional_of (cr_new_price msg) (cr_new_qty msg)
        in if order_notional > MAX_NOTIONAL_PER_ACCT then Inl MaxNotional else Inr ()))"

definition check_mass_cancel :: "risk_state \<Rightarrow> mass_cancel_msg \<Rightarrow> reject_reason + unit" where
  "check_mass_cancel r msg = (if kill_switch r then Inl KillSwitched else Inr ())"

section \<open>Exactness of the arithmetic\<close>

lemma unat_of_small_int: "0 \<le> i \<Longrightarrow> i < 2 ^ 128 \<Longrightarrow> unat (word_of_int i :: u128) = nat i"
  by (simp add: unsigned_of_int take_bit_int_eq_self)

lemma sint_i64_bounds: "- (2 ^ 63) \<le> sint (w :: i64)" "sint (w :: i64) < 2 ^ 63"
  using sint_ge [of w] sint_lt [of w] by simp_all

lemma unat_scast_pos: "0 < sint (w :: i64) \<Longrightarrow> unat (scast w :: u128) = nat (sint w)"
proof -
  assume "0 < sint w"
  moreover have "(scast w :: u128) = word_of_int (sint w)" by (rule scast_eq)
  ultimately show ?thesis
    using sint_i64_bounds [of w] unat_of_small_int [of "sint w"] by (simp only:) simp
qed

lemma unat_notional_of:
  assumes "price_ok p"
  shows "unat (notional_of p q) = nat (sint (as_ticks p)) * unat (as_lots q)"
proof -
  have "nat (sint (as_ticks p)) < 2 ^ 63" using sint_i64_bounds [of "as_ticks p"] by simp
  moreover have "unat (as_lots q) < 2 ^ 64" using unsigned_less [of "as_lots q", where 'a = nat] by simp
  ultimately have "nat (sint (as_ticks p)) * unat (as_lots q) < 2 ^ 63 * 2 ^ 64"
    by (intro mult_strict_mono) simp_all
  moreover have "unat (scast (as_ticks p) :: u128) = nat (sint (as_ticks p))"
    using assms by (simp add: unat_scast_pos price_ok_def)
  moreover have "unat (ucast (as_lots q) :: u128) = unat (as_lots q)"
    using unsigned_less [of "as_lots q", where 'a = nat]
    by (simp add: unsigned_ucast_eq take_bit_nat_eq_self)
  ultimately show ?thesis
    unfolding notional_of_def by (subst unat_mul_no_wrap) simp_all
qed

lemma check_price_band_iff:
  assumes "price_ok p" "price_ok r"
  shows "check_price_band p (Some r) = Inr () \<longleftrightarrow>
    \<bar>sint (as_ticks p) - sint (as_ticks r)\<bar> * 10000 \<le> sint (as_ticks r) * 500"
proof -
  let ?p = "sint (as_ticks p)" and ?r = "sint (as_ticks r)"
  have b: "0 < ?p" "?p < 2 ^ 63" "0 < ?r" "?r < 2 ^ 63"
    using assms sint_i64_bounds by (auto simp: price_ok_def)
  have d: "unat (word_of_int \<bar>?p - ?r\<bar> :: u128) = nat \<bar>?p - ?r\<bar>"
    using b by (intro unat_of_small_int) auto
  have r: "unat (scast (as_ticks r) :: u128) = nat ?r" using b by (intro unat_scast_pos) auto
  have bps: "unat (ucast PRICE_BAND_BPS :: u128) = 500" by (simp add: PRICE_BAND_BPS_def)
  have lhs: "checked_mul (word_of_int \<bar>?p - ?r\<bar> :: u128) 10000 = Some (word_of_int \<bar>?p - ?r\<bar> * 10000)"
    unfolding checked_mul_def d using b by auto
  have rhs: "checked_mul (scast (as_ticks r) :: u128) (ucast PRICE_BAND_BPS) =
      Some (scast (as_ticks r) * ucast PRICE_BAND_BPS)"
    unfolding checked_mul_def r bps using b by auto
  have "check_price_band p (Some r) = Inr () \<longleftrightarrow>
      \<not> (scast (as_ticks r) * ucast PRICE_BAND_BPS :: u128) < word_of_int \<bar>?p - ?r\<bar> * 10000"
    by (simp add: check_price_band_def Let_def lhs rhs)
  also have "\<dots> \<longleftrightarrow> nat \<bar>?p - ?r\<bar> * 10000 \<le> nat ?r * 500"
    unfolding word_less_nat_alt
    using checked_mul_SomeD [OF lhs] checked_mul_SomeD [OF rhs] d r bps by (simp add: not_less)
  also have "\<dots> \<longleftrightarrow> \<bar>?p - ?r\<bar> * 10000 \<le> ?r * 500"
    unfolding of_nat_le_iff [symmetric, where 'a = int] of_nat_mult using b by simp
  finally show ?thesis .
qed

section \<open>The caps\<close>

text \<open>No account is ever recorded above either cap.\<close>

definition within_caps :: "account_state \<Rightarrow> bool" where
  "within_caps e \<longleftrightarrow> open_orders e \<le> MAX_OPEN_ORDERS_PER_ACCT \<and> notional e \<le> MAX_NOTIONAL_PER_ACCT"

definition risk_inv :: "risk_state \<Rightarrow> bool" where
  "risk_inv r \<longleftrightarrow> (\<forall>a e. per_account r a = Some e \<longrightarrow> within_caps e)"

lemma within_caps_default: "within_caps account_default"
  by (simp add: within_caps_def account_default_def)

lemma RiskState_new_inv: "risk_inv RiskState_new"
  by (simp add: risk_inv_def RiskState_new_def)

lemma risk_frame_inv [simp]:
  "risk_inv (set_kill_switch k r) = risk_inv r" "risk_inv (on_fill p r) = risk_inv r"
  by (simp_all add: risk_inv_def set_kill_switch_def on_fill_def)

lemma on_order_resting_inv:
  assumes "risk_inv r" "on_order_resting a n r = (res, r')"
  shows "risk_inv r'"
proof -
  have "within_caps (unwrap_or (per_account r a) account_default)"
    using assms(1) within_caps_default by (cases "per_account r a") (auto simp: risk_inv_def)
  then show ?thesis
    using assms
    by (auto simp: on_order_resting_def risk_inv_def within_caps_def Let_def not_less
        split: option.splits if_splits)
qed

lemma saturating_sub_le: "saturating_sub a b \<le> a"
  by (simp add: word_le_nat_alt unat_saturating_sub)

lemma within_caps_sub:
  "within_caps e \<Longrightarrow>
   within_caps \<lparr>open_orders = saturating_sub (open_orders e) k, notional = saturating_sub (notional e) n\<rparr>"
  by (auto simp: within_caps_def intro: order_trans [OF saturating_sub_le])

lemma on_order_removed_inv: "risk_inv r \<Longrightarrow> risk_inv (on_order_removed a n r)"
  by (auto simp: on_order_removed_def risk_inv_def Let_def within_caps_sub split: option.splits)

text \<open>A successful hook adds exactly the order; a failing one changes no counter.\<close>

definition acct :: "risk_state \<Rightarrow> account_id \<Rightarrow> account_state" where
  "acct r a = unwrap_or (per_account r a) account_default"

lemma on_order_resting_spec:
  assumes "on_order_resting a n r = (res, r')"
  shows "case res of
      Inr _ \<Rightarrow> unat (open_orders (acct r' a)) = unat (open_orders (acct r a)) + 1 \<and>
              unat (notional (acct r' a)) = unat (notional (acct r a)) + unat n
    | Inl e \<Rightarrow> acct r' a = acct r a \<and> (e = MaxOpenOrders \<or> e = MaxNotional)"
    and "a' \<noteq> a \<Longrightarrow> acct r' a' = acct r a'"
    and "kill_switch r' = kill_switch r" "last_trade_price r' = last_trade_price r"
  using assms
  by (auto simp: on_order_resting_def acct_def Let_def dest!: checked_add_SomeD split: option.splits if_splits)

lemma on_order_removed_spec:
  shows "unat (open_orders (acct (on_order_removed a n r) a)) = unat (open_orders (acct r a)) - 1"
    and "unat (notional (acct (on_order_removed a n r) a)) = unat (notional (acct r a)) - unat n"
    and "a' \<noteq> a \<Longrightarrow> acct (on_order_removed a n r) a' = acct r a'"
    and "kill_switch (on_order_removed a n r) = kill_switch r"
    and "last_trade_price (on_order_removed a n r) = last_trade_price r"
proof -
  have zero: "saturating_sub x y = 0 \<Longrightarrow> unat x - unat y = 0" for x y :: "'w::len word"
    by (metis unat_0 unat_saturating_sub)
  show "unat (open_orders (acct (on_order_removed a n r) a)) = unat (open_orders (acct r a)) - 1"
    using zero [of "open_orders (acct r a)" 1]
    by (cases "per_account r a")
      (auto simp: on_order_removed_def acct_def Let_def account_default_def unat_saturating_sub)
  show "unat (notional (acct (on_order_removed a n r) a)) = unat (notional (acct r a)) - unat n"
    using zero [of "notional (acct r a)" n]
    by (cases "per_account r a")
      (auto simp: on_order_removed_def acct_def Let_def account_default_def unat_saturating_sub)
  show "a' \<noteq> a \<Longrightarrow> acct (on_order_removed a n r) a' = acct r a'"
    "kill_switch (on_order_removed a n r) = kill_switch r"
    "last_trade_price (on_order_removed a n r) = last_trade_price r"
    by (auto simp: on_order_removed_def acct_def Let_def split: option.splits)
qed

end
