(* ===== verification/Risk_Theorems.thy ===== *)
theory Risk_Theorems
  imports Risk Ports
begin

text \<open>
  What the pre-trade checks, the account ledger and the id generator promise, with machine
  arithmetic tied to the mathematical quantities it stands for.
\<close>

section \<open>Limits as plain arithmetic\<close>

lemma capped_add:
  "(case checked_add a b of None \<Rightarrow> False | Some c \<Rightarrow> \<not> c > cap) \<longleftrightarrow> unat a + unat b \<le> unat (cap :: 'a::len word)"
proof (cases "unat a + unat b < 2 ^ LENGTH('a)")
  case True
  then show ?thesis by (simp add: checked_add_def unat_add_no_wrap word_less_nat_alt not_less)
next
  case False
  have "unat cap < 2 ^ LENGTH('a)" by simp
  with False have "\<not> unat a + unat b \<le> unat cap" by linarith
  with False show ?thesis by (simp add: checked_add_def)
qed

lemma caps_unat: "unat MAX_OPEN_ORDERS_PER_ACCT = 1000" "unat MAX_NOTIONAL_PER_ACCT = 10000000000"
  by (simp_all add: MAX_OPEN_ORDERS_PER_ACCT_def MAX_NOTIONAL_PER_ACCT_def)

definition fits :: "risk_state \<Rightarrow> account_id \<Rightarrow> nat \<Rightarrow> bool" where
  "fits r a n \<longleftrightarrow> unat (open_orders (acct r a)) + 1 \<le> 1000 \<and> unat (notional (acct r a)) + n \<le> 10000000000"

lemma limits_fit: "check_account_limits r a p q = Inr () \<longleftrightarrow> fits r a (unat (notional_of p q))"
proof -
  have "check_account_limits r a p q = Inr () \<longleftrightarrow>
      (case checked_add (open_orders (acct r a)) 1 of None \<Rightarrow> False | Some c \<Rightarrow> \<not> c > MAX_OPEN_ORDERS_PER_ACCT) \<and>
      (case checked_add (notional (acct r a)) (notional_of p q) of None \<Rightarrow> False | Some c \<Rightarrow> \<not> c > MAX_NOTIONAL_PER_ACCT)"
    by (simp add: check_account_limits_def acct_def Let_def split: option.split)
  then show ?thesis unfolding capped_add by (simp add: fits_def caps_unat)
qed

lemma resting_fits: "fst (on_order_resting a n r) = Inr () \<longleftrightarrow> fits r a (unat n)"
proof -
  have "fst (on_order_resting a n r) = Inr () \<longleftrightarrow>
      (case checked_add (open_orders (acct r a)) 1 of None \<Rightarrow> False | Some c \<Rightarrow> \<not> c > MAX_OPEN_ORDERS_PER_ACCT) \<and>
      (case checked_add (notional (acct r a)) n of None \<Rightarrow> False | Some c \<Rightarrow> \<not> c > MAX_NOTIONAL_PER_ACCT)"
    by (simp add: on_order_resting_def acct_def Let_def split: option.split)
  then show ?thesis unfolding capped_add by (simp add: fits_def caps_unat)
qed

definition released :: "risk_state \<Rightarrow> account_id \<Rightarrow> u128 \<Rightarrow> risk_state \<Rightarrow> bool" where
  "released r a n r' \<longleftrightarrow> risk_inv r' \<and>
    unat (open_orders (acct r' a)) = unat (open_orders (acct r a)) - 1 \<and>
    unat (notional (acct r' a)) = unat (notional (acct r a)) - unat n \<and>
    (\<forall>a'. a' \<noteq> a \<longrightarrow> acct r' a' = acct r a') \<and>
    kill_switch r' = kill_switch r \<and> last_trade_price r' = last_trade_price r"

lemma released_removed: "risk_inv r \<Longrightarrow> released r a n (on_order_removed a n r)"
  using on_order_removed_inv by (simp add: released_def on_order_removed_spec)

lemma booked_released:
  assumes "risk_inv r" "on_order_resting a n r = (Inr u, r')"
  shows "acct (on_order_removed a n r') = acct r"
proof
  fix a'
  have r': "released r' a n (on_order_removed a n r')"
    using released_removed on_order_resting_inv [OF assms] by blast
  show "acct (on_order_removed a n r') a' = acct r a'"
    using r' on_order_resting_spec(1,2) [OF assms(2)]
    by (cases "a' = a") (auto simp: released_def intro!: account_state.equality
        word_unat_eq_iff [THEN iffD2])
qed

section \<open>Price band\<close>

text \<open>C27: the price band is exact. With a last trade, a price passes exactly when it is within five
  percent of it, computed without rounding or overflow for every pair of valid prices; before the
  first trade every price passes.\<close>

theorem price_band_exact:
  assumes "price_ok p" "price_ok r"
  shows "(check_price_band p (Some r) = Inr () \<longleftrightarrow>
      \<bar>sint (as_ticks p) - sint (as_ticks r)\<bar> * 10000 \<le> sint (as_ticks r) * 500) \<and>
    check_price_band p None = Inr ()"
  using check_price_band_iff [OF assms] by (simp add: check_price_band_def)

theorem price_band_exact_witness:
  "check_price_band (Price 105) (Some (Price 100)) = Inr () \<and> check_price_band (Price 106) (Some (Price 100)) \<noteq> Inr ()"
  using price_band_exact [of "Price 105" "Price 100"] price_band_exact [of "Price 106" "Price 100"]
  by (simp add: price_ok_def)

section \<open>Account limits\<close>

text \<open>Notionals never wrap. For every valid price and quantity the 128-bit product is the exact
  product of ticks and lots.\<close>

lemma notional_exact:
  assumes "price_ok p" "qty_ok q"
  shows "int (unat (notional_of p q)) = sint (as_ticks p) * uint (as_lots q)"
proof -
  have "0 < sint (as_ticks p)" using assms(1) by (simp add: price_ok_def)
  then show ?thesis using unat_notional_of [OF assms(1), of q] by simp
qed

text \<open>C26: the pre-trade check and the booking agree. The account check passes exactly when booking
  the whole order would succeed, which is when the account has at most 999 open orders and the
  notional stays within ten billion; neither test can overflow.\<close>

theorem limit_check_agrees_with_booking:
  "(check_account_limits r a p q = Inr () \<longleftrightarrow> fst (on_order_resting a (notional_of p q) r) = Inr ()) \<and>
   (fst (on_order_resting a n r) = Inr () \<longleftrightarrow>
      unat (open_orders (acct r a)) + 1 \<le> 1000 \<and> unat (notional (acct r a)) + unat n \<le> 10000000000)"
  by (simp add: limits_fit resting_fits) (simp add: fits_def)

text \<open>C28: the account ledger is exact. A successful booking adds one open order and exactly the
  notional to the account, and releasing the same order afterwards restores every account; a refused
  booking changes no account. Any release takes one open order and its notional off, stopping at
  zero. Neither operation touches other accounts, the release leaves the kill switch and the last
  trade alone, and both keep every account within the caps.\<close>

theorem ledger_exact:
  assumes "risk_inv r" "on_order_resting a n r = (res, r')"
  shows "risk_inv r' \<and> (\<forall>a'. a' \<noteq> a \<longrightarrow> acct r' a' = acct r a') \<and>
    (case res of
       Inr _ \<Rightarrow> unat (open_orders (acct r' a)) = unat (open_orders (acct r a)) + 1 \<and>
               unat (notional (acct r' a)) = unat (notional (acct r a)) + unat n \<and>
               acct (on_order_removed a n r') = acct r
     | Inl e \<Rightarrow> acct r' a = acct r a \<and> (e = MaxOpenOrders \<or> e = MaxNotional)) \<and>
    released r a m (on_order_removed a m r)"
  using on_order_resting_inv [OF assms] on_order_resting_spec(1,2) [OF assms(2)]
    booked_released [OF assms(1)] assms(2) released_removed [OF assms(1)]
  by (auto split: sum.splits)

theorem ledger_exact_witness:
  "\<exists>r'. on_order_resting (AccountId 7) 505 RiskState_new = (Inr (), r') \<and>
     unat (notional (acct r' (AccountId 7))) = 505 \<and>
     acct (on_order_removed (AccountId 7) 505 r') = acct RiskState_new"
proof -
  have f: "fst (on_order_resting (AccountId 7) 505 RiskState_new) = Inr ()" by code_simp
  then obtain r' where r: "on_order_resting (AccountId 7) 505 RiskState_new = (Inr (), r')" by (metis prod.collapse)
  have "notional (acct RiskState_new (AccountId 7)) = 0"
    by (simp add: acct_def RiskState_new_def account_default_def)
  then show ?thesis using ledger_exact [OF RiskState_new_inv r] r by auto
qed

section \<open>Id generation\<close>

text \<open>Ids are consecutive. Drawing any number of trade ids or sequence numbers gives consecutive
  values from the counter on, advances only that counter, and panics exactly when the counter would
  have to pass its last value.\<close>

lemma ids_consecutive:
  "(case ids_run next_trade_id n g of
      Some (ts, g') \<Rightarrow> map (\<lambda>t. unat (trade_id_raw t)) ts = [unat (next_trade g) ..< unat (next_trade g) + n] \<and>
        unat (next_trade g') = unat (next_trade g) + n \<and> next_seq_raw g' = next_seq_raw g
    | None \<Rightarrow> 2 ^ 64 \<le> unat (next_trade g) + n) \<and>
   (case ids_run next_engine_seq n g of
      Some (ss, g') \<Rightarrow> map (\<lambda>s. unat (engine_seq_raw s)) ss = [unat (next_seq_raw g) ..< unat (next_seq_raw g) + n] \<and>
        unat (next_seq_raw g') = unat (next_seq_raw g) + n \<and> next_trade g' = next_trade g
    | None \<Rightarrow> 2 ^ 64 \<le> unat (next_seq_raw g) + n)"
proof (rule conjI)
  show "case ids_run next_trade_id n g of
      Some (ts, g') \<Rightarrow> map (\<lambda>t. unat (trade_id_raw t)) ts = [unat (next_trade g) ..< unat (next_trade g) + n] \<and>
        unat (next_trade g') = unat (next_trade g) + n \<and> next_seq_raw g' = next_seq_raw g
    | None \<Rightarrow> 2 ^ 64 \<le> unat (next_trade g) + n"
    using trade_ids.run_consecutive [of n g] trade_ids.run_total [of g n]
    by (cases "ids_run next_trade_id n g") fastforce+
  show "case ids_run next_engine_seq n g of
      Some (ss, g') \<Rightarrow> map (\<lambda>s. unat (engine_seq_raw s)) ss = [unat (next_seq_raw g) ..< unat (next_seq_raw g) + n] \<and>
        unat (next_seq_raw g') = unat (next_seq_raw g) + n \<and> next_trade g' = next_trade g
    | None \<Rightarrow> 2 ^ 64 \<le> unat (next_seq_raw g) + n"
    using engine_seqs.run_consecutive [of n g] engine_seqs.run_total [of g n]
    by (cases "ids_run next_engine_seq n g") fastforce+
qed

end
