(* ===== verification/Engine.thy ===== *)
theory Engine
  imports Match_Props Risk Marketdata Ports "HOL-Library.Monad_Syntax"
begin

text \<open>
  The single-writer engine (\<^verbatim>\<open>engine/src/engine.rs\<close>). The state is one record; every method that
  takes \<^verbatim>\<open>&mut self\<close> is a function from the state to the state, in the option monad, where \<open>None\<close>
  is a panic of the id generator or of the book. The clock is read through \<open>eng_clock_reads\<close>, the
  number of readings so far. \<^verbatim>\<open>self.ids\<close> is the \<^verbatim>\<open>CounterIdGenerator\<close>, \<^verbatim>\<open>self.sink\<close> the
  \<^verbatim>\<open>VecSink\<close>, which keeps what was published in order.
\<close>

section \<open>State\<close>

record registry_entry =
  re_account_id :: account_id
  re_side :: side
  re_qty :: qty
  re_notional :: u128

record 'l engine =
  eng_book :: "'l book"
  eng_risk :: risk_state
  eng_clock :: clock
  eng_clock_reads :: nat
  eng_ids :: counter_ids
  eng_sink :: vec_sink
  registry :: "order_id \<rightharpoonup> registry_entry"
  fills_buf :: "fill list"
  stp_buf :: "stp_cancellation list"
  mass_buf :: "mass_cancellation list"
  pre_step_levels :: "(side \<times> price \<times> u64) list"
  post_step_levels :: "(side \<times> price \<times> u64) list"

definition Engine_new :: "clock \<Rightarrow> counter_ids \<Rightarrow> vec_sink \<Rightarrow> 'l engine" where
  "Engine_new c ids sink =
     \<lparr>eng_book = Book_new, eng_risk = RiskState_new, eng_clock = c, eng_clock_reads = 0,
      eng_ids = ids, eng_sink = sink, registry = Map.empty, fills_buf = [], stp_buf = [],
      mass_buf = [], pre_step_levels = [], post_step_levels = []\<rparr>"

section \<open>Emission helpers\<close>

definition clock_now :: "'l engine \<Rightarrow> recv_ts \<times> 'l engine" where
  "clock_now e = (eng_clock e (eng_clock_reads e), e\<lparr>eng_clock_reads := Suc (eng_clock_reads e)\<rparr>)"

definition next_seq :: "'l engine \<Rightarrow> (engine_seq \<times> 'l engine) option" where
  "next_seq e = do {
     (s, ids') \<leftarrow> next_engine_seq (eng_ids e);
     Some (s, e\<lparr>eng_ids := ids'\<rparr>)
   }"

text \<open>The common shape of every emission: the fields of the message are evaluated in order, so
  the sequence number is drawn before the clock is read, and the message goes to the sink.\<close>

definition publish :: "(engine_seq \<Rightarrow> recv_ts \<Rightarrow> outbound) \<Rightarrow> 'l engine \<Rightarrow> 'l engine option" where
  "publish mk e = do {
     (s, e1) \<leftarrow> next_seq e;
     let (now, e2) = clock_now e1;
     Some (e2\<lparr>eng_sink := VecSink_emit (mk s now) (eng_sink e2)\<rparr>)
   }"

definition emit_rejected ::
  "order_id \<Rightarrow> account_id \<Rightarrow> reject_reason \<Rightarrow> recv_ts \<Rightarrow> 'l engine \<Rightarrow> 'l engine option" where
  "emit_rejected oid a reason recv =
     publish (\<lambda>s now. Out_ExecReport
       \<lparr>er_engine_seq = s, er_order_id = oid, er_account_id = a, er_state = Rejected,
        er_fill_price = None, er_fill_qty = None, er_leaves_qty = None,
        er_reject_reason = Some reason, er_cancel_reason = None, er_recv_ts = recv,
        er_emit_ts = now\<rparr>)"

definition emit_rejected_mass :: "account_id \<Rightarrow> reject_reason \<Rightarrow> recv_ts \<Rightarrow> 'l engine \<Rightarrow> 'l engine option" where
  "emit_rejected_mass a reason recv e = do {
     oid \<leftarrow> ok (OrderId_new 1);
     emit_rejected oid a reason recv e
   }"

definition emit_exec_report_accepted ::
  "order_id \<Rightarrow> account_id \<Rightarrow> qty \<Rightarrow> recv_ts \<Rightarrow> 'l engine \<Rightarrow> 'l engine option" where
  "emit_exec_report_accepted oid a leaves recv =
     publish (\<lambda>s now. Out_ExecReport
       \<lparr>er_engine_seq = s, er_order_id = oid, er_account_id = a, er_state = Accepted,
        er_fill_price = None, er_fill_qty = None, er_leaves_qty = Some leaves,
        er_reject_reason = None, er_cancel_reason = None, er_recv_ts = recv, er_emit_ts = now\<rparr>)"

definition emit_exec_report_cancelled ::
  "order_id \<Rightarrow> account_id \<Rightarrow> cancel_reason \<Rightarrow> recv_ts \<Rightarrow> 'l engine \<Rightarrow> 'l engine option" where
  "emit_exec_report_cancelled oid a reason recv =
     publish (\<lambda>s now. Out_ExecReport
       \<lparr>er_engine_seq = s, er_order_id = oid, er_account_id = a, er_state = Cancelled,
        er_fill_price = None, er_fill_qty = None, er_leaves_qty = None,
        er_reject_reason = None, er_cancel_reason = Some reason, er_recv_ts = recv,
        er_emit_ts = now\<rparr>)"

definition emit_exec_report_replaced ::
  "order_id \<Rightarrow> account_id \<Rightarrow> qty \<Rightarrow> recv_ts \<Rightarrow> 'l engine \<Rightarrow> 'l engine option" where
  "emit_exec_report_replaced oid a new_qty recv =
     publish (\<lambda>s now. Out_ExecReport
       \<lparr>er_engine_seq = s, er_order_id = oid, er_account_id = a, er_state = Replaced,
        er_fill_price = None, er_fill_qty = None, er_leaves_qty = Some new_qty,
        er_reject_reason = None, er_cancel_reason = Some CR_Replaced, er_recv_ts = recv,
        er_emit_ts = now\<rparr>)"

definition emit_exec_report_fill ::
  "order_id \<Rightarrow> account_id \<Rightarrow> exec_state \<Rightarrow> price \<Rightarrow> qty \<Rightarrow> qty option \<Rightarrow> recv_ts \<Rightarrow>
   'l engine \<Rightarrow> 'l engine option" where
  "emit_exec_report_fill oid a st fp fq leaves recv =
     publish (\<lambda>s now. Out_ExecReport
       \<lparr>er_engine_seq = s, er_order_id = oid, er_account_id = a, er_state = st,
        er_fill_price = Some fp, er_fill_qty = Some fq, er_leaves_qty = leaves,
        er_reject_reason = None, er_cancel_reason = None, er_recv_ts = recv, er_emit_ts = now\<rparr>)"

definition emit_trade_print_for_fill :: "fill \<Rightarrow> side \<Rightarrow> recv_ts \<Rightarrow> 'l engine \<Rightarrow> 'l engine option" where
  "emit_trade_print_for_fill f aggressor_side recv =
     publish (\<lambda>s now. Out_TradePrint
       \<lparr>tp_engine_seq = s, tp_trade_id = f_trade_id f, tp_price = f_price f, tp_qty = f_qty f,
        tp_aggressor_side = aggressor_side, tp_emit_ts = now\<rparr>)"

definition qty_at :: "'l pl_api \<Rightarrow> 'l book \<Rightarrow> side \<Rightarrow> price \<Rightarrow> u64" where
  "qty_at api b s p = (case s of Bid \<Rightarrow> side_qty api b Bid | Ask \<Rightarrow> side_qty api b Ask)"

definition emit_book_update_top :: "'l pl_api \<Rightarrow> recv_ts \<Rightarrow> 'l engine \<Rightarrow> 'l engine option" where
  "emit_book_update_top api recv e =
     (let b = eng_book e;
          bid = map_option (\<lambda>p. (p, unwrap_or (ok (Qty_new (qty_at api b Bid p))) Qty_MIN)) (best_bid b);
          ask = map_option (\<lambda>p. (p, unwrap_or (ok (Qty_new (qty_at api b Ask p))) Qty_MIN)) (best_ask b)
      in publish (\<lambda>s now. Out_BookUpdateTop
           \<lparr>bt_engine_seq = s, bt_bid = bid, bt_ask = ask, bt_emit_ts = now\<rparr>) e)"

section \<open>L2 deltas\<close>

definition capture_levels :: "'l pl_api \<Rightarrow> 'l book \<Rightarrow> (side \<times> price \<times> u64) list" where
  "capture_levels api b =
     rev (map (\<lambda>(p, q). (Bid, p, q)) (bid_levels api b)) @ map (\<lambda>(p, q). (Ask, p, q)) (ask_levels api b)"

definition capture_pre_step_levels :: "'l pl_api \<Rightarrow> 'l engine \<Rightarrow> 'l engine" where
  "capture_pre_step_levels api e = e\<lparr>pre_step_levels := capture_levels api (eng_book e)\<rparr>"

definition capture_post_step_levels :: "'l pl_api \<Rightarrow> 'l engine \<Rightarrow> 'l engine" where
  "capture_post_step_levels api e = e\<lparr>post_step_levels := capture_levels api (eng_book e)\<rparr>"

definition emit_l2_delta :: "side \<Rightarrow> price \<Rightarrow> u64 \<Rightarrow> recv_ts \<Rightarrow> 'l engine \<Rightarrow> 'l engine option" where
  "emit_l2_delta s p n recv =
     (let nq = (if n = 0 then None else ok (Qty_new n))
      in publish (\<lambda>sq now. Out_BookUpdateL2Delta
           \<lparr>bd_engine_seq = sq, bd_price = p, bd_new_qty = nq, bd_side = s, bd_emit_ts = now\<rparr>))"

text \<open>The order on the keys \<^verbatim>\<open>(side.as_u8(), price)\<close>.\<close>

definition key_less :: "side \<times> price \<Rightarrow> side \<times> price \<Rightarrow> bool" where
  "key_less k k' \<longleftrightarrow>
     side_as_u8 (fst k) < side_as_u8 (fst k') \<or>
     side_as_u8 (fst k) = side_as_u8 (fst k') \<and> snd k < snd k'"

text \<open>The two-pointer loop; the lists are the suffixes from the two indices on.\<close>

fun emit_l2_merge ::
  "(side \<times> price \<times> u64) list \<Rightarrow> (side \<times> price \<times> u64) list \<Rightarrow> recv_ts \<Rightarrow>
   'l engine \<Rightarrow> 'l engine option" where
  "emit_l2_merge [] [] recv e = Some e"
| "emit_l2_merge ((s, p, q) # pre) [] recv e = do {
     e \<leftarrow> emit_l2_delta s p 0 recv e;
     emit_l2_merge pre [] recv e
   }"
| "emit_l2_merge [] ((s', p', q') # post) recv e = do {
     e \<leftarrow> emit_l2_delta s' p' q' recv e;
     emit_l2_merge [] post recv e
   }"
| "emit_l2_merge ((s, p, q) # pre) ((s', p', q') # post) recv e =
     (if side_as_u8 s = side_as_u8 s' \<and> p = p' then do {
        e \<leftarrow> (if q \<noteq> q' then emit_l2_delta s' p' q' recv e else Some e);
        emit_l2_merge pre post recv e
      }
      else if key_less (s, p) (s', p') then do {
        e \<leftarrow> emit_l2_delta s p 0 recv e;
        emit_l2_merge pre ((s', p', q') # post) recv e
      }
      else do {
        e \<leftarrow> emit_l2_delta s' p' q' recv e;
        emit_l2_merge ((s, p, q) # pre) post recv e
      })"

definition emit_l2_deltas :: "recv_ts \<Rightarrow> 'l engine \<Rightarrow> 'l engine option" where
  "emit_l2_deltas recv e = emit_l2_merge (pre_step_levels e) (post_step_levels e) recv e"

section \<open>Snapshot\<close>

definition snapshot_levels :: "(price \<times> u64) list \<Rightarrow> level list" where
  "snapshot_levels ls =
     List.map_filter (\<lambda>(p, q). map_option (\<lambda>q'. \<lparr>lv_price = p, lv_qty = q'\<rparr>) (ok (Qty_new q)))
       (filter (\<lambda>(p, q). q > 0) ls)"

definition handle_snapshot_request ::
  "'l pl_api \<Rightarrow> snapshot_request \<Rightarrow> recv_ts \<Rightarrow> 'l engine \<Rightarrow> 'l engine option" where
  "handle_snapshot_request api msg recv e =
     (let bids = snapshot_levels (bid_levels api (eng_book e));
          asks = snapshot_levels (ask_levels api (eng_book e))
      in publish (\<lambda>s now. Out_SnapshotResponse
           \<lparr>sp_engine_seq = s, sp_request_id = sr_request_id msg, sp_recv_ts = recv,
            sp_emit_ts = now, sp_bids = bids, sp_asks = asks\<rparr>) e)"

section \<open>Per-fill and per-cancel emission\<close>

text \<open>\<^verbatim>\<open>if let Some(entry) = self.registry.remove(&id) { self.risk.on_order_removed(..) }\<close>\<close>

definition unregister :: "order_id \<Rightarrow> 'l engine \<Rightarrow> 'l engine" where
  "unregister oid e =
     (case registry e oid of
        None \<Rightarrow> e
      | Some entry \<Rightarrow>
          e\<lparr>registry := (registry e)(oid := None),
            eng_risk := on_order_removed (re_account_id entry) (re_notional entry) (eng_risk e)\<rparr>)"

text \<open>The maker's book-keeping at the end of the fill loop's body.\<close>

definition settle_maker :: "fill \<Rightarrow> 'l engine \<Rightarrow> 'l engine" where
  "settle_maker f e0 =
     (let e = e0\<lparr>eng_risk := on_fill (f_price f) (eng_risk e0)\<rparr>
      in if f_maker_fully_filled f then unregister (f_maker_order_id f) e
         else case registry e (f_maker_order_id f) of
                None \<Rightarrow> e
              | Some entry \<Rightarrow>
                  let consumed_notional = notional_of (f_price f) (f_qty f);
                      new_notional = saturating_sub (re_notional entry) consumed_notional;
                      new_qty_lots = saturating_sub (as_lots (re_qty entry)) (as_lots (f_qty f));
                      risk' = on_order_removed (re_account_id entry) consumed_notional (eng_risk e);
                      entry1 = entry\<lparr>re_notional := new_notional\<rparr>;
                      entry2 = (case Qty_new new_qty_lots of
                                  Inr q \<Rightarrow> entry1\<lparr>re_qty := q\<rparr> | Inl _ \<Rightarrow> entry1)
                  in e\<lparr>eng_risk := risk', registry := (registry e)(f_maker_order_id f \<mapsto> entry2)\<rparr>)"

definition emit_fill ::
  "order_id \<Rightarrow> account_id \<Rightarrow> recv_ts \<Rightarrow> u64 \<Rightarrow> fill \<Rightarrow> 'l engine \<Rightarrow> 'l engine option" where
  "emit_fill taker_oid taker_account recv taker_remaining_lots f e = do {
     e \<leftarrow> emit_trade_print_for_fill f (opposite (f_maker_side f)) recv e;
     let maker_acct = unwrap_or (map_option re_account_id (registry e (f_maker_order_id f))) taker_account;
     let maker_state = (if f_maker_fully_filled f then Filled else PartiallyFilled);
     let maker_leaves =
       (if f_maker_fully_filled f then None
        else (case registry e (f_maker_order_id f) of
                None \<Rightarrow> None
              | Some r \<Rightarrow> ok (Qty_new (saturating_sub (as_lots (re_qty r)) (as_lots (f_qty f))))));
     e \<leftarrow> emit_exec_report_fill (f_maker_order_id f) maker_acct maker_state (f_price f) (f_qty f)
            maker_leaves recv e;
     let taker_state = (if taker_remaining_lots = 0 then Filled else PartiallyFilled);
     let taker_leaves = (if taker_remaining_lots = 0 then None else ok (Qty_new taker_remaining_lots));
     e \<leftarrow> emit_exec_report_fill taker_oid taker_account taker_state (f_price f) (f_qty f)
            taker_leaves recv e;
     Some (settle_maker f e)
   }"

fun emit_fills_loop ::
  "order_id \<Rightarrow> account_id \<Rightarrow> recv_ts \<Rightarrow> u64 \<Rightarrow> fill list \<Rightarrow> 'l engine \<Rightarrow> 'l engine option" where
  "emit_fills_loop taker_oid taker_account recv remaining [] e = Some e"
| "emit_fills_loop taker_oid taker_account recv remaining (f # fs) e =
     (let remaining' = saturating_sub remaining (as_lots (f_qty f))
      in do {
        e \<leftarrow> emit_fill taker_oid taker_account recv remaining' f e;
        emit_fills_loop taker_oid taker_account recv remaining' fs e
      })"

definition emit_fills_for_taker ::
  "order_id \<Rightarrow> account_id \<Rightarrow> qty \<Rightarrow> recv_ts \<Rightarrow> 'l engine \<Rightarrow> 'l engine option" where
  "emit_fills_for_taker taker_oid taker_account taker_qty recv e =
     emit_fills_loop taker_oid taker_account recv (as_lots taker_qty) (fills_buf e) e"

fun emit_stp_loop :: "recv_ts \<Rightarrow> stp_cancellation list \<Rightarrow> 'l engine \<Rightarrow> 'l engine option" where
  "emit_stp_loop recv [] e = Some e"
| "emit_stp_loop recv (c # cs) e = do {
     e \<leftarrow> emit_exec_report_cancelled (sc_order_id c) (sc_account_id c) CR_SelfTradePrevented recv e;
     emit_stp_loop recv cs (unregister (sc_order_id c) e)
   }"

definition emit_stp_cancels :: "recv_ts \<Rightarrow> 'l engine \<Rightarrow> 'l engine option" where
  "emit_stp_cancels recv e = emit_stp_loop recv (stp_buf e) e"

section \<open>Handlers\<close>

text \<open>The residual of a new order with a limit price: risk first, then the book.\<close>

definition rest_new_order :: "'l pl_api \<Rightarrow> new_order \<Rightarrow> price \<Rightarrow> qty \<Rightarrow> recv_ts \<Rightarrow> 'l engine \<Rightarrow> 'l engine option" where
  "rest_new_order api msg p remaining recv e =
     (let resting = \<lparr>ro_order_id = no_order_id msg, ro_account_id = no_account_id msg,
                     ro_side = no_side msg, ro_price = p, ro_qty = remaining, ro_tif = no_tif msg\<rparr>;
          resting_notional = notional_of p remaining
      in case on_order_resting (no_account_id msg) resting_notional (eng_risk e) of
           (Inl reason, risk') \<Rightarrow>
             emit_rejected (no_order_id msg) (no_account_id msg) reason recv (e\<lparr>eng_risk := risk'\<rparr>)
         | (Inr _, risk') \<Rightarrow>
             (let e1 = e\<lparr>eng_risk := risk'\<rparr>
              in case add_resting api (eng_book e1) resting of
                   (Inr _, b') \<Rightarrow>
                     emit_exec_report_accepted (no_order_id msg) (no_account_id msg) remaining recv
                       (e1\<lparr>eng_book := b', registry := (registry e1)(no_order_id msg \<mapsto>
                             \<lparr>re_account_id = no_account_id msg, re_side = no_side msg,
                              re_qty = remaining, re_notional = resting_notional\<rparr>)\<rparr>)
                 | (Inl _, b') \<Rightarrow>
                     emit_rejected (no_order_id msg) (no_account_id msg) DuplicateOrderId recv
                       (e1\<lparr>eng_book := b',
                          eng_risk := on_order_removed (no_account_id msg) resting_notional (eng_risk e1)\<rparr>)))"

definition dispose_new_order ::
  "'l pl_api \<Rightarrow> new_order \<Rightarrow> match_result \<Rightarrow> recv_ts \<Rightarrow> 'l engine \<Rightarrow> 'l engine option" where
  "dispose_new_order api msg result recv e =
     (if mr_taker_stp_cancelled result then
        emit_exec_report_cancelled (no_order_id msg) (no_account_id msg) CR_SelfTradePrevented recv e
      else case mr_taker_remaining result of
        None \<Rightarrow> Some e
      | Some remaining \<Rightarrow>
          (case (no_tif msg, no_price msg) of
             (Ioc, _) \<Rightarrow>
               emit_exec_report_cancelled (no_order_id msg) (no_account_id msg) CR_IocRemaining recv e
           | (_, Some p) \<Rightarrow> rest_new_order api msg p remaining recv e
           | (_, None) \<Rightarrow>
               emit_exec_report_cancelled (no_order_id msg) (no_account_id msg) CR_IocRemaining recv e))"

definition handle_new_order ::
  "'l pl_api \<Rightarrow> new_order \<Rightarrow> recv_ts \<Rightarrow> 'l engine \<Rightarrow> 'l engine option" where
  "handle_new_order api msg recv e =
     (let best_opp = best_opposite (no_side msg) (eng_book e)
      in case check_new_order (eng_risk e) msg best_opp of
           Inl reason \<Rightarrow> emit_rejected (no_order_id msg) (no_account_id msg) reason recv e
         | Inr _ \<Rightarrow>
             if kill_switch (eng_risk e)
             then emit_rejected (no_order_id msg) (no_account_id msg) KillSwitched recv e
             else do {
               let aggressive = \<lparr>ao_order_id = no_order_id msg, ao_account_id = no_account_id msg,
                                 ao_side = no_side msg, ao_price = no_price msg,
                                 ao_qty = no_qty msg, ao_tif = no_tif msg\<rparr>;
               (result, b', ids', fills, stps) \<leftarrow>
                 match_aggressive api next_trade_id (eng_book e) aggressive (eng_ids e) [] [];
               let e = e\<lparr>eng_book := b', eng_ids := ids', fills_buf := fills, stp_buf := stps\<rparr>;
               if mr_taker_post_only_rejected result
               then emit_rejected (no_order_id msg) (no_account_id msg) PostOnlyWouldCross recv e
               else do {
                 e \<leftarrow> emit_fills_for_taker (no_order_id msg) (no_account_id msg) (no_qty msg) recv e;
                 e \<leftarrow> emit_stp_cancels recv e;
                 dispose_new_order api msg result recv e
               }
             })"

definition handle_cancel_order ::
  "'l pl_api \<Rightarrow> cancel_order \<Rightarrow> recv_ts \<Rightarrow> 'l engine \<Rightarrow> 'l engine option" where
  "handle_cancel_order api msg recv e =
     (case check_cancel (eng_risk e) msg of
        Inl reason \<Rightarrow> emit_rejected (co_order_id msg) (co_account_id msg) reason recv e
      | Inr _ \<Rightarrow>
          if kill_switch (eng_risk e)
          then emit_rejected (co_order_id msg) (co_account_id msg) KillSwitched recv e
          else if (case registry e (co_order_id msg) of
                     Some entry \<Rightarrow> re_account_id entry \<noteq> co_account_id msg | None \<Rightarrow> False)
          then emit_rejected (co_order_id msg) (co_account_id msg) UnknownOrderId recv e
          else (case cancel api (eng_book e) (co_order_id msg) of
                  (Inr _, b') \<Rightarrow>
                    emit_exec_report_cancelled (co_order_id msg) (co_account_id msg) CR_UserRequested recv
                      (unregister (co_order_id msg) (e\<lparr>eng_book := b'\<rparr>))
                | (Inl _, b') \<Rightarrow>
                    emit_rejected (co_order_id msg) (co_account_id msg) UnknownOrderId recv
                      (e\<lparr>eng_book := b'\<rparr>)))"

text \<open>What happens to the repriced order once the replace is acknowledged.\<close>

definition dispose_replace ::
  "'l pl_api \<Rightarrow> cancel_replace \<Rightarrow> registry_entry option \<Rightarrow> match_result option \<Rightarrow> recv_ts \<Rightarrow>
   'l engine \<Rightarrow> 'l engine option" where
  "dispose_replace api msg old_entry match_res recv e =
     (let (taker_stp_cancelled, taker_remaining) =
            (case match_res of
               Some r \<Rightarrow> (mr_taker_stp_cancelled r, mr_taker_remaining r)
             | None \<Rightarrow> (False, Some (cr_new_qty msg)))
      in if taker_stp_cancelled then
           emit_exec_report_cancelled (cr_order_id msg) (cr_account_id msg) CR_SelfTradePrevented recv e
         else case taker_remaining of
           None \<Rightarrow> Some e
         | Some remaining \<Rightarrow>
             (let resting_notional = notional_of (cr_new_price msg) remaining
              in case on_order_resting (cr_account_id msg) resting_notional (eng_risk e) of
                   (Inl reason, risk') \<Rightarrow>
                     emit_rejected (cr_order_id msg) (cr_account_id msg) reason recv
                       (e\<lparr>eng_risk := risk', eng_book := snd (cancel api (eng_book e) (cr_order_id msg))\<rparr>)
                 | (Inr _, risk') \<Rightarrow>
                     Some (e\<lparr>eng_risk := risk', registry := (registry e)(cr_order_id msg \<mapsto>
                             \<lparr>re_account_id = cr_account_id msg,
                              re_side = unwrap_or (map_option re_side old_entry) Bid,
                              re_qty = remaining, re_notional = resting_notional\<rparr>)\<rparr>)))"

text \<open>From the committed replace on: refund the old incarnation, acknowledge, report the trades.\<close>

definition commit_replace ::
  "'l pl_api \<Rightarrow> cancel_replace \<Rightarrow> registry_entry option \<Rightarrow> match_result option \<Rightarrow> recv_ts \<Rightarrow>
   'l engine \<Rightarrow> 'l engine option" where
  "commit_replace api msg old_entry match_res recv e0 = do {
     let e = (case old_entry of
                Some entry \<Rightarrow> e0\<lparr>eng_risk := on_order_removed (re_account_id entry) (re_notional entry) (eng_risk e0)\<rparr>
              | None \<Rightarrow> e0);
     let e = e\<lparr>registry := (registry e)(cr_order_id msg := None)\<rparr>;
     e \<leftarrow> emit_exec_report_replaced (cr_order_id msg) (cr_account_id msg) (cr_new_qty msg) recv e;
     e \<leftarrow> emit_fills_for_taker (cr_order_id msg) (cr_account_id msg) (cr_new_qty msg) recv e;
     e \<leftarrow> emit_stp_cancels recv e;
     dispose_replace api msg old_entry match_res recv e
   }"

definition conclude_replace ::
  "'l pl_api \<Rightarrow> cancel_replace \<Rightarrow> registry_entry option \<Rightarrow> book_error + replace_outcome \<Rightarrow> recv_ts \<Rightarrow>
   'l engine \<Rightarrow> 'l engine option" where
  "conclude_replace api msg old_entry outcome recv e =
     (case outcome of
        Inl _ \<Rightarrow> emit_rejected (cr_order_id msg) (cr_account_id msg) UnknownOrderId recv e
      | Inr replaced \<Rightarrow>
          if (case rp_match_result replaced of
                Some r \<Rightarrow> mr_taker_post_only_rejected r | None \<Rightarrow> False)
          then emit_rejected (cr_order_id msg) (cr_account_id msg) PostOnlyWouldCross recv e
          else commit_replace api msg old_entry (rp_match_result replaced) recv e)"

definition handle_cancel_replace ::
  "'l pl_api \<Rightarrow> cancel_replace \<Rightarrow> recv_ts \<Rightarrow> 'l engine \<Rightarrow> 'l engine option" where
  "handle_cancel_replace api msg recv e =
     (case check_cancel_replace (eng_risk e) msg of
        Inl reason \<Rightarrow> emit_rejected (cr_order_id msg) (cr_account_id msg) reason recv e
      | Inr _ \<Rightarrow>
          if kill_switch (eng_risk e)
          then emit_rejected (cr_order_id msg) (cr_account_id msg) KillSwitched recv e
          else
            let old_entry = registry e (cr_order_id msg)
            in if (case old_entry of
                     Some entry \<Rightarrow> re_account_id entry \<noteq> cr_account_id msg | None \<Rightarrow> False)
               then emit_rejected (cr_order_id msg) (cr_account_id msg) UnknownOrderId recv e
               else do {
                 (outcome, b', ids', fills, stps) \<leftarrow>
                   replace api next_trade_id (eng_book e) (cr_order_id msg) (cr_new_price msg)
                     (cr_new_qty msg) (eng_ids e) [] [];
                 let e = e\<lparr>eng_book := b', eng_ids := ids', fills_buf := fills, stp_buf := stps\<rparr>;
                 conclude_replace api msg old_entry outcome recv e
               })"

fun emit_mass_loop :: "recv_ts \<Rightarrow> mass_cancellation list \<Rightarrow> 'l engine \<Rightarrow> 'l engine option" where
  "emit_mass_loop recv [] e = Some e"
| "emit_mass_loop recv (mc # mcs) e = do {
     e \<leftarrow> emit_exec_report_cancelled (mc_order_id mc) (mc_account_id mc) CR_MassCancel recv
            (unregister (mc_order_id mc) e);
     emit_mass_loop recv mcs e
   }"

definition handle_mass_cancel ::
  "'l pl_api \<Rightarrow> mass_cancel_msg \<Rightarrow> recv_ts \<Rightarrow> 'l engine \<Rightarrow> 'l engine option" where
  "handle_mass_cancel api msg recv e =
     (case check_mass_cancel (eng_risk e) msg of
        Inl reason \<Rightarrow> emit_rejected_mass (mx_account_id msg) reason recv e
      | Inr _ \<Rightarrow>
          if kill_switch (eng_risk e)
          then emit_rejected_mass (mx_account_id msg) KillSwitched recv e
          else (case mass_cancel api (eng_book e) (mx_account_id msg) [] of
                  (_, b', buf) \<Rightarrow> emit_mass_loop recv buf (e\<lparr>eng_book := b', mass_buf := buf\<rparr>)))"

definition handle_kill_switch :: "kill_switch_set \<Rightarrow> 'l engine \<Rightarrow> 'l engine" where
  "handle_kill_switch msg e =
     (let engaged = (case ks_state msg of Halt \<Rightarrow> True | Resume \<Rightarrow> False)
      in e\<lparr>eng_risk := set_kill_switch engaged (eng_risk e)\<rparr>)"

section \<open>One step\<close>

fun emit_book_changes :: "inbound \<Rightarrow> bool" where
  "emit_book_changes (In_KillSwitchSet _) = False"
| "emit_book_changes (In_SnapshotRequest _) = False"
| "emit_book_changes _ = True"

fun dispatch :: "'l pl_api \<Rightarrow> inbound \<Rightarrow> recv_ts \<Rightarrow> 'l engine \<Rightarrow> 'l engine option" where
  "dispatch api (In_NewOrder msg) recv e = handle_new_order api msg recv e"
| "dispatch api (In_CancelOrder msg) recv e = handle_cancel_order api msg recv e"
| "dispatch api (In_CancelReplace msg) recv e = handle_cancel_replace api msg recv e"
| "dispatch api (In_MassCancel msg) recv e = handle_mass_cancel api msg recv e"
| "dispatch api (In_KillSwitchSet msg) recv e = Some (handle_kill_switch msg e)"
| "dispatch api (In_SnapshotRequest msg) recv e = handle_snapshot_request api msg recv e"

definition emit_tail :: "'l pl_api \<Rightarrow> recv_ts \<Rightarrow> 'l engine \<Rightarrow> 'l engine option" where
  "emit_tail api recv e = do {
     e \<leftarrow> emit_l2_deltas recv (capture_post_step_levels api e);
     emit_book_update_top api recv e
   }"

definition step :: "'l pl_api \<Rightarrow> inbound \<Rightarrow> 'l engine \<Rightarrow> 'l engine option" where
  "step api msg e0 =
     (let (recv, e) = clock_now e0;
          changes = emit_book_changes msg;
          e = (if changes then capture_pre_step_levels api e else e)
      in do {
        e \<leftarrow> dispatch api msg recv e;
        if changes then emit_tail api recv e else Some e
      })"

text \<open>The sequence of commands the single writer drains, in order.\<close>

fun run_steps :: "'l pl_api \<Rightarrow> inbound list \<Rightarrow> 'l engine \<Rightarrow> 'l engine option" where
  "run_steps api [] e = Some e"
| "run_steps api (m # ms) e = do { e \<leftarrow> step api m e; run_steps api ms e }"

end
