(* ===== verification/Engine_Seq.thy ===== *)
theory Engine_Seq
  imports Engine
begin

text \<open>
  The outbound stream. Whatever the levels do, every step appends messages to the sink and numbers
  them with consecutive values of the engine counter: no gap, no repetition, no message out of
  order. The matching core draws trade ids from the same generator and leaves the sequence counter
  alone.
\<close>

section \<open>Sequence numbers of a stream\<close>

primrec outbound_seq :: "outbound \<Rightarrow> engine_seq" where
  "outbound_seq (Out_ExecReport r) = er_engine_seq r"
| "outbound_seq (Out_TradePrint t) = tp_engine_seq t"
| "outbound_seq (Out_BookUpdateTop b) = bt_engine_seq b"
| "outbound_seq (Out_BookUpdateL2Delta d) = bd_engine_seq d"
| "outbound_seq (Out_SnapshotResponse s) = sp_engine_seq s"

definition seq_no :: "'l engine \<Rightarrow> nat" where
  "seq_no e = unat (next_seq_raw (eng_ids e))"

definition stream :: "'l engine \<Rightarrow> outbound list" where
  "stream e = events (eng_sink e)"

definition seq_numbers :: "outbound list \<Rightarrow> nat list" where
  "seq_numbers msgs = map (\<lambda>m. unat (engine_seq_raw (outbound_seq m))) msgs"

text \<open>\<open>emits msgs e e'\<close>: the step from \<open>e\<close> to \<open>e'\<close> published exactly \<open>msgs\<close>.\<close>

definition emits :: "outbound list \<Rightarrow> 'l engine \<Rightarrow> 'l engine \<Rightarrow> bool" where
  "emits msgs e e' \<longleftrightarrow>
     stream e' = stream e @ msgs \<and> seq_numbers msgs = [seq_no e ..< seq_no e + length msgs] \<and>
     seq_no e' = seq_no e + length msgs"

text \<open>The part of the state an emission does not touch.\<close>

definition same_core :: "'l engine \<Rightarrow> 'l engine \<Rightarrow> bool" where
  "same_core e e' \<longleftrightarrow>
     eng_book e' = eng_book e \<and> eng_risk e' = eng_risk e \<and> registry e' = registry e \<and>
     fills_buf e' = fills_buf e \<and> stp_buf e' = stp_buf e \<and> mass_buf e' = mass_buf e \<and>
     pre_step_levels e' = pre_step_levels e \<and> post_step_levels e' = post_step_levels e \<and>
     next_trade (eng_ids e') = next_trade (eng_ids e) \<and> eng_clock e' = eng_clock e"

lemma same_core_refl [simp]: "same_core e e"
  by (simp add: same_core_def)

lemma same_core_trans [trans]: "same_core e1 e2 \<Longrightarrow> same_core e2 e3 \<Longrightarrow> same_core e1 e3"
  by (simp add: same_core_def)

lemma emits_nil [simp]: "emits [] e e"
  by (simp add: emits_def seq_numbers_def)

lemma emits_quiet:
  "eng_ids e' = eng_ids e \<Longrightarrow> eng_sink e' = eng_sink e \<Longrightarrow> emits [] e e'"
  by (simp add: emits_def seq_numbers_def stream_def seq_no_def)

lemma emits_trans:
  assumes "emits ms1 e1 e2" "emits ms2 e2 e3"
  shows "emits (ms1 @ ms2) e1 e3"
proof -
  have "[seq_no e1 ..< seq_no e1 + length (ms1 @ ms2)] =
      [seq_no e1 ..< seq_no e2] @ [seq_no e2 ..< seq_no e2 + length ms2]"
    using assms upt_add_eq_append [of "seq_no e1" "seq_no e1 + length ms1" "length ms2"]
    by (simp add: emits_def add.assoc)
  then show ?thesis using assms by (simp add: emits_def seq_numbers_def)
qed

text \<open>A stretch of messages all of which are of one kind, under one capture of the levels.\<close>

definition emits_some :: "(outbound \<Rightarrow> bool) \<Rightarrow> 'l engine \<Rightarrow> 'l engine \<Rightarrow> bool" where
  "emits_some P e e' \<longleftrightarrow>
     (\<exists>msgs. emits msgs e e' \<and> list_all P msgs) \<and> pre_step_levels e' = pre_step_levels e"

fun is_report :: "outbound \<Rightarrow> bool" where
  "is_report (Out_ExecReport _) = True"
| "is_report (Out_TradePrint _) = True"
| "is_report _ = False"

lemma emits_someI:
  "emits msgs e e' \<Longrightarrow> list_all P msgs \<Longrightarrow> pre_step_levels e' = pre_step_levels e \<Longrightarrow> emits_some P e e'"
  by (auto simp: emits_some_def)

lemma emits_some_refl [simp]: "emits_some P e e"
  by (rule emits_someI [OF emits_nil]) simp_all

lemma emits_some_trans [trans]: "emits_some P e1 e2 \<Longrightarrow> emits_some P e2 e3 \<Longrightarrow> emits_some P e1 e3"
  unfolding emits_some_def by (metis emits_trans list_all_append)

lemma emits_some_mono: "emits_some P e e' \<Longrightarrow> (\<And>m. P m \<Longrightarrow> Q m) \<Longrightarrow> emits_some Q e e'"
  unfolding emits_some_def using list.pred_mono_strong by metis

lemma emits_some_quiet:
  "next_seq_raw (eng_ids e') = next_seq_raw (eng_ids e) \<Longrightarrow> eng_sink e' = eng_sink e \<Longrightarrow>
   pre_step_levels e' = pre_step_levels e \<Longrightarrow> emits_some P e e'"
  by (rule emits_someI [of "[]"]) (simp_all add: emits_def seq_numbers_def stream_def seq_no_def)

lemma emits_some_frame [simp]:
  "emits_some P (e\<lparr>eng_book := x_eng_book\<rparr>) e' = emits_some P e e'"
  "emits_some P e (e'\<lparr>eng_book := x_eng_book\<rparr>) = emits_some P e e'"
  "emits_some P (e\<lparr>eng_risk := x_eng_risk\<rparr>) e' = emits_some P e e'"
  "emits_some P e (e'\<lparr>eng_risk := x_eng_risk\<rparr>) = emits_some P e e'"
  "emits_some P (e\<lparr>registry := x_registry\<rparr>) e' = emits_some P e e'"
  "emits_some P e (e'\<lparr>registry := x_registry\<rparr>) = emits_some P e e'"
  "emits_some P (e\<lparr>fills_buf := x_fills_buf\<rparr>) e' = emits_some P e e'"
  "emits_some P e (e'\<lparr>fills_buf := x_fills_buf\<rparr>) = emits_some P e e'"
  "emits_some P (e\<lparr>stp_buf := x_stp_buf\<rparr>) e' = emits_some P e e'"
  "emits_some P e (e'\<lparr>stp_buf := x_stp_buf\<rparr>) = emits_some P e e'"
  "emits_some P (e\<lparr>mass_buf := x_mass_buf\<rparr>) e' = emits_some P e e'"
  "emits_some P e (e'\<lparr>mass_buf := x_mass_buf\<rparr>) = emits_some P e e'"
  "emits_some P (e\<lparr>post_step_levels := x_post_step_levels\<rparr>) e' = emits_some P e e'"
  "emits_some P e (e'\<lparr>post_step_levels := x_post_step_levels\<rparr>) = emits_some P e e'"
  "emits_some P (e\<lparr>eng_clock_reads := x_eng_clock_reads\<rparr>) e' = emits_some P e e'"
  "emits_some P e (e'\<lparr>eng_clock_reads := x_eng_clock_reads\<rparr>) = emits_some P e e'"
  by (simp_all add: emits_some_def emits_def stream_def seq_no_def)

section \<open>Publishing\<close>

lemma publish_spec:
  assumes "publish mk e = Some e'" "\<And>s now. outbound_seq (mk s now) = s"
  shows "\<exists>s now. emits [mk s now] e e'" "same_core e e'"
proof -
  obtain s ids' where n: "next_engine_seq (eng_ids e) = Some (s, ids')"
    and e': "e' = e\<lparr>eng_ids := ids', eng_clock_reads := Suc (eng_clock_reads e),
      eng_sink := VecSink_emit (mk s (eng_clock e (eng_clock_reads e))) (eng_sink e)\<rparr>"
    using assms(1) by (auto simp: publish_def next_seq_def clock_now_def Option.bind_eq_Some_conv)
  show "\<exists>s now. emits [mk s now] e e'"
    using engine_seqs.next_id_Some [OF n] assms(2)
    by (intro exI [of _ s] exI [of _ "eng_clock e (eng_clock_reads e)"])
      (simp add: emits_def e' stream_def VecSink_emit_def seq_numbers_def seq_no_def)
  show "same_core e e'"
    using engine_seqs.next_id_Some [OF n] by (simp add: same_core_def e')
qed

lemma publish_total:
  assumes "Suc (seq_no e) < 2 ^ 64"
  shows "\<exists>e'. publish mk e = Some e'"
proof (cases "next_engine_seq (eng_ids e)")
  case None
  then show ?thesis using engine_seqs.next_id_None [of "eng_ids e"] assms by (simp add: seq_no_def)
next
  case (Some r)
  then show ?thesis by (cases r) (simp add: publish_def next_seq_def clock_now_def)
qed

lemmas emit_defs =
  emit_rejected_def emit_exec_report_accepted_def emit_exec_report_cancelled_def
  emit_exec_report_replaced_def emit_exec_report_fill_def emit_trade_print_for_fill_def
  emit_l2_delta_def emit_book_update_top_def handle_snapshot_request_def Let_def

lemma emit_rejected_mass_eq: "emit_rejected_mass a reason recv = emit_rejected (OrderId 1) a reason recv"
  by (rule ext) (simp add: emit_rejected_mass_def OrderId_new_def)

section \<open>Trade ids\<close>

text \<open>The fills of a walk carry consecutive draws of the generator, and nothing else is drawn;
  this holds whatever the levels do.\<close>

definition draws :: "('i \<Rightarrow> (trade_id \<times> 'i) option) \<Rightarrow> 'i \<Rightarrow> fill list \<Rightarrow> 'i \<Rightarrow> fill list \<Rightarrow> bool" where
  "draws nti ids F ids' F' \<longleftrightarrow>
     (\<exists>fs. F' = F @ fs \<and> ids_run nti (length fs) ids = Some (map f_trade_id fs, ids'))"

lemma draws_refl [simp]: "draws nti ids F ids F"
  by (simp add: draws_def)

lemma draws_step:
  assumes "nti ids = Some (t, ids1)" "f_trade_id f = t" "draws nti ids1 (F @ [f]) ids' F'"
  shows "draws nti ids F ids' F'"
proof -
  obtain fs where "F' = F @ f # fs" "ids_run nti (length fs) ids1 = Some (map f_trade_id fs, ids')"
    using assms(3) by (auto simp: draws_def)
  then show ?thesis
    using assms(1,2) by (auto simp: draws_def intro!: exI [of _ "f # fs"])
qed

lemma draws_trans: "draws nti i1 F1 i2 F2 \<Longrightarrow> draws nti i2 F2 i3 F3 \<Longrightarrow> draws nti i1 F1 i3 F3"
  unfolding draws_def by (fastforce simp: ids_run_add)

lemma match_level_draws:
  "match_level api nti taker p snap w = Some (x, w') \<Longrightarrow>
   draws nti (w_ids w) (w_fills w) (w_ids w') (w_fills w')"
proof (induction "unat (w_remaining w)" arbitrary: snap w rule: less_induct)
  case less
  show ?case
  proof (cases "w_remaining w = 0 \<or> snap = []")
    case True
    then show ?thesis using less.prems by (auto simp: match_level.simps split: if_splits)
  next
    case False
    then obtain head rest where snap: "snap = head # rest" by (cases snap) auto
    obtain oid where oid: "pl_id_to_domain (pl_id head) = Some oid"
      using False less.prems snap by (auto simp: match_level.simps split: option.splits)
    let ?fq = "min (w_remaining w) (pl_quantity head)"
    note unf = less.prems [unfolded snap match_level.simps [of api nti taker p "head # rest" w]]
    show ?thesis
    proof (cases "index (w_book w) oid")
      case None
      then show ?thesis using unf False oid by simp
    next
      case (Some meta)
      show ?thesis
      proof (cases "om_account_id meta = ao_account_id taker \<or> pl_quantity head = 0")
        case True
        then show ?thesis
          using unf False oid Some by (auto simp: stp_cancel_maker_def Let_def split: if_splits)
      next
        case go: False
        have fq: "Qty_new ?fq = Inr (Qty ?fq)" and less1: "unat (w_remaining w - ?fq) < unat (w_remaining w)"
          using False go by (auto simp: Qty_new_iff unat_sub min_def word_le_nat_alt unat_gt_0 simp flip: unat_gt_0)
        obtain t ids1 where t: "nti (w_ids w) = Some (t, ids1)"
          using unf False oid Some go fq by (auto simp: Let_def split: option.splits)
        obtain snap1 b1 f where rec: "match_level api nti taker p snap1
            (w\<lparr>w_book := b1, w_ids := ids1, w_fills := w_fills w @ [f], w_remaining := w_remaining w - ?fq\<rparr>)
            = Some (x, w')" "f_trade_id f = t"
          using unf False oid Some go fq t by (simp add: Let_def)
        show ?thesis
          by (rule draws_step [where nti = nti and f = f, OF t rec(2)]) (use less.hyps [OF _ rec(1)] less1 in simp)
      qed
    qed
  qed
qed

lemma match_walk_draws:
  assumes "match_walk api nti taker w = Some w'"
  shows "draws nti (w_ids w) (w_fills w) (w_ids w') (w_fills w')"
proof (rule match_walk.raw_induct [OF _ assms, of "\<lambda>api nti taker w w'. draws nti (w_ids w) (w_fills w) (w_ids w') (w_fills w')"], goal_cases)
  case (1 go api nti taker w w')
  have rec: "draws nti (w_ids w) (w_fills w) (w_ids w') (w_fills w')"
    if "match_level api nti taker p snap w = Some (BreakLevel, w1)" "go api nti taker (w1\<lparr>w_book := b1\<rparr>) = Some w'"
    for p snap w1 b1
    using draws_trans [OF match_level_draws [OF that(1)]] 1(1) [OF that(2)] by simp
  from 1(2) show ?case
    by (auto split: if_splits option.splits prod.splits level_exit.splits intro: rec match_level_draws)
qed

text \<open>The engine's generator: the sequence counter is not touched by matching.\<close>

lemma draws_next_seq:
  "draws next_trade_id ids F ids' F' \<Longrightarrow> next_seq_raw ids' = next_seq_raw ids"
  unfolding draws_def using trade_ids.run_consecutive by metis

lemma match_aggressive_draws:
  "match_aggressive api nti b taker ids F S = Some (res, b', ids', F', S') \<Longrightarrow> draws nti ids F ids' F'"
  by (auto simp: match_aggressive_def dest!: match_walk_draws split: if_splits option.splits)

lemma replace_draws:
  "replace api nti b oid p q ids F S = Some (res, b', ids', F', S') \<Longrightarrow> draws nti ids F ids' F'"
  by (auto simp: replace_def Let_def dest!: match_aggressive_draws
      split: if_splits option.splits sum.splits prod.splits bool.splits)

section \<open>Emissions of the handlers\<close>

definition emission :: "'l engine \<Rightarrow> 'l engine \<Rightarrow> bool" where
  "emission e e' \<longleftrightarrow> emits_some (\<lambda>_. True) e e' \<and> same_core e e'"

lemma emission_refl [simp]: "emission e e"
  by (simp add: emission_def)

lemma emission_trans [trans]: "emission e1 e2 \<Longrightarrow> emission e2 e3 \<Longrightarrow> emission e1 e3"
  using emits_some_trans same_core_trans by (fastforce simp: emission_def)

lemma publish_emission:
  "publish mk e = Some e' \<Longrightarrow> (\<And>s now. outbound_seq (mk s now) = s) \<Longrightarrow> emission e e'"
  using publish_spec [of mk e e'] by (auto simp: emission_def same_core_def list_all_iff intro!: emits_someI)

lemma emit_emission:
  "emit_rejected oid a reason recv e = Some e' \<Longrightarrow> emission e e'"
  "emit_rejected_mass a reason recv e = Some e' \<Longrightarrow> emission e e'"
  "emit_exec_report_accepted oid a q recv e = Some e' \<Longrightarrow> emission e e'"
  "emit_exec_report_cancelled oid a cr recv e = Some e' \<Longrightarrow> emission e e'"
  "emit_exec_report_replaced oid a q recv e = Some e' \<Longrightarrow> emission e e'"
  "emit_exec_report_fill oid a st p q leaves recv e = Some e' \<Longrightarrow> emission e e'"
  "emit_trade_print_for_fill f s recv e = Some e' \<Longrightarrow> emission e e'"
  "emit_l2_delta s p n recv e = Some e' \<Longrightarrow> emission e e'"
  "emit_book_update_top api recv e = Some e' \<Longrightarrow> emission e e'"
  "handle_snapshot_request api sr recv e = Some e' \<Longrightarrow> emission e e'"
  by (auto simp: emit_defs emit_rejected_mass_eq elim!: publish_emission)

lemma emit_l2_merge_emission: "emit_l2_merge pre post recv e = Some e' \<Longrightarrow> emission e e'"
  by (induction pre post recv e arbitrary: e' rule: emit_l2_merge.induct)
    (auto simp: Option.bind_eq_Some_conv split: if_splits dest: emit_emission intro: emission_trans)

lemma emits_some_unregister [simp]:
  "emits_some P (unregister oid e) e' = emits_some P e e'" "emits_some P e' (unregister oid e) = emits_some P e' e"
  by (simp_all add: unregister_def split: option.split)

lemma emits_some_settle [simp]: "emits_some P e' (settle_maker f e) = emits_some P e' e"
  by (simp add: settle_maker_def Let_def split: option.split)

lemma emissionD: "emission e e' \<Longrightarrow> emits_some (\<lambda>_. True) e e'"
  by (simp add: emission_def)

lemma publish_some:
  "publish mk e = Some e' \<Longrightarrow> (\<And>s now. outbound_seq (mk s now) = s) \<Longrightarrow> (\<And>s now. P (mk s now)) \<Longrightarrow>
   emits_some P e e'"
  using publish_spec [of mk e e'] by (auto simp: same_core_def intro: emits_someI)

lemma emit_some:
  "emit_rejected oid a reason recv e = Some e' \<Longrightarrow> emits_some is_report e e'"
  "emit_rejected_mass a reason recv e = Some e' \<Longrightarrow> emits_some is_report e e'"
  "emit_exec_report_accepted oid a q recv e = Some e' \<Longrightarrow> emits_some is_report e e'"
  "emit_exec_report_cancelled oid a cr recv e = Some e' \<Longrightarrow> emits_some is_report e e'"
  "emit_exec_report_replaced oid a q recv e = Some e' \<Longrightarrow> emits_some is_report e e'"
  "emit_exec_report_fill oid a st p q leaves recv e = Some e' \<Longrightarrow> emits_some is_report e e'"
  "emit_trade_print_for_fill f s recv e = Some e' \<Longrightarrow> emits_some is_report e e'"
  by (auto simp: emit_defs emit_rejected_mass_eq elim!: publish_some)

lemma emit_fill_some: "emit_fill t a recv r f e = Some e' \<Longrightarrow> emits_some is_report e e'"
  unfolding emit_fill_def
  by (auto simp: Option.bind_eq_Some_conv Let_def dest!: emit_some) (meson emits_some_trans)

lemma emit_fills_loop_some: "emit_fills_loop t a recv r fs e = Some e' \<Longrightarrow> emits_some is_report e e'"
  by (induction t a recv r fs e arbitrary: e' rule: emit_fills_loop.induct)
    (auto simp: Option.bind_eq_Some_conv Let_def dest: emit_fill_some intro: emits_some_trans)

lemma emit_stp_loop_some: "emit_stp_loop recv cs e = Some e' \<Longrightarrow> emits_some is_report e e'"
  by (induction recv cs e arbitrary: e' rule: emit_stp_loop.induct)
    (auto simp: Option.bind_eq_Some_conv dest: emit_some intro: emits_some_trans)

lemma emit_mass_loop_some: "emit_mass_loop recv cs e = Some e' \<Longrightarrow> emits_some is_report e e'"
  by (induction recv cs e arbitrary: e' rule: emit_mass_loop.induct)
    (fastforce simp: Option.bind_eq_Some_conv dest: emit_some intro: emits_some_trans)+

lemma rest_new_order_some: "rest_new_order api msg p q recv e = Some e' \<Longrightarrow> emits_some is_report e e'"
  by (auto simp: rest_new_order_def Let_def split: prod.splits sum.splits dest!: emit_some)

lemma dispose_new_order_some: "dispose_new_order api msg res recv e = Some e' \<Longrightarrow> emits_some is_report e e'"
  by (auto simp: dispose_new_order_def split: if_splits option.splits prod.splits tif.splits
      dest: emit_some rest_new_order_some)

lemma dispose_replace_some: "dispose_replace api msg old mr recv e = Some e' \<Longrightarrow> emits_some is_report e e'"
  by (auto simp: dispose_replace_def Let_def split: if_splits option.splits prod.splits sum.splits
      dest!: emit_some)

lemma commit_replace_some: "commit_replace api msg old mr recv e = Some e' \<Longrightarrow> emits_some is_report e e'"
  unfolding commit_replace_def
  by (auto simp: Option.bind_eq_Some_conv Let_def emit_fills_for_taker_def emit_stp_cancels_def
      dest!: emit_some emit_fills_loop_some emit_stp_loop_some dispose_replace_some
      split: option.splits) (meson emits_some_trans)+

lemma emits_some_matched:
  "draws next_trade_id (eng_ids e) F ids' F' \<Longrightarrow>
   emits_some P (e\<lparr>eng_book := b, eng_ids := ids', fills_buf := fb, stp_buf := sb\<rparr>) e' \<Longrightarrow> emits_some P e e'"
  by (simp add: emits_some_def emits_def stream_def seq_no_def draws_next_seq)

lemma handle_new_order_some: "handle_new_order api msg recv e = Some e' \<Longrightarrow> emits_some is_report e e'"
  by (auto simp: handle_new_order_def Let_def Option.bind_eq_Some_conv emit_fills_for_taker_def
      emit_stp_cancels_def
      dest!: emit_some emit_fills_loop_some emit_stp_loop_some dispose_new_order_some match_aggressive_draws
      split: if_splits sum.splits prod.splits intro: emits_some_matched emits_some_trans)

lemma handle_cancel_order_some: "handle_cancel_order api msg recv e = Some e' \<Longrightarrow> emits_some is_report e e'"
  by (auto simp: handle_cancel_order_def dest!: emit_some split: if_splits sum.splits prod.splits option.splits)

lemma conclude_replace_some: "conclude_replace api msg old res recv e = Some e' \<Longrightarrow> emits_some is_report e e'"
  by (auto simp: conclude_replace_def dest: emit_some commit_replace_some split: sum.splits if_splits)

lemma handle_cancel_replace_some: "handle_cancel_replace api msg recv e = Some e' \<Longrightarrow> emits_some is_report e e'"
  by (auto simp: handle_cancel_replace_def Let_def Option.bind_eq_Some_conv
      dest!: emit_some conclude_replace_some replace_draws
      split: if_splits sum.splits intro: emits_some_matched)

lemma handle_mass_cancel_some: "handle_mass_cancel api msg recv e = Some e' \<Longrightarrow> emits_some is_report e e'"
  by (auto simp: handle_mass_cancel_def dest!: emit_some emit_mass_loop_some
      split: if_splits sum.splits prod.splits)

lemma dispatch_reports:
  "dispatch api msg recv e = Some e' \<Longrightarrow> emit_book_changes msg \<Longrightarrow> emits_some is_report e e'"
  by (cases msg)
    (auto dest: handle_new_order_some handle_cancel_order_some handle_cancel_replace_some handle_mass_cancel_some)

lemma dispatch_some:
  assumes "dispatch api msg recv e = Some e'"
  shows "emits_some (\<lambda>_. True) e e'"
proof (cases "emit_book_changes msg")
  case True
  show ?thesis by (rule emits_some_mono [OF dispatch_reports [OF assms True]]) simp
next
  case False
  then show ?thesis
    using assms emit_emission(10) [THEN emissionD]
    by (cases msg) (auto simp: handle_kill_switch_def Let_def)
qed

lemma emit_tail_some: "emit_tail api recv e = Some e' \<Longrightarrow> emits_some (\<lambda>_. True) e e'"
  unfolding emit_tail_def emit_l2_deltas_def
  by (auto simp: Option.bind_eq_Some_conv capture_post_step_levels_def
      dest!: emit_emission [THEN emissionD] emit_l2_merge_emission [THEN emissionD] intro: emits_some_trans)

lemma emits_some_emits: "emits_some P e e' \<Longrightarrow> \<exists>msgs. emits msgs e e'"
  by (auto simp: emits_some_def)

lemma emits_frame [simp]:
  "emits msgs (e\<lparr>pre_step_levels := ls\<rparr>) e' = emits msgs e e'"
  "emits msgs (e\<lparr>eng_clock_reads := n\<rparr>) e' = emits msgs e e'"
  by (simp_all add: emits_def stream_def seq_no_def)

lemma step_emits: "step api msg e = Some e' \<Longrightarrow> \<exists>msgs. emits msgs e e'"
  by (auto simp: step_def Let_def clock_now_def capture_pre_step_levels_def Option.bind_eq_Some_conv
      dest!: dispatch_some emit_tail_some dest: emits_some_trans split: if_splits)
    (drule (1) emits_some_trans | drule emits_some_emits, simp)+

lemma run_steps_emits: "run_steps api ms e = Some e' \<Longrightarrow> \<exists>msgs. emits msgs e e'"
proof (induction ms arbitrary: e)
  case (Cons m ms)
  then show ?case using step_emits emits_trans by (fastforce simp: Option.bind_eq_Some_conv)
qed (auto intro: emits_nil)

end
