(* ===== verification/Ledger.thy ===== *)
theory Ledger
  imports Engine_Seq
begin

text \<open>
  The ledger of the engine: the order registry and the per-account risk counters it feeds. The
  notional of an account is shown to be, at every moment, exactly the sum of the notionals of the
  orders registered for it, and the recorded open-order count never more than their number. The
  fills and self-trade cancellations of one walk are then settled in terms of the list of makers.
\<close>

section \<open>Registry and counters\<close>

type_synonym registry_map = "order_id \<rightharpoonup> registry_entry"

definition orders_of :: "registry_map \<Rightarrow> account_id \<Rightarrow> order_id set" where
  "orders_of reg a = {oid. \<exists>en. reg oid = Some en \<and> re_account_id en = a}"

definition entry_notional :: "registry_map \<Rightarrow> order_id \<Rightarrow> nat" where
  "entry_notional reg oid = (case reg oid of None \<Rightarrow> 0 | Some en \<Rightarrow> unat (re_notional en))"

definition exposure :: "registry_map \<Rightarrow> account_id \<Rightarrow> nat" where
  "exposure reg a = sum (entry_notional reg) (orders_of reg a)"

definition ledger_ok :: "registry_map \<Rightarrow> risk_state \<Rightarrow> bool" where
  "ledger_ok reg r \<longleftrightarrow>
     finite (dom reg) \<and> risk_inv r \<and> opt_ok price_ok (last_trade_price r) \<and>
     (\<forall>a. unat (notional (acct r a)) = exposure reg a \<and>
          unat (open_orders (acct r a)) \<le> card (orders_of reg a))"

text \<open>The two ways the registry and the counters change together.\<close>

definition ledger_drop :: "order_id \<Rightarrow> registry_map \<times> risk_state \<Rightarrow> registry_map \<times> risk_state" where
  "ledger_drop oid l =
     (case l of (reg, r) \<Rightarrow>
        (case reg oid of
           None \<Rightarrow> (reg, r)
         | Some en \<Rightarrow> (reg(oid := None), on_order_removed (re_account_id en) (re_notional en) r)))"

definition ledger_settle :: "fill \<Rightarrow> registry_map \<times> risk_state \<Rightarrow> registry_map \<times> risk_state" where
  "ledger_settle f l =
     (let l1 = (fst l, on_fill (f_price f) (snd l))
      in if f_maker_fully_filled f then ledger_drop (f_maker_order_id f) l1
         else case fst l1 (f_maker_order_id f) of
                None \<Rightarrow> l1
              | Some en \<Rightarrow>
                  let consumed = notional_of (f_price f) (f_qty f);
                      en1 = en\<lparr>re_notional := saturating_sub (re_notional en) consumed\<rparr>;
                      en2 = (case Qty_new (saturating_sub (as_lots (re_qty en)) (as_lots (f_qty f))) of
                               Inr q \<Rightarrow> en1\<lparr>re_qty := q\<rparr> | Inl _ \<Rightarrow> en1)
                  in ((fst l1)(f_maker_order_id f \<mapsto> en2), on_order_removed (re_account_id en) consumed (snd l1)))"

definition ledger :: "'l engine \<Rightarrow> registry_map \<times> risk_state" where
  "ledger e = (registry e, eng_risk e)"

lemma orders_of_update:
  "orders_of (reg(oid := v)) a =
     (case v of Some en \<Rightarrow> if re_account_id en = a then insert oid (orders_of reg a) else orders_of reg a - {oid}
      | None \<Rightarrow> orders_of reg a - {oid})"
  by (auto simp: orders_of_def split: option.split)

lemma orders_of_dom: "orders_of reg a \<subseteq> dom reg"
  by (auto simp: orders_of_def)

lemma finite_orders_of: "finite (dom reg) \<Longrightarrow> finite (orders_of reg a)"
  using finite_subset [OF orders_of_dom] .

lemma entry_notional_update:
  "entry_notional (reg(oid := v)) =
     (entry_notional reg)(oid := (case v of None \<Rightarrow> 0 | Some en \<Rightarrow> unat (re_notional en)))"
  by (auto simp: entry_notional_def split: option.split)

lemma orders_of_memI: "reg oid = Some en \<Longrightarrow> oid \<in> orders_of reg (re_account_id en)"
  by (simp add: orders_of_def)

lemma sum_fun_upd: "x \<notin> A \<Longrightarrow> sum (f(x := y)) A = sum f A"
  by (rule sum.cong) auto

lemma exposure_drop:
  assumes "finite (dom reg)" "reg oid = Some en"
  shows "exposure (reg(oid := None)) a =
    (if a = re_account_id en then exposure reg a - unat (re_notional en) else exposure reg a)"
    and "unat (re_notional en) \<le> exposure reg (re_account_id en)"
    and "card (orders_of (reg(oid := None)) a) =
      (if a = re_account_id en then card (orders_of reg a) - 1 else card (orders_of reg a))"
    and "0 < card (orders_of reg (re_account_id en))"
proof -
  note fin = finite_orders_of [OF assms(1)]
  note mem = orders_of_memI [of reg, OF assms(2)]
  have other: "oid \<notin> orders_of reg a" if "a \<noteq> re_account_id en"
    using assms(2) that by (auto simp: orders_of_def)
  have n: "entry_notional reg oid = unat (re_notional en)" using assms(2) by (simp add: entry_notional_def)
  have "exposure (reg(oid := None)) a = sum (entry_notional reg) (orders_of reg a - {oid})"
    by (simp add: exposure_def orders_of_update entry_notional_update sum_fun_upd)
  also have "\<dots> = (if a = re_account_id en then exposure reg a - unat (re_notional en) else exposure reg a)"
    using mem other n fin by (simp add: exposure_def sum_diff1_nat)
  finally show "exposure (reg(oid := None)) a = \<dots>" .
  show "unat (re_notional en) \<le> exposure reg (re_account_id en)"
    using member_le_sum [OF mem, of "entry_notional reg"] fin n by (simp add: exposure_def)
  show "card (orders_of (reg(oid := None)) a) =
      (if a = re_account_id en then card (orders_of reg a) - 1 else card (orders_of reg a))"
    using mem other by (simp add: orders_of_update)
  show "0 < card (orders_of reg (re_account_id en))" using mem fin by (auto simp: card_gt_0_iff)
qed

lemma exposure_add:
  assumes "finite (dom reg)" "reg oid = None"
  shows "exposure (reg(oid \<mapsto> en)) a =
    (if a = re_account_id en then exposure reg a + unat (re_notional en) else exposure reg a)"
    and "card (orders_of (reg(oid \<mapsto> en)) a) =
      (if a = re_account_id en then card (orders_of reg a) + 1 else card (orders_of reg a))"
proof -
  have fresh: "oid \<notin> orders_of reg a'" for a' using assms(2) by (auto simp: orders_of_def)
  note fin = finite_orders_of [OF assms(1)]
  have "sum ((entry_notional reg)(oid := k)) (insert oid (orders_of reg a')) = k + exposure reg a'" for k a'
    using fresh fin by (simp add: sum_fun_upd exposure_def fun_upd_same del: fun_upd_apply)
  moreover have "sum ((entry_notional reg)(oid := k)) (orders_of reg a') = exposure reg a'" for k a'
    using fresh by (simp add: sum_fun_upd exposure_def del: fun_upd_apply)
  ultimately show "exposure (reg(oid \<mapsto> en)) a =
      (if a = re_account_id en then exposure reg a + unat (re_notional en) else exposure reg a)"
    using fresh by (simp only: exposure_def [of "reg(oid \<mapsto> en)"] orders_of_update entry_notional_update
        option.case) (simp del: fun_upd_apply)
  show "card (orders_of (reg(oid \<mapsto> en)) a) =
      (if a = re_account_id en then card (orders_of reg a) + 1 else card (orders_of reg a))"
    using fresh fin by (simp add: orders_of_update)
qed

section \<open>The counters follow the registry\<close>

lemma acct_on_fill [simp]: "acct (on_fill p r) = acct r"
  by (simp add: fun_eq_iff acct_def on_fill_def)

lemma acct_set_kill_switch [simp]: "acct (set_kill_switch k r) = acct r"
  by (simp add: fun_eq_iff acct_def set_kill_switch_def)

lemma ledger_ok_empty: "ledger_ok Map.empty RiskState_new"
  using RiskState_new_inv
  by (simp add: ledger_ok_def exposure_def orders_of_def acct_def RiskState_new_def account_default_def)

lemma ledger_ok_on_fill: "ledger_ok reg r \<Longrightarrow> price_ok p \<Longrightarrow> ledger_ok reg (on_fill p r)"
  by (simp add: ledger_ok_def) (simp add: on_fill_def)

lemma ledger_ok_kill: "ledger_ok reg (set_kill_switch k r) \<longleftrightarrow> ledger_ok reg r"
  by (simp add: ledger_ok_def) (simp add: set_kill_switch_def)

lemma ledger_ok_drop:
  assumes l: "ledger_ok reg r" and en: "reg oid = Some en"
  shows "ledger_ok (reg(oid := None)) (on_order_removed (re_account_id en) (re_notional en) r)"
proof -
  let ?r = "on_order_removed (re_account_id en) (re_notional en) r"
  have fin: "finite (dom reg)" using l by (simp add: ledger_ok_def)
  note drop = exposure_drop [OF fin en]
  have "unat (notional (acct ?r a)) = exposure (reg(oid := None)) a \<and>
      unat (open_orders (acct ?r a)) \<le> card (orders_of (reg(oid := None)) a)" for a
    using l on_order_removed_spec(1,2) [of "re_account_id en" "re_notional en" r]
      on_order_removed_spec(3) [of a "re_account_id en" "re_notional en" r]
    unfolding drop(1,3) by (cases "a = re_account_id en") (auto simp: ledger_ok_def diff_le_mono)
  moreover have "finite (dom (reg(oid := None)))" using fin by simp
  moreover have "risk_inv ?r" using l by (simp add: ledger_ok_def on_order_removed_inv)
  moreover have "opt_ok price_ok (last_trade_price ?r)"
    using l by (simp add: ledger_ok_def on_order_removed_spec(5))
  ultimately show ?thesis by (simp add: ledger_ok_def)
qed

text \<open>A smaller entry for the same account: the counters give up the difference.\<close>

lemma ledger_ok_shrink:
  assumes l: "ledger_ok reg r" and en: "reg oid = Some en"
    and en': "re_account_id en' = re_account_id en" "unat (re_notional en') + unat n = unat (re_notional en)"
  shows "ledger_ok (reg(oid \<mapsto> en')) (on_order_removed (re_account_id en) n r)"
proof -
  let ?r = "on_order_removed (re_account_id en) n r" and ?reg0 = "reg(oid := None)"
  have fin: "finite (dom reg)" "finite (dom ?reg0)" using l by (simp_all add: ledger_ok_def)
  note drop = exposure_drop [OF fin(1) en]
  note add = exposure_add [OF fin(2), of oid en', simplified]
  have "unat (notional (acct ?r a)) = exposure (reg(oid \<mapsto> en')) a \<and>
      unat (open_orders (acct ?r a)) \<le> card (orders_of (reg(oid \<mapsto> en')) a)" for a
    using l on_order_removed_spec(1,2) [of "re_account_id en" n r]
      on_order_removed_spec(3) [of a "re_account_id en" n r] en' drop(2,4)
    unfolding add drop(1,3)
    by (cases "a = re_account_id en") (auto simp: ledger_ok_def intro: le_trans [OF diff_le_self])
  moreover have "risk_inv ?r" using l by (simp add: ledger_ok_def on_order_removed_inv)
  moreover have "opt_ok price_ok (last_trade_price ?r)"
    using l by (simp add: ledger_ok_def on_order_removed_spec(5))
  ultimately show ?thesis using fin by (simp add: ledger_ok_def)
qed

lemma ledger_ok_rest:
  assumes l: "ledger_ok reg r" and fresh: "reg oid = None"
    and rest: "on_order_resting (re_account_id en) (re_notional en) r = (Inr u, r')"
  shows "ledger_ok (reg(oid \<mapsto> en)) r'"
proof -
  have fin: "finite (dom reg)" using l by (simp add: ledger_ok_def)
  note spec = on_order_resting_spec [OF rest]
  have "unat (notional (acct r' a)) = exposure (reg(oid \<mapsto> en)) a \<and>
      unat (open_orders (acct r' a)) \<le> card (orders_of (reg(oid \<mapsto> en)) a)" for a
    using l spec(1) spec(2) [of a] unfolding exposure_add [OF fin fresh]
    by (cases "a = re_account_id en") (auto simp: ledger_ok_def)
  moreover have "risk_inv r'" using l on_order_resting_inv [OF _ rest] by (simp add: ledger_ok_def)
  moreover have "opt_ok price_ok (last_trade_price r')" using l spec(4) by (simp add: ledger_ok_def)
  ultimately show ?thesis using fin by (simp add: ledger_ok_def)
qed

text \<open>A refused order, and one that is taken back at once, leave the counters as they were.\<close>

lemma ledger_ok_cong:
  assumes "ledger_ok reg r" "\<And>a. acct r' a = acct r a" "risk_inv r'" "last_trade_price r' = last_trade_price r"
  shows "ledger_ok reg r'"
  using assms by (simp add: ledger_ok_def)

lemma ledger_ok_refused:
  assumes "ledger_ok reg r" "on_order_resting a n r = (Inl e, r')"
  shows "ledger_ok reg r'"
proof (rule ledger_ok_cong [OF assms(1)])
  show "acct r' a' = acct r a'" for a'
    using on_order_resting_spec(1,2) [OF assms(2)] by (cases "a' = a") auto
  show "risk_inv r'" using on_order_resting_inv [OF _ assms(2)] assms(1) by (simp add: ledger_ok_def)
  show "last_trade_price r' = last_trade_price r" by (rule on_order_resting_spec(4) [OF assms(2)])
qed

lemma acct_resting_removed:
  assumes "on_order_resting a n r = (Inr u, r')"
  shows "acct (on_order_removed a n r') = acct r"
proof
  fix a'
  show "acct (on_order_removed a n r') a' = acct r a'"
  proof (cases "a' = a")
    case True
    have "unat (open_orders (acct (on_order_removed a n r') a)) = unat (open_orders (acct r a))"
      "unat (notional (acct (on_order_removed a n r') a)) = unat (notional (acct r a))"
      using on_order_resting_spec(1) [OF assms] by (simp_all add: on_order_removed_spec(1,2))
    then show ?thesis using True by (simp add: word_unat_eq_iff)
  next
    case False
    then show ?thesis using on_order_resting_spec(2) [OF assms False] by (simp add: on_order_removed_spec(3))
  qed
qed

lemma ledger_ok_taken_back:
  assumes "ledger_ok reg r" "on_order_resting a n r = (Inr u, r')"
  shows "ledger_ok reg (on_order_removed a n r')"
proof (rule ledger_ok_cong [OF assms(1)])
  show "risk_inv (on_order_removed a n r')"
    using on_order_resting_inv [OF _ assms(2)] assms(1) by (simp add: ledger_ok_def on_order_removed_inv)
  show "last_trade_price (on_order_removed a n r') = last_trade_price r"
    using on_order_resting_spec(4) [OF assms(2)] by (simp add: on_order_removed_spec(5))
qed (simp add: acct_resting_removed [OF assms(2)])

section \<open>Settling a walk\<close>

definition entry_for :: "account_id \<Rightarrow> side \<Rightarrow> price \<times> u64 \<Rightarrow> registry_entry" where
  "entry_for a s pq =
     \<lparr>re_account_id = a, re_side = s, re_qty = Qty (snd pq), re_notional = notional_of (fst pq) (Qty (snd pq))\<rparr>"

lemma entry_for_simps [simp]:
  "re_account_id (entry_for a s pq) = a" "re_side (entry_for a s pq) = s"
  "re_qty (entry_for a s pq) = Qty (snd pq)"
  "re_notional (entry_for a s pq) = notional_of (fst pq) (Qty (snd pq))"
  by (simp_all add: entry_for_def)

lemma notional_split:
  assumes "price_ok p" "n \<le> q"
  shows "unat (notional_of p (Qty (q - n))) + unat (notional_of p (Qty n)) = unat (notional_of p (Qty q))"
    and "saturating_sub (notional_of p (Qty q)) (notional_of p (Qty n)) = notional_of p (Qty (q - n))"
proof -
  have "unat (q - n) + unat n = unat q" using assms(2) by (simp add: unat_sub word_le_nat_alt)
  then show 1: "unat (notional_of p (Qty (q - n))) + unat (notional_of p (Qty n)) = unat (notional_of p (Qty q))"
    by (simp add: unat_notional_of [OF assms(1)] flip: distrib_left)
  show "saturating_sub (notional_of p (Qty q)) (notional_of p (Qty n)) = notional_of p (Qty (q - n))"
    using 1 by (simp add: word_unat_eq_iff unat_saturating_sub)
qed

lemma ledger_drop_known:
  "reg oid = Some en \<Longrightarrow>
   ledger_drop oid (reg, r) = (reg(oid := None), on_order_removed (re_account_id en) (re_notional en) r)"
  by (simp add: ledger_drop_def)

lemma ledger_settle_full:
  assumes "reg i = Some en"
  shows "ledger_settle (fill_of taker t ((i, p, q), q)) (reg, r) =
    (reg(i := None), on_order_removed (re_account_id en) (re_notional en) (on_fill p r))"
  using assms by (simp add: ledger_settle_def fill_of_def ledger_drop_known)

lemma ledger_settle_part:
  assumes "reg i = Some (entry_for a s (p, q))" "n < q" "price_ok p"
  shows "ledger_settle (fill_of taker t ((i, p, q), n)) (reg, r) =
    (reg(i \<mapsto> entry_for a s (p, q - n)), on_order_removed a (notional_of p (Qty n)) (on_fill p r))"
proof -
  have "saturating_sub q n = q - n" "q - n \<noteq> 0" using assms(2) by (auto simp: saturating_sub_def)
  then show ?thesis
    using assms notional_split(2) [OF assms(3), of n q]
    by (simp add: ledger_settle_def fill_of_def Let_def Qty_new_def LOT_SIZE_def entry_for_def)
qed

text \<open>The ledger after a walk: the makers have exactly the entries of the makers that remain.\<close>

definition settled ::
  "(order_id \<Rightarrow> account_id) \<Rightarrow> side \<Rightarrow> maker list \<Rightarrow> maker list \<Rightarrow> registry_map \<times> risk_state \<Rightarrow>
   registry_map \<times> risk_state \<Rightarrow> bool" where
  "settled acc s ms rest l l' \<longleftrightarrow>
     ledger_ok (fst l') (snd l') \<and> kill_switch (snd l') = kill_switch (snd l) \<and>
     (\<forall>oid. fst l' oid =
        (if oid \<in> fst ` set ms then map_option (entry_for (acc oid) s) (map_of rest oid) else fst l oid))"

definition registered ::
  "(order_id \<Rightarrow> account_id) \<Rightarrow> side \<Rightarrow> maker list \<Rightarrow> registry_map \<Rightarrow> bool" where
  "registered acc s ms reg \<longleftrightarrow>
     distinct (map fst ms) \<and>
     (\<forall>(i, p, q) \<in> set ms. q \<noteq> 0 \<and> price_ok p \<and> reg i = Some (entry_for (acc i) s (p, q)))"

lemma on_fill_frame [simp]: "kill_switch (on_fill p r) = kill_switch r"
  by (simp add: on_fill_def)

lemma map_of_maker: "distinct (map fst ms) \<Longrightarrow> (i, p, q) \<in> set ms \<Longrightarrow> map_of ms i = Some (p, q)"
  by simp

lemma registered_lookup:
  "registered acc s ms reg \<Longrightarrow> oid \<in> fst ` set ms \<Longrightarrow>
   reg oid = map_option (entry_for (acc oid) s) (map_of ms oid)"
  by (auto simp: registered_def)

lemma settled_refl:
  "ledger_ok reg r \<Longrightarrow> registered acc s ms reg \<Longrightarrow> settled acc s ms ms (reg, r) (reg, r)"
  by (simp add: settled_def registered_lookup)

lemma settled_full:
  assumes l: "ledger_ok reg r" and reg: "registered acc s ((i, p, q) # ms) reg"
    and l1: "ledger_settle (fill_of taker t ((i, p, q), q)) (reg, r) = (reg1, r1)"
  shows "ledger_ok reg1 r1" "registered acc s ms reg1" "kill_switch r1 = kill_switch r"
    "reg1 = reg(i := None)"
proof -
  have en: "reg i = Some (entry_for (acc i) s (p, q))" "price_ok p" using reg by (auto simp: registered_def)
  have eq: "reg1 = reg(i := None)" "r1 = on_order_removed (acc i) (notional_of p (Qty q)) (on_fill p r)"
    using l1 ledger_settle_full [of reg i, OF en(1), of taker t p q r] by simp_all
  show "ledger_ok reg1 r1"
    using ledger_ok_drop [where oid = i, OF ledger_ok_on_fill [OF l en(2)] en(1)] by (simp add: eq)
  show "reg1 = reg(i := None)" "kill_switch r1 = kill_switch r"
    by (simp_all add: eq on_order_removed_spec(4))
  show "registered acc s ms reg1" using reg by (force simp: registered_def eq)
qed

lemma settled_after_full:
  assumes "settled acc s ms rest (reg(i := None), r1) l'" "i \<notin> fst ` set ms" "i \<notin> fst ` set rest"
    "kill_switch r1 = kill_switch r"
  shows "settled acc s ((i, p, q) # ms) rest (reg, r) l'"
proof -
  have "map_of rest i = None" using assms(3) by (simp add: map_of_eq_None_iff)
  then show ?thesis using assms(1,2,4) by (auto simp: settled_def)
qed

lemma spec_match_rest_ids:
  "spec_match cr own r ms = (fs, r', st, rest) \<Longrightarrow> fst ` set rest \<subseteq> fst ` set ms"
proof (induction cr own r ms arbitrary: fs r' st rest rule: spec_match.induct)
  case (2 cr own r i p q ms)
  show ?case
  proof (cases "r = 0 \<or> \<not> cr p \<or> own i \<or> r < q")
    case False
    then obtain fs2 where "spec_match cr own (r - q) ms = (fs2, r', st, rest)"
      using 2(2) by (auto split: prod.splits)
    then have "fst ` set rest \<subseteq> fst ` set ms" using 2(1) [of fs2 r' st rest] False by blast
    then show ?thesis by auto
  qed (use 2(2) in \<open>auto split: if_splits\<close>)
qed simp

lemma settled_drop:
  assumes l: "ledger_ok reg r" and reg: "registered acc s ((i, p, q) # ms) reg"
  shows "settled acc s ((i, p, q) # ms) ms (reg, r) (ledger_drop i (reg, r))"
proof -
  have en: "reg i = Some (entry_for (acc i) s (p, q))" "i \<notin> fst ` set ms" "registered acc s ms reg"
    using reg by (auto simp: registered_def)
  have "ledger_ok (reg(i := None)) (on_order_removed (acc i) (notional_of p (Qty q)) r)"
    using ledger_ok_drop [where oid = i, OF l en(1)] by simp
  moreover have "map_of ms i = None" using en(2) by (simp add: map_of_eq_None_iff)
  ultimately show ?thesis
    using en by (auto simp: ledger_drop_known settled_def on_order_removed_spec(4) registered_lookup)
qed

lemma settled_part:
  assumes l: "ledger_ok reg r" and reg: "registered acc s ((i, p, q) # ms) reg" and part: "k < q"
  shows "settled acc s ((i, p, q) # ms) ((i, p, q - k) # ms) (reg, r)
    (ledger_settle (fill_of taker t ((i, p, q), k)) (reg, r))"
proof -
  have en: "reg i = Some (entry_for (acc i) s (p, q))" "price_ok p" "i \<notin> fst ` set ms" "registered acc s ms reg"
    using reg by (auto simp: registered_def)
  have "ledger_ok (reg(i \<mapsto> entry_for (acc i) s (p, q - k))) (on_order_removed (acc i) (notional_of p (Qty k)) (on_fill p r))"
    using ledger_ok_shrink [where oid = i and en' = "entry_for (acc i) s (p, q - k)",
        OF ledger_ok_on_fill [OF l en(2)] en(1)] notional_split(1) [OF en(2), of k q] part
    by simp
  then show ?thesis
    using en part by (auto simp: ledger_settle_part settled_def on_order_removed_spec(4) registered_lookup)
qed

lemma spec_match_settles:
  assumes "spec_match cr own r ms = (fs, r', st, rest)" "length tids = length fs"
    and "ledger_ok reg risk" "registered acc s ms reg"
  shows "settled acc s ms rest (reg, risk)
    (fold (\<lambda>c. ledger_drop (sc_order_id c)) (stp_of taker st)
      (fold ledger_settle (map2 (fill_of taker) tids fs) (reg, risk)))"
  using assms
proof (induction cr own r ms arbitrary: fs r' st rest tids reg risk rule: spec_match.induct)
  case (1 cr own r)
  then show ?case by (auto simp: stp_of_def intro: settled_refl)
next
  case (2 cr own r i p q ms)
  have reg: "reg i = Some (entry_for (acc i) s (p, q))" "price_ok p" "q \<noteq> 0" "i \<notin> fst ` set ms"
    using 2(5) by (auto simp: registered_def)
  consider (stop) "r = 0 \<or> \<not> cr p" | (stp) "\<not> (r = 0 \<or> \<not> cr p)" "own i"
    | (part) "\<not> (r = 0 \<or> \<not> cr p)" "\<not> own i" "r < q" | (full) "\<not> (r = 0 \<or> \<not> cr p)" "\<not> own i" "\<not> r < q"
    by blast
  then show ?case
  proof cases
    case stop
    then show ?thesis using 2 settled_refl by (auto simp: stp_of_def)
  next
    case stp
    then have "fs = []" "st = Some (i, p, q)" "rest = ms" using 2(2) by auto
    then show ?thesis using settled_drop [OF 2(4,5)] by (simp add: stp_of_def)
  next
    case part
    then have eq: "fs = [((i, p, q), r)]" "st = None" "rest = (i, p, q - r) # ms" using 2(2) by auto
    then obtain t where t: "tids = [t]" using 2(3) by (cases tids) auto
    show ?thesis using settled_part [OF 2(4,5) part(3)] by (simp add: eq t stp_of_def)
  next
    case full
    then obtain fs2 where rec: "spec_match cr own (r - q) ms = (fs2, r', st, rest)"
      and fs: "fs = ((i, p, q), q) # fs2" using 2(2) by (auto split: prod.splits)
    obtain t ts where t: "tids = t # ts" using 2(3) fs by (cases tids) auto
    obtain reg1 r1 where l1: "ledger_settle (fill_of taker t ((i, p, q), q)) (reg, risk) = (reg1, r1)" by fastforce
    note s1 = settled_full [OF 2(4,5) l1]
    have "settled acc s ms rest (reg1, r1) (fold (\<lambda>c. ledger_drop (sc_order_id c)) (stp_of taker st)
        (fold ledger_settle (map2 (fill_of taker) ts fs2) (reg1, r1)))"
      using 2(1) [OF full rec _ s1(1,2), of ts] 2(3) fs t by simp
    moreover have "i \<notin> fst ` set rest" using reg(4) spec_match_rest_ids [OF rec] by blast
    ultimately show ?thesis
      using settled_after_full [where r = risk, OF _ reg(4) _ s1(3)] s1(4) by (simp add: fs t l1)
  qed
qed

end
