(* ===== verification/Mirror.thy ===== *)
theory Mirror
  imports Ledger
begin

text \<open>
  The registry as a function of the book: \<open>reg_of\<close> is what the engine's registry has to hold for a
  given book. Each operation of the book changes it in the way the engine's handlers change the
  registry.
\<close>

section \<open>The registry a book calls for\<close>

definition reg_of :: "('l \<Rightarrow> pl_order list) \<Rightarrow> 'l book \<Rightarrow> registry_map" where
  "reg_of queue b oid =
     (case index b oid of
        None \<Rightarrow> None
      | Some m \<Rightarrow> map_option (\<lambda>q. entry_for (om_account_id m) (om_side m) (om_price m, q))
                    (resting_lots queue b oid))"

definition index_ok :: "(order_id \<rightharpoonup> order_meta) \<Rightarrow> bool" where
  "index_ok idx \<longleftrightarrow>
     (\<forall>oid m. idx oid = Some m \<longrightarrow> price_ok (om_price m) \<and> account_id_ok (om_account_id m))"

definition account_in :: "'l book \<Rightarrow> order_id \<Rightarrow> account_id" where
  "account_in b oid = om_account_id (the (index b oid))"

lemma index_ok_mono: "idx' \<subseteq>\<^sub>m idx \<Longrightarrow> index_ok idx \<Longrightarrow> index_ok idx'"
  unfolding index_ok_def map_le_def dom_def by (metis (mono_tags, lifting) mem_Collect_eq option.distinct(1))

lemma reg_of_dom: "book_wf queue level_ok b \<Longrightarrow> reg_of queue b oid = None \<longleftrightarrow> index b oid = None"
  by (cases "index b oid") (auto simp: reg_of_def dest: resting_lots_pos)

lemma reg_of_known:
  assumes "book_wf queue level_ok b" "index b oid = Some m"
  shows "\<exists>q. q \<noteq> 0 \<and> resting_lots queue b oid = Some q \<and>
    reg_of queue b oid = Some (entry_for (om_account_id m) (om_side m) (om_price m, q))"
  using resting_lots_pos [OF assms] assms(2) by (auto simp: reg_of_def)

section \<open>Makers and the registry\<close>

lemma makers_iff:
  assumes "book_wf queue level_ok b"
  shows "(i, p, q) \<in> set (makers queue s b) \<longleftrightarrow>
    (\<exists>m. index b i = Some m \<and> om_side m = s \<and> om_price m = p \<and> resting_lots queue b i = Some q)"
proof
  assume "(i, p, q) \<in> set (makers queue s b)"
  then show "\<exists>m. index b i = Some m \<and> om_side m = s \<and> om_price m = p \<and> resting_lots queue b i = Some q"
    using level_makers_facts(2,3) [OF assms] by blast
next
  assume "\<exists>m. index b i = Some m \<and> om_side m = s \<and> om_price m = p \<and> resting_lots queue b i = Some q"
  then obtain m where m: "index b i = Some m" "om_side m = s" "om_price m = p" "resting_lots queue b i = Some q"
    by blast
  obtain l x where x: "btm_get (levels_of s b) p = Some l" "x \<in> set (queue_at queue b s p)"
      "pl_id x = Sequential (order_id_raw i)" "q = pl_quantity x"
    using book_wf_index [OF assms m(1)] m by auto
  have "(p, l) \<in> set (levels_of s b)"
    using x(1) btm_get_eq_Some [OF levels_wfD(1) [OF book_wf_levels [OF assms]]] by blast
  moreover have "x \<in> set (queue l)" using x(1,2) by (simp add: queue_at_def)
  moreover have "maker_of p x = (i, p, q)" using x by (simp add: maker_of_def)
  ultimately show "(i, p, q) \<in> set (makers queue s b)"
    unfolding makers_def level_makers_def by (cases s) force+
qed

lemma distinct_concat_keys:
  assumes "distinct (map fst m)" "\<And>p l. (p, l) \<in> set m \<Longrightarrow> distinct (map h (f p l))"
    and "\<And>p l x p' l' x'. (p, l) \<in> set m \<Longrightarrow> (p', l') \<in> set m \<Longrightarrow> x \<in> set (f p l) \<Longrightarrow> x' \<in> set (f p' l') \<Longrightarrow>
      h x = h x' \<Longrightarrow> p = p'"
  shows "distinct (map h (concat (map (\<lambda>(p, l). f p l) m)))"
  using assms
proof (induction m)
  case (Cons a m)
  obtain p l where a: "a = (p, l)" by (cases a)
  have "distinct (map h (concat (map (\<lambda>(p, l). f p l) m)))"
    by (rule Cons.IH) (use Cons.prems in \<open>auto, metis\<close>)
  moreover have False if "x \<in> set (f p l)" "(p', l') \<in> set m" "x' \<in> set (f p' l')" "h x = h x'" for x p' l' x'
    using that Cons.prems(1) Cons.prems(3) [of p l p' l' x x'] a by force
  ultimately show ?case using Cons.prems(2) [of p l] a by (fastforce simp: image_iff)
qed simp

lemma makers_distinct:
  assumes "book_wf queue level_ok b"
  shows "distinct (map fst (makers queue s b))"
  unfolding makers_def level_makers_def
proof (rule distinct_concat_keys)
  let ?m = "best_first s (levels_of s b)"
  have set_m: "set ?m = set (levels_of s b)" by (cases s) simp_all
  show "distinct (map fst ?m)"
    using btm_ok_distinct [OF levels_wfD(1) [OF book_wf_levels [OF assms]], of s]
    by (cases s) (simp_all add: rev_map [symmetric])
  have Q: "queue_at queue b s p = queue l" if "(p, l) \<in> set ?m" for p l
    using that btm_get_eq_Some [OF levels_wfD(1) [OF book_wf_levels [OF assms]], of s p l]
    by (simp add: set_m queue_at_def)
  show "distinct (map fst (map (maker_of p) (queue l)))" if "(p, l) \<in> set ?m" for p l
  proof -
    have "queue_wf (index b) (book_seq b) s p (queue l)" using book_wf_queue [OF assms, of s p] Q [OF that] by simp
    then have "distinct (map pl_id (queue l))" "\<forall>x \<in> set (queue l). \<exists>r. pl_id x = Sequential r"
      by (auto simp: queue_wf_def entry_wf_def)
    then show ?thesis
      by (auto simp: distinct_map inj_on_def maker_of_def) (metis maker_id.simps(1) order_id.inject)
  qed
  show "p = p'" if h: "(p, l) \<in> set ?m" "(p', l') \<in> set ?m" "x \<in> set (map (maker_of p) (queue l))"
    "x' \<in> set (map (maker_of p') (queue l'))" "fst x = fst x'" for p l x p' l' x'
  proof -
    have mem: "maker_of p y \<in> set (makers queue s b)" if "(p, l) \<in> set ?m" "y \<in> set (queue l)" for p l y
      using that unfolding makers_def level_makers_def by fastforce
    obtain y y' where y: "x = maker_of p y" "y \<in> set (queue l)" "x' = maker_of p' y'" "y' \<in> set (queue l')"
      using h(3,4) by auto
    obtain i q q' where "x = (i, p, q)" "x' = (i, p', q')" using y h(5) by (auto simp: maker_of_def)
    then have "(i, p, q) \<in> set (makers queue s b)" "(i, p', q') \<in> set (makers queue s b)"
      using mem [OF h(1) y(2)] mem [OF h(2) y(4)] y by simp_all
    then show ?thesis unfolding makers_iff [OF assms] by auto
  qed
qed

lemma reg_of_makers:
  assumes "book_wf queue level_ok b" "index b i = Some m" "om_side m = s"
  shows "reg_of queue b i = map_option (entry_for (om_account_id m) s) (map_of (makers queue s b) i)"
proof -
  obtain q where q: "resting_lots queue b i = Some q"
      "reg_of queue b i = Some (entry_for (om_account_id m) (om_side m) (om_price m, q))"
    using reg_of_known [OF assms(1,2)] by blast
  have "(i, om_price m, q) \<in> set (makers queue s b)" using makers_iff [OF assms(1)] assms(2,3) q(1) by blast
  then have "map_of (makers queue s b) i = Some (om_price m, q)"
    by (intro map_of_is_SomeI makers_distinct [OF assms(1)])
  then show ?thesis using q(2) assms(3) by simp
qed

lemma reg_of_registered:
  assumes "book_wf queue level_ok b" "index_ok (index b)"
  shows "registered (account_in b) s (makers queue s b) (reg_of queue b)"
  unfolding registered_def
proof (intro conjI ballI)
  show "distinct (map fst (makers queue s b))" by (rule makers_distinct [OF assms(1)])
  fix x assume x: "x \<in> set (makers queue s b)"
  obtain i p q where [simp]: "x = (i, p, q)" by (cases x) auto
  obtain m where m: "index b i = Some m" "om_side m = s" "om_price m = p" "resting_lots queue b i = Some q"
    using makers_iff [OF assms(1)] x by auto
  then show "case x of (i, p, q) \<Rightarrow> q \<noteq> 0 \<and> price_ok p \<and>
      reg_of queue b i = Some (entry_for (account_in b i) s (p, q))"
    using level_makers_facts(1) [OF assms(1)] x assms(2) by (auto simp: index_ok_def reg_of_def account_in_def)
qed

lemma makers_ids:
  assumes "book_wf queue level_ok b"
  shows "i \<in> fst ` set (makers queue s b) \<longleftrightarrow> (\<exists>m. index b i = Some m \<and> om_side m = s)"
proof
  assume "i \<in> fst ` set (makers queue s b)"
  then show "\<exists>m. index b i = Some m \<and> om_side m = s" using makers_iff [OF assms] by fastforce
next
  assume "\<exists>m. index b i = Some m \<and> om_side m = s"
  then obtain m where m: "index b i = Some m" "om_side m = s" by blast
  obtain q where "resting_lots queue b i = Some q" using resting_lots_pos [OF assms m(1)] by blast
  then have "(i, om_price m, q) \<in> set (makers queue s b)" using makers_iff [OF assms] m by blast
  then show "i \<in> fst ` set (makers queue s b)" by force
qed


lemma walk_post_reg:
  assumes inv: "book_inv queue level_ok b" and post: "walk_post queue level_ok opp b rest b'"
  shows "reg_of queue b' oid =
    (if oid \<in> fst ` set (makers queue opp b) then map_option (entry_for (account_in b oid) opp) (map_of rest oid)
     else reg_of queue b oid)"
proof -
  have wf: "book_wf queue level_ok b" "book_wf queue level_ok b'" and idx: "index b' \<subseteq>\<^sub>m index b"
    and mk: "makers queue opp b' = rest" "makers queue (opposite opp) b' = makers queue (opposite opp) b"
    using inv post by (auto simp: book_inv_def walk_post_def makers_def)
  have sub: "index b' oid = Some m \<Longrightarrow> index b oid = Some m" for m
    using idx by (metis domI map_le_def)
  show ?thesis
  proof (cases "oid \<in> fst ` set (makers queue opp b)")
    case True
    then obtain m where m: "index b oid = Some m" "om_side m = opp" using makers_ids [OF wf(1)] by blast
    show ?thesis
    proof (cases "index b' oid")
      case None
      then have "map_of rest oid = None"
        using makers_ids [OF wf(2), of oid opp] mk(1) by (simp add: map_of_eq_None_iff)
      then show ?thesis using True None by (simp add: reg_of_def)
    next
      case (Some m')
      then show ?thesis
        using True m sub [OF Some] reg_of_makers [OF wf(2) Some] mk(1) by (simp add: account_in_def)
    qed
  next
    case False
    have "index b' oid = index b oid"
    proof (cases "index b oid")
      case None
      then show ?thesis using sub by (cases "index b' oid") auto
    next
      case (Some m)
      then have "om_side m = opposite opp"
        using False makers_ids [OF wf(1), of oid opp] by (cases opp; cases "om_side m") auto
      then have "oid \<in> fst ` set (makers queue (opposite opp) b')"
        using makers_ids [OF wf(1)] Some mk(2) by metis
      then obtain m' where "index b' oid = Some m'" using makers_ids [OF wf(2)] by blast
      then show ?thesis using sub Some by simp
    qed
    moreover have "om_side m = opposite opp" if "index b oid = Some m" for m
      using that False makers_ids [OF wf(1), of oid opp] by (cases opp; cases "om_side m") auto
    ultimately have "reg_of queue b' oid = reg_of queue b oid"
      using reg_of_makers [OF wf(1), of oid _ "opposite opp"] reg_of_makers [OF wf(2), of oid _ "opposite opp"] mk(2)
      by (cases "index b oid") (simp_all add: reg_of_def [of _ _ oid])
    then show ?thesis using False by simp
  qed
qed

text \<open>Settling the trades of a walk leaves exactly the registry of the book it leaves.\<close>

lemma settled_mirror:
  assumes inv: "book_inv queue level_ok b" and post: "walk_post queue level_ok opp b rest b'"
    and set: "settled (account_in b) opp (makers queue opp b) rest (reg_of queue b, r) (reg', r')"
  shows "reg' = reg_of queue b'"
  using set walk_post_reg [OF inv post] by (auto simp: settled_def)


section \<open>The operations of the book\<close>

lemma find_app:
  "List.find P (xs @ ys) = (case List.find P xs of None \<Rightarrow> List.find P ys | Some x \<Rightarrow> Some x)"
  by (induction xs) auto

lemma reg_of_cong:
  "index b' i = index b i \<Longrightarrow> resting_lots queue b' i = resting_lots queue b i \<Longrightarrow>
   reg_of queue b' i = reg_of queue b i"
  by (simp add: reg_of_def split: option.split)

context price_level
begin

lemma reg_of_removed:
  assumes "book_wf queue level_ok b" "index b oid = Some m"
  shows "reg_of queue (prune_level api (om_side m) (om_price m) (removed api oid m b)) = (reg_of queue b)(oid := None)"
proof
  fix i
  let ?b = "prune_level api (om_side m) (om_price m) (removed api oid m b)"
  show "reg_of queue ?b i = ((reg_of queue b)(oid := None)) i"
  proof (cases "i = oid")
    case False
    have "resting_lots queue ?b i = resting_lots queue b i"
      by (rule resting_lots_cong [where i = "Sequential (order_id_raw oid)"])
        (use False filter_everywhere [OF assms] in simp_all)
    then show ?thesis using False reg_of_cong [where b' = ?b and b = b and i = i and queue = queue] by simp
  qed (simp add: reg_of_def)
qed

lemma reg_of_added:
  assumes inv: "book_inv queue level_ok b" and ord: "order_id_ok (ro_order_id ord)" "qty_ok (ro_qty ord)"
    and add: "add_resting api b ord = (Inr (), b')"
  shows "reg_of queue b' = (reg_of queue b)(ro_order_id ord \<mapsto>
    entry_for (ro_account_id ord) (ro_side ord) (ro_price ord, as_lots (ro_qty ord)))"
proof
  fix i
  note added = add_resting_ok [OF inv ord add]
  have wf: "book_wf queue level_ok b" "book_wf queue level_ok b'" using inv added(1) by (simp_all add: book_inv_def)
  show "reg_of queue b' i = ((reg_of queue b)(ro_order_id ord \<mapsto>
      entry_for (ro_account_id ord) (ro_side ord) (ro_price ord, as_lots (ro_qty ord)))) i"
  proof (cases "i = ro_order_id ord")
    case True
    have "Sequential (order_id_raw i) \<notin> pl_id ` set (queue_at queue b (ro_side ord) (ro_price ord))"
      using book_wf_queue [OF wf(1), of "ro_side ord" "ro_price ord"] added(2) True
      by (auto simp: queue_wf_def entry_wf_def)
    then have "List.find (\<lambda>x. pl_id x = Sequential (order_id_raw i)) (queue_at queue b (ro_side ord) (ro_price ord)) = None"
      by (auto simp: find_None_iff image_iff)
    then have "resting_lots queue b' i = Some (as_lots (ro_qty ord))"
      using True added(3,4) by (simp add: resting_lots_def find_app)
    then show ?thesis using True added(3) by (simp add: reg_of_def)
  next
    case False
    have "List.find (\<lambda>x. pl_id x = Sequential (order_id_raw i)) [pl_order_of ord n] = None" for n
      using False by simp
    then have "resting_lots queue b' i = resting_lots queue b i"
      using False added(3,4) by (simp add: resting_lots_def find_app split: option.split)
    then show ?thesis
      using False added(3) reg_of_cong [where b' = b' and b = b and i = i and queue = queue] by simp
  qed
qed

lemma reg_of_mass_cancel:
  assumes inv: "book_inv queue level_ok b" and mc: "mass_cancel api b a out = (n, b', out')"
  shows "reg_of queue b' = reg_of queue b |` {oid. \<not> owned_by (index b) a oid}"
proof
  fix i
  note spec = mass_cancel_spec [OF inv mc]
  show "reg_of queue b' i = (reg_of queue b |` {oid. \<not> owned_by (index b) a oid}) i"
  proof (cases "owned_by (index b) a i")
    case False
    have "resting_lots queue b' i = resting_lots queue b i"
      using False spec(4) unfolding resting_lots_def spec(5)
      by (auto intro!: arg_cong [where f = "map_option pl_quantity"] find_filter_other split: option.split)
    then show ?thesis
      using False spec(4) reg_of_cong [where b' = b' and b = b and i = i and queue = queue] by simp
  qed (simp add: reg_of_def spec(4))
qed

end

context price_level_total
begin

lemma reg_of_in_place:
  assumes inv: "book_inv queue level_ok b" and m: "index b oid = Some m"
    and lots: "resting_lots queue b oid = Some q" and q: "qty_ok new_qty" "as_lots new_qty \<le> q"
    and b': "index b' = index b" "queue_at queue b' = at_level (om_side m) (om_price m)
      (map (set_qty (Sequential (order_id_raw oid)) (as_lots new_qty))
        (queue_at queue b (om_side m) (om_price m))) (queue_at queue b)"
  shows "reg_of queue b' = (reg_of queue b)(oid \<mapsto>
    entry_for (om_account_id m) (om_side m) (om_price m, as_lots new_qty))"
proof
  fix i
  have find: "map_option pl_quantity (List.find (\<lambda>x. pl_id x = j) (map (set_qty k n) xs)) =
      (if j = k then map_option (\<lambda>_. n) (List.find (\<lambda>x. pl_id x = j) xs)
       else map_option pl_quantity (List.find (\<lambda>x. pl_id x = j) xs))" for j k n xs
    by (induction xs) (auto simp: set_qty_def)
  have "resting_lots queue b' i = (if i = oid then Some (as_lots new_qty) else resting_lots queue b i)"
    using lots m by (auto simp: resting_lots_def b' find split: option.splits)
  then show "reg_of queue b' i = ((reg_of queue b)(oid \<mapsto>
      entry_for (om_account_id m) (om_side m) (om_price m, as_lots new_qty))) i"
    using m by (cases "i = oid") (simp_all add: reg_of_def b' split: option.split)
qed

end

end
