(* ===== verification/Engine_Inv.thy ===== *)
theory Engine_Inv
  imports Mirror
begin

text \<open>
  The invariant of the engine and its preservation by every handler. The book satisfies its own
  invariant and is not crossed, the registry is exactly the one the book calls for, and the risk
  counters are the sums over it.
\<close>

section \<open>The invariant\<close>

definition good_book :: "('l \<Rightarrow> pl_order list) \<Rightarrow> ('l \<Rightarrow> bool) \<Rightarrow> 'l book \<Rightarrow> bool" where
  "good_book queue level_ok b \<longleftrightarrow> book_inv queue level_ok b \<and> uncrossed b \<and> index_ok (index b)"

definition engine_inv :: "('l \<Rightarrow> pl_order list) \<Rightarrow> ('l \<Rightarrow> bool) \<Rightarrow> 'l engine \<Rightarrow> bool" where
  "engine_inv queue level_ok e \<longleftrightarrow>
     good_book queue level_ok (eng_book e) \<and> registry e = reg_of queue (eng_book e) \<and>
     ledger_ok (registry e) (eng_risk e)"

text \<open>What one command may do to the arrival counter of the book.\<close>

definition arrivals :: "'l engine \<Rightarrow> nat" where
  "arrivals e = unat (book_seq (eng_book e))"

definition keeps_inv :: "('l \<Rightarrow> pl_order list) \<Rightarrow> ('l \<Rightarrow> bool) \<Rightarrow> 'l engine \<Rightarrow> 'l engine \<Rightarrow> bool" where
  "keeps_inv queue level_ok e e' \<longleftrightarrow> engine_inv queue level_ok e' \<and> arrivals e' \<le> Suc (arrivals e)"

lemma engine_inv_new: "engine_inv queue level_ok (Engine_new c ids sink)"
  using Book_new_inv [of queue level_ok] ledger_ok_empty
  by (simp add: engine_inv_def good_book_def Engine_new_def uncrossed_def best_None index_ok_def reg_of_def fun_eq_iff)
    (simp add: Book_new_def best_bid_def btm_last_key_def)

lemma engine_inv_cong:
  "eng_book e' = eng_book e \<Longrightarrow> registry e' = registry e \<Longrightarrow> eng_risk e' = eng_risk e \<Longrightarrow>
   engine_inv queue level_ok e' = engine_inv queue level_ok e"
  by (simp add: engine_inv_def)

lemma emission_inv: "emission e e' \<Longrightarrow> engine_inv queue level_ok e' = engine_inv queue level_ok e"
  by (rule engine_inv_cong) (simp_all add: emission_def same_core_def)

lemma emission_keeps: "emission e e' \<Longrightarrow> engine_inv queue level_ok e \<Longrightarrow> keeps_inv queue level_ok e e'"
  by (simp add: keeps_inv_def emission_inv) (simp add: emission_def same_core_def arrivals_def)

lemma emission_after:
  "emission e0 e' \<Longrightarrow> engine_inv queue level_ok e0 \<Longrightarrow> arrivals e0 \<le> Suc (arrivals e) \<Longrightarrow>
   keeps_inv queue level_ok e e'"
  by (simp add: keeps_inv_def emission_inv) (simp add: emission_def same_core_def arrivals_def)

section \<open>The ledger under the loops\<close>

definition same_frame :: "'l engine \<Rightarrow> 'l engine \<Rightarrow> bool" where
  "same_frame e e' \<longleftrightarrow>
     eng_book e' = eng_book e \<and> fills_buf e' = fills_buf e \<and> stp_buf e' = stp_buf e \<and>
     pre_step_levels e' = pre_step_levels e"

lemma same_frame_refl [simp]: "same_frame e e"
  by (simp add: same_frame_def)

lemma same_frame_trans: "same_frame e1 e2 \<Longrightarrow> same_frame e2 e3 \<Longrightarrow> same_frame e1 e3"
  by (simp add: same_frame_def)

lemma emission_frame: "emission e e' \<Longrightarrow> same_frame e e' \<and> ledger e' = ledger e"
  by (simp add: emission_def same_core_def same_frame_def ledger_def)

lemma unregister_effect: "same_frame e (unregister oid e) \<and> ledger (unregister oid e) = ledger_drop oid (ledger e)"
  by (simp add: unregister_def same_frame_def ledger_def ledger_drop_def split: option.split)

lemma settle_maker_effect: "same_frame e (settle_maker f e) \<and> ledger (settle_maker f e) = ledger_settle f (ledger e)"
  by (simp add: settle_maker_def unregister_def same_frame_def ledger_def ledger_settle_def ledger_drop_def Let_def
      split: option.split)

lemma emit_fill_effect:
  assumes "emit_fill t a recv r f e = Some e'"
  shows "same_frame e e' \<and> ledger e' = ledger_settle f (ledger e)"
proof -
  obtain e1 e2 e3 where "emission e e1" "emission e1 e2" "emission e2 e3" "e' = settle_maker f e3"
    using assms unfolding emit_fill_def by (auto simp: Option.bind_eq_Some_conv Let_def dest!: emit_emission)
  then show ?thesis
    using emission_frame settle_maker_effect [of e3 f] same_frame_trans by metis
qed

lemma emit_fills_loop_effect:
  "emit_fills_loop t a recv r fs e = Some e' \<Longrightarrow>
   same_frame e e' \<and> ledger e' = fold ledger_settle fs (ledger e)"
proof (induction t a recv r fs e arbitrary: e' rule: emit_fills_loop.induct)
  case (2 t a recv r f fs e)
  then obtain e1 where e1: "emit_fill t a recv (saturating_sub r (as_lots (f_qty f))) f e = Some e1"
      "emit_fills_loop t a recv (saturating_sub r (as_lots (f_qty f))) fs e1 = Some e'"
    by (auto simp: Let_def Option.bind_eq_Some_conv)
  then show ?case using emit_fill_effect [OF e1(1)] 2(1) [OF refl e1] by (simp add: same_frame_def)
qed simp

lemma emit_stp_loop_effect:
  "emit_stp_loop recv cs e = Some e' \<Longrightarrow>
   same_frame e e' \<and> ledger e' = fold (\<lambda>c. ledger_drop (sc_order_id c)) cs (ledger e)"
proof (induction recv cs e arbitrary: e' rule: emit_stp_loop.induct)
  case (2 recv c cs e)
  then obtain e1 where e1: "emit_exec_report_cancelled (sc_order_id c) (sc_account_id c) CR_SelfTradePrevented recv e = Some e1"
      "emit_stp_loop recv cs (unregister (sc_order_id c) e1) = Some e'"
    by (auto simp: Option.bind_eq_Some_conv)
  then show ?case
    using emission_frame [OF emit_emission(4) [OF e1(1)]] unregister_effect [of e1 "sc_order_id c"] 2(1) [OF e1]
    by (simp add: same_frame_def)
qed simp

lemma emit_mass_loop_effect:
  "emit_mass_loop recv cs e = Some e' \<Longrightarrow>
   same_frame e e' \<and> ledger e' = fold (\<lambda>c. ledger_drop (mc_order_id c)) cs (ledger e)"
proof (induction recv cs e arbitrary: e' rule: emit_mass_loop.induct)
  case (2 recv c cs e)
  then obtain e1 where e1: "emit_exec_report_cancelled (mc_order_id c) (mc_account_id c) CR_MassCancel recv
        (unregister (mc_order_id c) e) = Some e1" "emit_mass_loop recv cs e1 = Some e'"
    by (auto simp: Option.bind_eq_Some_conv)
  then show ?case
    using emission_frame [OF emit_emission(4) [OF e1(1)]] unregister_effect [of e "mc_order_id c"] 2(1) [OF e1]
    by (simp add: same_frame_def)
qed simp

section \<open>Good books\<close>

lemma good_book_mono:
  assumes "good_book queue level_ok b" "book_inv queue level_ok b'" "index b' \<subseteq>\<^sub>m index b"
  shows "good_book queue level_ok b'"
  using assms idx_uncrossed_mono [OF assms(3)] index_ok_mono [OF assms(3)]
    uncrossed_index [of queue level_ok b] uncrossed_index [OF assms(2)]
  by (simp add: good_book_def)

lemma good_bookD: "good_book queue level_ok b \<Longrightarrow> book_inv queue level_ok b"
  by (simp add: good_book_def)

lemma good_book_wf: "good_book queue level_ok b \<Longrightarrow> book_wf queue level_ok b"
  by (simp add: good_book_def book_inv_def)

context price_level
begin

lemma good_book_removed:
  assumes "good_book queue level_ok b" "index b oid = Some m"
  shows "good_book queue level_ok (prune_level api (om_side m) (om_price m) (removed api oid m b))"
  using good_book_mono [OF assms(1) removed_book_inv [OF good_bookD [OF assms(1)] assms(2)]]
  by (simp add: map_le_drop)

lemma good_book_added:
  assumes b: "good_book queue level_ok b" and ord: "order_id_ok (ro_order_id ord)" "qty_ok (ro_qty ord)"
    and ok: "price_ok (ro_price ord)" "account_id_ok (ro_account_id ord)"
    and nc: "\<not> would_cross b (ro_side ord) (Some (ro_price ord))"
    and add: "add_resting api b ord = (Inr (), b')"
  shows "good_book queue level_ok b'"
proof -
  note added = add_resting_ok [OF good_bookD [OF b] ord add]
  have "idx_uncrossed (index b')"
    using idx_uncrossed_add [OF good_bookD [OF b], of "meta_of ord" "ro_order_id ord"] b nc
      uncrossed_index [OF good_bookD [OF b]]
    by (simp add: added(3) good_book_def)
  moreover have "index_ok (index b')" using b ok by (simp add: good_book_def index_ok_def added(3))
  ultimately show ?thesis
    using added(1) uncrossed_index [OF added(1)] by (simp add: good_book_def)
qed

lemma good_book_mass:
  assumes "good_book queue level_ok b" "mass_cancel api b a out = (n, b', out')"
  shows "good_book queue level_ok b'"
proof (rule good_book_mono [OF assms(1) mass_cancel_spec(1) [OF good_bookD [OF assms(1)] assms(2)]])
  show "index b' \<subseteq>\<^sub>m index b"
    unfolding mass_cancel_spec(4) [OF good_bookD [OF assms(1)] assms(2)] map_le_def by (metis domI domIff restrict_map_def)
qed

end

lemma unat_Suc_le: "unat (w + 1 :: u64) \<le> Suc (unat w)"
  by (simp add: unat_word_ariths)

section \<open>Reporting the trades of a walk\<close>

text \<open>After the fills and self-trade cancellations have been reported, the registry is the one of
  the book the walk left.\<close>

lemma report_walk:
  assumes b: "good_book queue level_ok b" and reg: "registry e = reg_of queue b"
    and l: "ledger_ok (registry e) (eng_risk e)"
    and spec: "spec_of queue b taker = (fs, r, st, rest)"
    and post: "walk_post queue level_ok (opposite (ao_side taker)) b rest b2"
    and bufs: "fills_buf e = map2 (fill_of taker) tids fs" "stp_buf e = stp_of taker st" "length tids = length fs"
    and run: "emit_fills_for_taker t a q recv e = Some e1" "emit_stp_cancels recv e1 = Some e2"
  shows "registry e2 = reg_of queue b2 \<and> ledger_ok (registry e2) (eng_risk e2) \<and> same_frame e e2 \<and>
    kill_switch (eng_risk e2) = kill_switch (eng_risk e)"
proof -
  let ?opp = "opposite (ao_side taker)"
  have f1: "same_frame e e1" "ledger e1 = fold ledger_settle (map2 (fill_of taker) tids fs) (ledger e)"
    using emit_fills_loop_effect [of t a recv "as_lots q" "fills_buf e" e e1] run(1) bufs(1)
    by (simp_all add: emit_fills_for_taker_def)
  have f2: "same_frame e1 e2" "ledger e2 = fold (\<lambda>c. ledger_drop (sc_order_id c)) (stp_of taker st) (ledger e1)"
    using emit_stp_loop_effect [of recv "stp_buf e1" e1 e2] run(2) bufs(2) f1(1)
    by (simp_all add: emit_stp_cancels_def same_frame_def)
  have "settled (account_in b) ?opp (makers queue ?opp b) rest (reg_of queue b, eng_risk e) (ledger e2)"
    using spec_match_settles [OF spec [unfolded spec_of_def] bufs(3) l [unfolded reg]
        reg_of_registered [OF good_book_wf [OF b]], of taker] b f1(2) f2(2)
    by (simp add: good_book_def ledger_def reg)
  then have "registry e2 = reg_of queue b2" "ledger_ok (registry e2) (eng_risk e2)"
    "kill_switch (eng_risk e2) = kill_switch (eng_risk e)"
    using settled_mirror [OF good_bookD [OF b] post] by (auto simp: ledger_def settled_def)
  then show ?thesis using f1(1) f2(1) same_frame_trans by blast
qed

section \<open>New orders\<close>

lemma engine_inv_known:
  "engine_inv queue level_ok e \<Longrightarrow> registry e oid = None \<longleftrightarrow> index (eng_book e) oid = None"
  using reg_of_dom [OF good_book_wf] by (metis engine_inv_def)

context price_level_total
begin

lemma rested_inv:
  fixes ord :: resting_order
  defines "en \<equiv> \<lparr>re_account_id = ro_account_id ord, re_side = ro_side ord, re_qty = ro_qty ord,
    re_notional = notional_of (ro_price ord) (ro_qty ord)\<rparr>"
  assumes inv: "engine_inv queue level_ok e" and ok: "order_id_ok (ro_order_id ord)" "account_id_ok (ro_account_id ord)"
      "price_ok (ro_price ord)" "qty_ok (ro_qty ord)" and nc: "\<not> would_cross (eng_book e) (ro_side ord) (Some (ro_price ord))"
    and add: "add_resting api (eng_book e) ord = (Inr (), b')"
    and rest: "on_order_resting (ro_account_id ord) (re_notional en) (eng_risk e) = (Inr u, risk')"
  shows "engine_inv queue level_ok (e\<lparr>eng_risk := risk', eng_book := b', registry := (registry e)(ro_order_id ord \<mapsto> en)\<rparr>) \<and>
    arrivals (e\<lparr>eng_risk := risk', eng_book := b', registry := (registry e)(ro_order_id ord \<mapsto> en)\<rparr>) \<le> Suc (arrivals e)"
proof -
  have b: "good_book queue level_ok (eng_book e)" and reg: "registry e = reg_of queue (eng_book e)"
    and l: "ledger_ok (registry e) (eng_risk e)" using inv by (auto simp: engine_inv_def)
  note added = add_resting_ok [OF good_bookD [OF b] ok(1,4) add]
  have en: "en = entry_for (ro_account_id ord) (ro_side ord) (ro_price ord, as_lots (ro_qty ord))"
    by (simp add: entry_for_def en_def)
  have "good_book queue level_ok b'" by (rule good_book_added [OF b _ _ _ _ _ add]) (use ok nc in simp_all)
  moreover have "reg_of queue b' = (registry e)(ro_order_id ord \<mapsto> en)"
    using reg_of_added [OF good_bookD [OF b] ok(1,4) add] reg by (simp add: en)
  moreover have "ledger_ok ((registry e)(ro_order_id ord \<mapsto> en)) risk'"
    using ledger_ok_rest [OF l, of "ro_order_id ord" en u risk'] rest added(2) engine_inv_known [OF inv] by (simp add: en_def)
  ultimately show ?thesis using added(6) unat_Suc_le by (simp add: engine_inv_def arrivals_def)
qed

lemma rest_new_order_inv:
  assumes inv: "engine_inv queue level_ok e" and ok: "new_order_ok msg" "price_ok p" "qty_ok q"
    and nc: "\<not> would_cross (eng_book e) (no_side msg) (Some p)"
    and run: "rest_new_order api msg p q recv e = Some e'"
  shows "keeps_inv queue level_ok e e'"
proof -
  let ?a = "no_account_id msg" and ?oid = "no_order_id msg"
  let ?n = "notional_of p q"
  let ?ord = "\<lparr>ro_order_id = ?oid, ro_account_id = ?a, ro_side = no_side msg, ro_price = p, ro_qty = q, ro_tif = no_tif msg\<rparr>"
  have b: "good_book queue level_ok (eng_book e)" and reg: "registry e = reg_of queue (eng_book e)"
    and l: "ledger_ok (registry e) (eng_risk e)" using inv by (auto simp: engine_inv_def)
  have ids: "order_id_ok ?oid" "account_id_ok ?a" using ok(1) by (simp_all add: new_order_ok_def)
  obtain res risk' where rest: "on_order_resting ?a ?n (eng_risk e) = (res, risk')" by fastforce
  obtain add b' where add: "add_resting api (eng_book e) ?ord = (add, b')" by fastforce
  show ?thesis
  proof (cases res)
    case (Inl reason)
    have 1: "engine_inv queue level_ok (e\<lparr>eng_risk := risk'\<rparr>)"
      using inv ledger_ok_refused [OF l] rest Inl by (simp add: engine_inv_def)
    have 2: "emit_rejected ?oid ?a reason recv (e\<lparr>eng_risk := risk'\<rparr>) = Some e'"
      using run rest Inl by (simp add: rest_new_order_def)
    show ?thesis by (rule emission_after [OF emit_emission(1) [OF 2] 1]) (simp add: arrivals_def)
  next
    case Inr_rest: (Inr u)
    show ?thesis
    proof (cases add)
      case (Inl err)
      let ?e = "e\<lparr>eng_book := b', eng_risk := on_order_removed ?a ?n risk'\<rparr>"
      have b': "b' = eng_book e" using add_resting_err(1) [OF good_bookD [OF b]] add Inl by simp
      then have 1: "engine_inv queue level_ok ?e"
        using inv ledger_ok_taken_back [OF l] rest Inr_rest by (simp add: engine_inv_def)
      have 2: "emit_rejected ?oid ?a DuplicateOrderId recv ?e = Some e'"
        using run rest Inr_rest add Inl by (simp add: rest_new_order_def)
      show ?thesis by (rule emission_after [OF emit_emission(1) [OF 2] 1]) (simp add: arrivals_def b')
    next
      case (Inr v)
      then have add': "add_resting api (eng_book e) ?ord = (Inr (), b')" using add by simp
      let ?e = "e\<lparr>eng_risk := risk', eng_book := b', registry := (registry e)(?oid \<mapsto>
        \<lparr>re_account_id = ?a, re_side = no_side msg, re_qty = q, re_notional = ?n\<rparr>)\<rparr>"
      have "engine_inv queue level_ok ?e \<and> arrivals ?e \<le> Suc (arrivals e)"
        using rested_inv [OF inv _ _ _ _ _ add'] ids ok nc rest Inr_rest by simp
      moreover have "emit_exec_report_accepted ?oid ?a q recv ?e = Some e'"
        using run rest Inr_rest add Inr by (simp add: rest_new_order_def)
      ultimately show ?thesis using emission_after [OF emit_emission(3)] by blast
    qed
  qed
qed

lemma dispose_new_order_inv:
  assumes inv: "engine_inv queue level_ok e" and ok: "new_order_ok msg"
    and nc: "\<And>p q. \<not> mr_taker_stp_cancelled res \<Longrightarrow> mr_taker_remaining res = Some q \<Longrightarrow> no_price msg = Some p \<Longrightarrow>
      qty_ok q \<and> \<not> would_cross (eng_book e) (no_side msg) (Some p)"
    and run: "dispose_new_order api msg res recv e = Some e'"
  shows "keeps_inv queue level_ok e e'"
proof -
  have pok: "no_price msg = Some p \<Longrightarrow> price_ok p" for p
    using ok by (auto simp: new_order_ok_def split: order_type.splits)
  have "emission e e' \<or> (\<exists>p q. \<not> mr_taker_stp_cancelled res \<and> mr_taker_remaining res = Some q \<and>
      no_price msg = Some p \<and> rest_new_order api msg p q recv e = Some e')"
    using run emit_emission(4)
    by (fastforce simp: dispose_new_order_def split: if_splits option.splits tif.splits)
  then show ?thesis
    using emission_keeps [OF _ inv] rest_new_order_inv [OF inv ok] nc pok by blast
qed

text \<open>The walk of \<^verbatim>\<open>handle_new_order\<close> and the reports that follow it.\<close>

lemma walk_reported:
  assumes b: "good_book queue level_ok b" and reg: "registry e = reg_of queue b"
    and l: "ledger_ok (registry e) (eng_risk e)" and gate: "\<not> post_only_gate b taker"
    and m: "match_aggressive api nti b taker ids [] [] = Some (res, b2, ids', fills_buf e, stp_buf e)"
    and run: "emit_fills_for_taker t a q recv e = Some e1" "emit_stp_cancels recv e1 = Some e2"
  shows "good_book queue level_ok b2" "registry e2 = reg_of queue b2" "ledger_ok (registry e2) (eng_risk e2)"
    "same_frame e e2" "index b2 \<subseteq>\<^sub>m index b" "book_seq b2 = book_seq b"
    "\<not> mr_taker_stp_cancelled res \<Longrightarrow> mr_taker_remaining res = Some rq \<Longrightarrow> ao_price taker = Some tp \<Longrightarrow>
       qty_ok rq \<and> \<not> would_cross b2 (ao_side taker) (Some tp)"
proof -
  note inv = good_bookD [OF b]
  obtain fs r st rest tids where spec: "spec_of queue b taker = (fs, r, st, rest)"
    and ids: "ids_run nti (length fs) ids = Some (tids, ids')" and res: "res = result_of fs r st"
    and bufs: "fills_buf e = map2 (fill_of taker) tids fs" "stp_buf e = stp_of taker st"
    and post: "walk_post queue level_ok (opposite (ao_side taker)) b rest b2"
    using match_aggressive_Some [OF inv gate m] by auto
  note b2 = match_aggressive_inv [OF inv m]
  show "good_book queue level_ok b2" by (rule good_book_mono [OF b b2(1,2)])
  show "registry e2 = reg_of queue b2" "ledger_ok (registry e2) (eng_risk e2)" "same_frame e e2"
    using report_walk [OF b reg l spec post bufs ids_run_length [OF ids] run] by blast+
  show "index b2 \<subseteq>\<^sub>m index b" "book_seq b2 = book_seq b" using b2 by simp_all
  assume r: "\<not> mr_taker_stp_cancelled res" "mr_taker_remaining res = Some rq" "ao_price taker = Some tp"
  then have "st = None" "r \<noteq> 0" "rq = Qty r"
    by (cases st; auto simp: res result_of_def split: if_splits)+
  then show "qty_ok rq \<and> \<not> would_cross b2 (ao_side taker) (Some tp)"
    using residual_does_not_cross [OF inv gate _ _ post r(3)] spec by (simp add: qty_ok_def)
qed

lemma walked_new_order_inv:
  fixes msg :: new_order
  defines "t \<equiv> \<lparr>ao_order_id = no_order_id msg, ao_account_id = no_account_id msg, ao_side = no_side msg,
    ao_price = no_price msg, ao_qty = no_qty msg, ao_tif = no_tif msg\<rparr>"
  assumes inv: "engine_inv queue level_ok e" and ok: "new_order_ok msg" and gate: "\<not> post_only_gate (eng_book e) t"
    and m: "match_aggressive api next_trade_id (eng_book e) t (eng_ids e) [] [] = Some (res, b2, ids', F, S)"
    and r: "emit_fills_for_taker (no_order_id msg) (no_account_id msg) (no_qty msg) recv
        (e\<lparr>eng_book := b2, eng_ids := ids', fills_buf := F, stp_buf := S\<rparr>) = Some e1"
      "emit_stp_cancels recv e1 = Some e2" "dispose_new_order api msg res recv e2 = Some e'"
  shows "keeps_inv queue level_ok e e'"
proof -
  let ?e = "e\<lparr>eng_book := b2, eng_ids := ids', fills_buf := F, stp_buf := S\<rparr>"
  have b: "good_book queue level_ok (eng_book e)" and reg: "registry e = reg_of queue (eng_book e)"
    and l: "ledger_ok (registry e) (eng_risk e)" using inv by (auto simp: engine_inv_def)
  have m': "match_aggressive api next_trade_id (eng_book e) t (eng_ids e) [] [] =
      Some (res, b2, ids', fills_buf ?e, stp_buf ?e)" using m by simp
  note w = walk_reported [of "eng_book e" ?e t, OF b _ _ gate m' r(1,2)]
  have w1: "good_book queue level_ok b2" "registry e2 = reg_of queue b2" "ledger_ok (registry e2) (eng_risk e2)"
      "same_frame ?e e2" "book_seq b2 = book_seq (eng_book e)"
    using w(1-4,6) reg l by simp_all
  have bk: "eng_book e2 = b2" using w1(4) by (simp add: same_frame_def)
  have "engine_inv queue level_ok e2" using w1 bk by (simp add: engine_inv_def)
  moreover have "qty_ok q \<and> \<not> would_cross (eng_book e2) (no_side msg) (Some p)"
    if "\<not> mr_taker_stp_cancelled res" "mr_taker_remaining res = Some q" "no_price msg = Some p" for p q
    using w(7) [OF _ _ that(1,2)] that(3) reg l bk by (simp add: t_def)
  ultimately have "keeps_inv queue level_ok e2 e'" using dispose_new_order_inv [OF _ ok _ r(3)] by blast
  then show ?thesis using w1(5) bk by (simp add: keeps_inv_def arrivals_def)
qed

lemma handle_new_order_inv:
  assumes inv: "engine_inv queue level_ok e" and ok: "new_order_ok msg"
    and run: "handle_new_order api msg recv e = Some e'"
  shows "keeps_inv queue level_ok e e'"
proof -
  let ?t = "\<lparr>ao_order_id = no_order_id msg, ao_account_id = no_account_id msg, ao_side = no_side msg,
             ao_price = no_price msg, ao_qty = no_qty msg, ao_tif = no_tif msg\<rparr>"
  have b: "good_book queue level_ok (eng_book e)" and reg: "registry e = reg_of queue (eng_book e)"
    and l: "ledger_ok (registry e) (eng_risk e)" using inv by (auto simp: engine_inv_def)
  show ?thesis
  proof (cases "kill_switch (eng_risk e) \<or> (\<exists>x. check_new_order (eng_risk e) msg (best_opposite (no_side msg) (eng_book e)) = Inl x)")
    case True
    then have "\<exists>reason. emit_rejected (no_order_id msg) (no_account_id msg) reason recv e = Some e'"
      using run by (auto simp: handle_new_order_def Let_def split: sum.splits)
    then show ?thesis using emission_keeps [OF emit_emission(1) inv] by blast
  next
    case False
    then obtain res b2 ids' F S where m: "match_aggressive api next_trade_id (eng_book e) ?t (eng_ids e) [] [] =
        Some (res, b2, ids', F, S)"
      using run by (auto simp: handle_new_order_def Let_def Option.bind_eq_Some_conv split: sum.splits)
    let ?e = "e\<lparr>eng_book := b2, eng_ids := ids', fills_buf := F, stp_buf := S\<rparr>"
    show ?thesis
    proof (cases "post_only_gate (eng_book e) ?t")
      case True
      then have g: "mr_taker_post_only_rejected res" "b2 = eng_book e"
        using match_aggressive_gate [OF True, of next_trade_id "eng_ids e" "[]" "[]"] m by auto
      have "emit_rejected (no_order_id msg) (no_account_id msg) PostOnlyWouldCross recv ?e = Some e'"
        using run False m g by (auto simp: handle_new_order_def Let_def split: sum.splits)
      moreover have "engine_inv queue level_ok ?e" using inv g by (auto simp: engine_inv_def)
      ultimately show ?thesis
        by (rule emission_after [OF emit_emission(1)]) (simp add: arrivals_def g)
    next
      case gate: False
      then have nr: "\<not> mr_taker_post_only_rejected res"
        using match_aggressive_Some [OF good_bookD [OF b] gate m] by (auto simp: result_of_def)
      obtain e1 e2 where r: "emit_fills_for_taker (no_order_id msg) (no_account_id msg) (no_qty msg) recv ?e = Some e1"
          "emit_stp_cancels recv e1 = Some e2" "dispose_new_order api msg res recv e2 = Some e'"
        using run False m nr by (auto simp: handle_new_order_def Let_def Option.bind_eq_Some_conv split: sum.splits)
      show ?thesis by (rule walked_new_order_inv [OF inv ok gate m r])
    qed
  qed
qed

end

section \<open>Cancels\<close>

lemma ledger_drop_fold:
  assumes "ledger_ok reg r" "fold ledger_drop oids (reg, r) = (reg', r')"
  shows "ledger_ok reg' r' \<and> reg' = reg |` (- set oids)"
  using assms
proof (induction oids arbitrary: reg r)
  case (Cons oid oids)
  obtain reg1 r1 where l1: "ledger_drop oid (reg, r) = (reg1, r1)" by fastforce
  have ok1: "ledger_ok reg1 r1" and reg1: "reg1 = reg(oid := None)"
    using l1 Cons.prems(1) ledger_ok_drop [OF Cons.prems(1), of oid]
    by (cases "reg oid"; auto simp: ledger_drop_def fun_upd_idem)+
  have "fold ledger_drop oids (reg1, r1) = (reg', r')" using Cons.prems(2) l1 by simp
  from Cons.IH [OF ok1 this] have "ledger_ok reg' r' \<and> reg' = reg1 |` (- set oids)" .
  moreover have "(reg(oid := None)) |` (- set oids) = reg |` (- set (oid # oids))"
    by (auto simp: restrict_map_def fun_eq_iff)
  ultimately show ?case using reg1 by metis
qed (simp add: restrict_map_def)

lemma account_orders_owned:
  "book_wf queue level_ok b \<Longrightarrow> set (account_orders (by_account b) a) = {oid. owned_by (index b) a oid}"
  by (auto simp: book_wf_def view_wf_def accounts_wf_def owned_by_def split: option.splits)

context price_level_total
begin

lemma handle_cancel_order_inv:
  assumes inv: "engine_inv queue level_ok e" and run: "handle_cancel_order api msg recv e = Some e'"
  shows "keeps_inv queue level_ok e e'"
proof -
  let ?oid = "co_order_id msg"
  have b: "good_book queue level_ok (eng_book e)" and reg: "registry e = reg_of queue (eng_book e)"
    and l: "ledger_ok (registry e) (eng_risk e)" using inv by (auto simp: engine_inv_def)
  show ?thesis
  proof (cases "index (eng_book e) ?oid")
    case None
    then have "cancel api (eng_book e) ?oid = (Inl BE_UnknownOrderId, eng_book e)" by (simp add: cancel_def)
    then have "\<exists>reason. emit_rejected ?oid (co_account_id msg) reason recv e = Some e'"
      using run by (auto simp: handle_cancel_order_def split: sum.splits if_splits)
    then show ?thesis using emission_keeps [OF emit_emission(1) inv] by blast
  next
    case (Some m)
    let ?b = "prune_level api (om_side m) (om_price m) (removed api ?oid m (eng_book e))"
    let ?e = "unregister ?oid (e\<lparr>eng_book := ?b\<rparr>)"
    note c = cancel_known [OF good_book_wf [OF b] Some]
    have "(\<exists>reason. emit_rejected ?oid (co_account_id msg) reason recv e = Some e') \<or>
        emit_exec_report_cancelled ?oid (co_account_id msg) CR_UserRequested recv ?e = Some e'"
      using run c by (auto simp: handle_cancel_order_def split: sum.splits if_splits)
    then show ?thesis
    proof
      assume "\<exists>reason. emit_rejected ?oid (co_account_id msg) reason recv e = Some e'"
      then show ?thesis using emission_keeps [OF emit_emission(1) inv] by blast
    next
      assume emit: "emit_exec_report_cancelled ?oid (co_account_id msg) CR_UserRequested recv ?e = Some e'"
      obtain en where en: "registry e ?oid = Some en" using engine_inv_known [OF inv] Some by fastforce
      have "engine_inv queue level_ok ?e"
        using good_book_removed [OF b Some] reg_of_removed [OF good_book_wf [OF b] Some] reg
          ledger_ok_drop [where oid = ?oid, OF l en] en by (simp add: engine_inv_def unregister_def)
      then show ?thesis
        by (rule emission_after [OF emit_emission(4) [OF emit]]) (simp add: arrivals_def unregister_def split: option.split)
    qed
  qed
qed

lemma handle_mass_cancel_inv:
  assumes inv: "engine_inv queue level_ok e" and run: "handle_mass_cancel api msg recv e = Some e'"
  shows "keeps_inv queue level_ok e e'"
proof -
  let ?a = "mx_account_id msg"
  have b: "good_book queue level_ok (eng_book e)" and reg: "registry e = reg_of queue (eng_book e)"
    and l: "ledger_ok (registry e) (eng_risk e)" using inv by (auto simp: engine_inv_def)
  let ?ids = "account_orders (by_account (eng_book e)) ?a"
  obtain n b' out where mc: "mass_cancel api (eng_book e) ?a [] = (n, b', out)" by (metis prod_cases3)
  note spec = mass_cancel_spec [OF good_bookD [OF b] mc]
  let ?e = "e\<lparr>eng_book := b', mass_buf := out\<rparr>"
  have "(\<exists>reason. emit_rejected_mass ?a reason recv e = Some e') \<or> emit_mass_loop recv out ?e = Some e'"
    using run mc by (auto simp: handle_mass_cancel_def split: sum.splits if_splits)
  then show ?thesis
  proof
    assume "\<exists>reason. emit_rejected_mass ?a reason recv e = Some e'"
    then show ?thesis using emission_keeps [OF emit_emission(2) inv] by blast
  next
    assume loop: "emit_mass_loop recv out ?e = Some e'"
    have ids: "map mc_order_id out = ?ids" by (simp add: spec(2) mass_record_def Let_def comp_def)
    have eff: "eng_book e' = b'" "ledger e' = fold ledger_drop ?ids (registry e, eng_risk e)"
      using emit_mass_loop_effect [OF loop] ids [symmetric]
      by (simp_all add: same_frame_def ledger_def fold_map comp_def)
    have "ledger_ok (registry e') (eng_risk e') \<and> registry e' = registry e |` (- set ?ids)"
      using ledger_drop_fold [OF l] eff(2) by (metis ledger_def)
    moreover have "reg_of queue b' = registry e |` (- set ?ids)"
      using reg_of_mass_cancel [OF good_bookD [OF b] mc] account_orders_owned [OF good_book_wf [OF b]] reg
      by (simp add: Compl_eq)
    ultimately show ?thesis
      using good_book_mass [OF b mc] eff(1) spec(7)
      by (auto simp: keeps_inv_def engine_inv_def arrivals_def)
  qed
qed

end

end
