(* ===== verification/Engine_Replace.thy ===== *)
theory Engine_Replace
  imports Engine_Inv
begin

text \<open>
  Cancel-replace keeps the engine's invariant. The book's \<^verbatim>\<open>replace\<close> is first cut into its three
  successful outcomes; then the refund, the reports and the disposition of the repriced order are
  followed through the ledger.
\<close>

section \<open>The outcomes of a replace\<close>

definition replaced_in_place ::
  "('l \<Rightarrow> pl_order list) \<Rightarrow> 'l book \<Rightarrow> order_id \<Rightarrow> order_meta \<Rightarrow> qty \<Rightarrow> 'l book \<Rightarrow> bool" where
  "replaced_in_place queue b oid m new_qty b' \<longleftrightarrow>
     (\<exists>q. resting_lots queue b oid = Some q \<and> as_lots new_qty \<le> q) \<and> index b' = index b \<and>
     queue_at queue b' = at_level (om_side m) (om_price m)
       (map (set_qty (Sequential (order_id_raw oid)) (as_lots new_qty))
         (queue_at queue b (om_side m) (om_price m))) (queue_at queue b)"

context price_level_total
begin

lemma replace_outcomes:
  assumes inv: "book_inv queue level_ok b" and m: "index b oid = Some m" and q: "qty_ok new_qty"
    and room: "unat (book_seq b) < 2 ^ 64 - 1"
    and rep: "replace api nti b oid new_price new_qty ids [] [] = Some (out, b', ids', F, S)"
  defines "b1 \<equiv> prune_level api (om_side m) (om_price m) (removed api oid m b)"
  defines "t \<equiv> resubmit oid m new_price new_qty"
  obtains
    (in_place) "out = Inr \<lparr>rp_kept_priority = True, rp_match_result = None\<rparr>" "new_price = om_price m"
      "F = []" "S = []" "replaced_in_place queue b oid m new_qty b'" "book_inv queue level_ok b'"
      "book_seq b' = book_seq b"
  | (rejected) r where "out = Inr \<lparr>rp_kept_priority = False, rp_match_result = Some r\<rparr>"
      "mr_taker_post_only_rejected r" "b' = b"
  | (walked) res b2 where "out = Inr \<lparr>rp_kept_priority = False, rp_match_result = Some res\<rparr>"
      "\<not> post_only_gate b1 t" "match_aggressive api nti b1 t ids [] [] = Some (res, b2, ids', F, S)"
      "\<not> mr_taker_post_only_rejected res"
      "\<And>rq. \<not> mr_taker_stp_cancelled res \<Longrightarrow> mr_taker_remaining res = Some rq \<Longrightarrow>
         add_resting api b2 (re_rest oid m new_price rq) = (Inr (), b')"
      "mr_taker_stp_cancelled res \<or> mr_taker_remaining res = None \<Longrightarrow> b' = b2"
proof -
  from inv m show thesis
  proof (cases rule: replace_cases [where new_price = new_price and new_qty = new_qty])
    case (keep lots)
    then obtain b'' where r: "replace api nti b oid new_price new_qty ids [] [] =
        Some (Inr \<lparr>rp_kept_priority = True, rp_match_result = None\<rparr>, b'', ids, [], [])"
        "book_inv queue level_ok b''" "replaced_in_place queue b oid m new_qty b''" "book_seq b'' = book_seq b"
      using replace_in_place [OF inv m keep(1) q keep(3), of nti ids "[]" "[]"]
      by (auto simp: replaced_in_place_def)
    show thesis by (rule in_place) (use r rep keep in auto)
  next
    case (gate lots)
    show thesis by (rule rejected) (use replace_post_only [OF inv m gate, of nti ids "[]" "[]"] rep in auto)
  next
    case (walk lots)
    note b1 = removed_book_inv [OF inv m, folded b1_def]
    from inv m walk rep show thesis
    proof (cases rule: replace_walked)
      case (walked res b2)
      note w = walked [folded b1_def t_def]
      note b2 = match_aggressive_inv [OF b1 w(2)]
      have nr: "\<not> mr_taker_post_only_rejected res"
        using match_aggressive_Some [OF b1 w(1,2)] by (auto simp: result_of_def)
      have fresh: "index b2 oid = None" using b2(2) by (auto simp: b1_def map_le_def dom_def)
      have add: "\<exists>b3. add_resting api b2 (re_rest oid m new_price rq) = (Inr (), b3)" for rq
        by (rule add_resting_total [OF b2(1)]) (use fresh room b2(3) in \<open>simp_all add: re_rest_def b1_def\<close>)
      have rests: "add_resting api b2 (re_rest oid m new_price rq) = (Inr (), b') \<and>
          out = Inr \<lparr>rp_kept_priority = False, rp_match_result = Some res\<rparr>"
        if rq: "\<not> mr_taker_stp_cancelled res" "mr_taker_remaining res = Some rq" for rq
      proof -
        obtain b3 where b3: "add_resting api b2 (re_rest oid m new_price rq) = (Inr (), b3)" using add by blast
        show ?thesis using w(4) [OF rq b3] b3 by simp
      qed
      then have out: "out = Inr \<lparr>rp_kept_priority = False, rp_match_result = Some res\<rparr>"
        using w(3) by (cases "mr_taker_stp_cancelled res \<or> mr_taker_remaining res = None") auto
      show thesis by (rule that(3) [OF out w(1,2) nr]) (use w(3) rests in simp_all)
    qed
  qed
qed

section \<open>From the refund to the disposition\<close>

lemma residual_refused_inv:
  assumes b: "good_book queue level_ok (eng_book e)" and R: "registry e oid = None"
    and l: "ledger_ok (registry e) (eng_risk e)" and reg: "reg_of queue (eng_book e) = (registry e)(oid \<mapsto> en)"
    and rest: "on_order_resting a n (eng_risk e) = (Inl reason, risk')"
    and run: "emit_rejected oid a' reason recv
      (e\<lparr>eng_risk := risk', eng_book := snd (cancel api (eng_book e) oid)\<rparr>) = Some e'"
  shows "engine_inv queue level_ok e' \<and> book_seq (eng_book e') = book_seq (eng_book e)"
proof -
  obtain m where m: "index (eng_book e) oid = Some m"
    using reg_of_dom [OF good_book_wf [OF b], of oid] reg by fastforce
  let ?b = "prune_level api (om_side m) (om_price m) (removed api oid m (eng_book e))"
  let ?e = "e\<lparr>eng_risk := risk', eng_book := ?b\<rparr>"
  have "reg_of queue ?b = registry e"
    using reg_of_removed [OF good_book_wf [OF b] m] reg R by (auto simp: fun_eq_iff)
  then have "engine_inv queue level_ok ?e"
    using good_book_removed [OF b m] ledger_ok_refused [OF l rest] by (simp add: engine_inv_def)
  moreover have "emission ?e e'"
    using run cancel_known [OF good_book_wf [OF b] m] emit_emission(1) by simp
  ultimately show ?thesis by (simp add: emission_inv) (simp add: emission_def same_core_def)
qed

lemma dispose_replace_inv:
  assumes b: "good_book queue level_ok (eng_book e)" and R: "registry e (cr_order_id msg) = None"
    and l: "ledger_ok (registry e) (eng_risk e)" and old: "old_entry = Some en"
    and sr: "(stp, rem) = (case mr of Some r \<Rightarrow> (mr_taker_stp_cancelled r, mr_taker_remaining r)
                           | None \<Rightarrow> (False, Some (cr_new_qty msg)))"
    and gone: "stp \<or> rem = None \<Longrightarrow> reg_of queue (eng_book e) = registry e"
    and rests: "\<And>rq. \<not> stp \<Longrightarrow> rem = Some rq \<Longrightarrow> reg_of queue (eng_book e) = (registry e)(cr_order_id msg \<mapsto>
      entry_for (cr_account_id msg) (re_side en) (cr_new_price msg, as_lots rq))"
    and run: "dispose_replace api msg old_entry mr recv e = Some e'"
  shows "engine_inv queue level_ok e' \<and> book_seq (eng_book e') = book_seq (eng_book e)"
proof -
  let ?oid = "cr_order_id msg" and ?a = "cr_account_id msg"
  have run': "(if stp then emit_exec_report_cancelled ?oid ?a CR_SelfTradePrevented recv e
      else case rem of None \<Rightarrow> Some e | Some rq \<Rightarrow>
        (case on_order_resting ?a (notional_of (cr_new_price msg) rq) (eng_risk e) of
           (Inl reason, risk') \<Rightarrow> emit_rejected ?oid ?a reason recv
             (e\<lparr>eng_risk := risk', eng_book := snd (cancel api (eng_book e) ?oid)\<rparr>)
         | (Inr _, risk') \<Rightarrow> Some (e\<lparr>eng_risk := risk', registry := (registry e)(?oid \<mapsto>
             \<lparr>re_account_id = ?a, re_side = re_side en, re_qty = rq,
              re_notional = notional_of (cr_new_price msg) rq\<rparr>)\<rparr>))) = Some e'"
    using run by (simp only: dispose_replace_def old sr [symmetric] Let_def prod.case option.map unwrap_or_simps)
  show ?thesis
  proof (cases "stp \<or> rem = None")
    case True
    then have "emission e e'" using run' emit_emission(4) by (auto split: if_splits)
    moreover have "engine_inv queue level_ok e" using b gone [OF True] l by (simp add: engine_inv_def)
    ultimately show ?thesis by (simp add: emission_inv) (simp add: emission_def same_core_def)
  next
    case False
    then obtain rq where rq: "\<not> stp" "rem = Some rq" by blast
    let ?n = "notional_of (cr_new_price msg) rq"
    let ?en = "\<lparr>re_account_id = ?a, re_side = re_side en, re_qty = rq, re_notional = ?n\<rparr>"
    have en: "?en = entry_for ?a (re_side en) (cr_new_price msg, as_lots rq)" by (simp add: entry_for_def)
    note reg = rests [OF rq, folded en]
    obtain res risk' where rest: "on_order_resting ?a ?n (eng_risk e) = (res, risk')" by fastforce
    show ?thesis
    proof (cases res)
      case (Inr u)
      then have "ledger_ok ((registry e)(?oid \<mapsto> ?en)) risk'"
        using ledger_ok_rest [OF l R, of ?en] rest by simp
      moreover have "e' = e\<lparr>eng_risk := risk', registry := (registry e)(?oid \<mapsto> ?en)\<rparr>"
        using run' rq rest Inr by simp
      ultimately show ?thesis using b reg by (simp add: engine_inv_def)
    next
      case (Inl reason)
      then show ?thesis
        using residual_refused_inv [OF b R l reg, of ?a ?n reason risk' ?a recv e'] run' rq rest by simp
    qed
  qed
qed

lemma commit_replace_steps:
  assumes run: "commit_replace api msg (Some en) mr recv e = Some e'"
    and l: "ledger_ok (registry e) (eng_risk e)" and en: "registry e (cr_order_id msg) = Some en"
  obtains e1 e2 e3 where "registry e1 = (registry e)(cr_order_id msg := None)"
    "ledger_ok (registry e1) (eng_risk e1)" "same_frame e e1"
    "emit_fills_for_taker (cr_order_id msg) (cr_account_id msg) (cr_new_qty msg) recv e1 = Some e2"
    "emit_stp_cancels recv e2 = Some e3" "dispose_replace api msg (Some en) mr recv e3 = Some e'"
proof -
  let ?e = "e\<lparr>eng_risk := on_order_removed (re_account_id en) (re_notional en) (eng_risk e),
              registry := (registry e)(cr_order_id msg := None)\<rparr>"
  obtain e1 e2 e3 where r: "emit_exec_report_replaced (cr_order_id msg) (cr_account_id msg) (cr_new_qty msg) recv ?e = Some e1"
    "emit_fills_for_taker (cr_order_id msg) (cr_account_id msg) (cr_new_qty msg) recv e1 = Some e2"
    "emit_stp_cancels recv e2 = Some e3" "dispose_replace api msg (Some en) mr recv e3 = Some e'"
    using run by (auto simp: commit_replace_def Let_def Option.bind_eq_Some_conv)
  have "same_frame ?e e1" "registry e1 = registry ?e" "eng_risk e1 = eng_risk ?e"
    using emission_frame [OF emit_emission(5) [OF r(1)]] by (auto simp: ledger_def)
  then show thesis
    using that [OF _ _ _ r(2-)] ledger_ok_drop [where oid = "cr_order_id msg", OF l en]
    by (simp add: same_frame_def)
qed

lemma commit_in_place_inv:
  assumes b: "good_book queue level_ok b" and m: "index b (cr_order_id msg) = Some m"
    and reg: "registry e = reg_of queue b" and l: "ledger_ok (registry e) (eng_risk e)"
    and ok: "cancel_replace_ok msg" and own: "om_account_id m = cr_account_id msg" and p: "cr_new_price msg = om_price m"
    and rep: "replaced_in_place queue b (cr_order_id msg) m (cr_new_qty msg) (eng_book e)"
    and b': "book_inv queue level_ok (eng_book e)" and bufs: "fills_buf e = []" "stp_buf e = []"
    and run: "commit_replace api msg (Some en) None recv e = Some e'" and en: "registry e (cr_order_id msg) = Some en"
  shows "engine_inv queue level_ok e' \<and> book_seq (eng_book e') = book_seq (eng_book e)"
proof -
  obtain e1 e2 e3 where s: "registry e1 = (registry e)(cr_order_id msg := None)"
    "ledger_ok (registry e1) (eng_risk e1)" "same_frame e e1"
    "emit_fills_for_taker (cr_order_id msg) (cr_account_id msg) (cr_new_qty msg) recv e1 = Some e2"
    "emit_stp_cancels recv e2 = Some e3" "dispose_replace api msg (Some en) None recv e3 = Some e'"
    using commit_replace_steps [OF run l en] by blast
  have e3: "e3 = e1" using s(3-5) bufs by (auto simp: emit_fills_for_taker_def emit_stp_cancels_def same_frame_def)
  have side: "re_side en = om_side m" using en reg reg_of_known [OF good_book_wf [OF b] m] by auto
  have good: "good_book queue level_ok (eng_book e)"
    by (rule good_book_mono [OF b b']) (use rep in \<open>simp add: replaced_in_place_def\<close>)
  have "reg_of queue (eng_book e) = (registry e)(cr_order_id msg \<mapsto>
      entry_for (cr_account_id msg) (re_side en) (cr_new_price msg, as_lots (cr_new_qty msg)))"
    using rep ok reg_of_in_place [OF good_bookD [OF b] m] reg own p side
    by (auto simp: replaced_in_place_def cancel_replace_ok_def)
  then show ?thesis
    using dispose_replace_inv [where stp = False and rem = "Some (cr_new_qty msg)" and mr = None and en = en
        and e = e1 and msg = msg and e' = e' and recv = recv and old_entry = "Some en"] s e3 good
    by (simp add: same_frame_def)
qed

lemma re_rested_good:
  assumes b: "good_book queue level_ok b2" and ok: "cancel_replace_ok msg" and own: "om_account_id m = cr_account_id msg"
    and nc: "qty_ok rq \<and> \<not> would_cross b2 (om_side m) (Some (cr_new_price msg))"
    and add: "add_resting api b2 (re_rest (cr_order_id msg) m (cr_new_price msg) rq) = (Inr (), b3)"
  shows "good_book queue level_ok b3 \<and> book_seq b3 = book_seq b2 + 1 \<and> reg_of queue b3 = (reg_of queue b2)
    (cr_order_id msg \<mapsto> entry_for (cr_account_id msg) (om_side m) (cr_new_price msg, as_lots rq))"
proof -
  have "order_id_ok (cr_order_id msg)" "price_ok (cr_new_price msg)" "account_id_ok (om_account_id m)"
    using ok own by (simp_all add: cancel_replace_ok_def)
  then show ?thesis
    using good_book_added [OF b _ _ _ _ _ add] reg_of_added [OF good_bookD [OF b] _ _ add]
      add_resting_ok(6) [OF good_bookD [OF b] _ _ add] nc own
    by (simp add: re_rest_def)
qed

lemma commit_walked_inv:
  assumes b: "good_book queue level_ok b" and m: "index b (cr_order_id msg) = Some m"
    and reg: "registry e = reg_of queue b" and l: "ledger_ok (registry e) (eng_risk e)"
    and ok: "cancel_replace_ok msg" and own: "om_account_id m = cr_account_id msg"
    and gate: "\<not> post_only_gate (prune_level api (om_side m) (om_price m) (removed api (cr_order_id msg) m b))
      (resubmit (cr_order_id msg) m (cr_new_price msg) (cr_new_qty msg))"
    and walk: "match_aggressive api nti (prune_level api (om_side m) (om_price m) (removed api (cr_order_id msg) m b))
      (resubmit (cr_order_id msg) m (cr_new_price msg) (cr_new_qty msg)) ids [] [] =
      Some (res, b2, ids', fills_buf e, stp_buf e)"
    and add: "\<And>rq. \<not> mr_taker_stp_cancelled res \<Longrightarrow> mr_taker_remaining res = Some rq \<Longrightarrow>
      add_resting api b2 (re_rest (cr_order_id msg) m (cr_new_price msg) rq) = (Inr (), eng_book e)"
    and gone: "mr_taker_stp_cancelled res \<or> mr_taker_remaining res = None \<Longrightarrow> eng_book e = b2"
    and run: "commit_replace api msg (Some en) (Some res) recv e = Some e'" and en: "registry e (cr_order_id msg) = Some en"
  shows "engine_inv queue level_ok e' \<and> unat (book_seq (eng_book e')) \<le> Suc (unat (book_seq b))"
proof -
  let ?oid = "cr_order_id msg" and ?t = "resubmit (cr_order_id msg) m (cr_new_price msg) (cr_new_qty msg)"
  let ?b1 = "prune_level api (om_side m) (om_price m) (removed api ?oid m b)"
  obtain e1 e2 e3 where s: "registry e1 = (registry e)(?oid := None)"
    "ledger_ok (registry e1) (eng_risk e1)" "same_frame e e1"
    "emit_fills_for_taker ?oid (cr_account_id msg) (cr_new_qty msg) recv e1 = Some e2"
    "emit_stp_cancels recv e2 = Some e3" "dispose_replace api msg (Some en) (Some res) recv e3 = Some e'"
    using commit_replace_steps [OF run l en] by blast
  have reg1: "registry e1 = reg_of queue ?b1" using reg_of_removed [OF good_book_wf [OF b] m] reg s(1) by simp
  have walk': "match_aggressive api nti ?b1 ?t ids [] [] = Some (res, b2, ids', fills_buf e1, stp_buf e1)"
    using walk s(3) by (simp add: same_frame_def)
  note w = walk_reported [OF good_book_removed [OF b m] reg1 s(2) gate walk' s(4,5)]
  have side: "re_side en = om_side m" using en reg reg_of_known [OF good_book_wf [OF b] m] by auto
  have fr: "eng_book e3 = eng_book e" using s(3) w(4) by (simp add: same_frame_def)
  have fresh: "registry e3 ?oid = None"
    using w(2,5) reg_of_dom [OF good_book_wf [OF w(1)]] by (auto simp: map_le_def dom_def)
  have rested: "good_book queue level_ok (eng_book e) \<and> book_seq (eng_book e) = book_seq b2 + 1 \<and>
      reg_of queue (eng_book e) = (registry e3)(?oid \<mapsto> entry_for (cr_account_id msg) (re_side en) (cr_new_price msg, as_lots rq))"
    if r: "\<not> mr_taker_stp_cancelled res" "mr_taker_remaining res = Some rq" for rq
    using re_rested_good [OF w(1) ok own _ add [OF r]] w(7) [OF r, of "cr_new_price msg"] w(2) side
    by (simp add: resubmit_def)
  have seq: "unat (book_seq (eng_book e)) \<le> Suc (unat (book_seq b))"
    using rested gone w(6) unat_Suc_le [of "book_seq b2"]
    by (cases "mr_taker_stp_cancelled res \<or> mr_taker_remaining res = None") auto
  have "engine_inv queue level_ok e' \<and> book_seq (eng_book e') = book_seq (eng_book e3)"
  proof (rule dispose_replace_inv [where stp = "mr_taker_stp_cancelled res" and rem = "mr_taker_remaining res"
        and mr = "Some res", OF _ fresh w(3) refl _ _ _ s(6)])
    show "good_book queue level_ok (eng_book e3)"
      using rested gone w(1) fr by (cases "mr_taker_stp_cancelled res \<or> mr_taker_remaining res = None") auto
  qed (use rested gone w(2) fr in auto)
  then show ?thesis using seq fr by simp
qed

lemma handle_cancel_replace_cases:
  assumes run: "handle_cancel_replace api msg recv e = Some e'"
  obtains reason where "emit_rejected (cr_order_id msg) (cr_account_id msg) reason recv e = Some e'"
  | out b' ids' F S where "\<forall>en. registry e (cr_order_id msg) = Some en \<longrightarrow> re_account_id en = cr_account_id msg"
      "replace api next_trade_id (eng_book e) (cr_order_id msg) (cr_new_price msg) (cr_new_qty msg) (eng_ids e) [] [] =
        Some (out, b', ids', F, S)"
      "conclude_replace api msg (registry e (cr_order_id msg)) out recv
        (e\<lparr>eng_book := b', eng_ids := ids', fills_buf := F, stp_buf := S\<rparr>) = Some e'"
proof -
  have "(\<exists>reason. emit_rejected (cr_order_id msg) (cr_account_id msg) reason recv e = Some e') \<or>
      (\<forall>en. registry e (cr_order_id msg) = Some en \<longrightarrow> re_account_id en = cr_account_id msg) \<and>
      (\<exists>out b' ids' F S. replace api next_trade_id (eng_book e) (cr_order_id msg) (cr_new_price msg) (cr_new_qty msg)
          (eng_ids e) [] [] = Some (out, b', ids', F, S) \<and>
        conclude_replace api msg (registry e (cr_order_id msg)) out recv
          (e\<lparr>eng_book := b', eng_ids := ids', fills_buf := F, stp_buf := S\<rparr>) = Some e')"
    using run by (auto simp: handle_cancel_replace_def Let_def Option.bind_eq_Some_conv
        split: sum.splits if_splits option.splits)
  then show thesis using that by blast
qed

lemma handle_cancel_replace_inv:
  assumes inv: "engine_inv queue level_ok e" and ok: "cancel_replace_ok msg"
    and room: "arrivals e < 2 ^ 64 - 1" and run: "handle_cancel_replace api msg recv e = Some e'"
  shows "keeps_inv queue level_ok e e'"
proof -
  let ?oid = "cr_order_id msg" and ?a = "cr_account_id msg"
  have b: "good_book queue level_ok (eng_book e)" and reg: "registry e = reg_of queue (eng_book e)"
    and l: "ledger_ok (registry e) (eng_risk e)" using inv by (auto simp: engine_inv_def)
  have q: "qty_ok (cr_new_qty msg)" using ok by (simp add: cancel_replace_ok_def)
  from run show ?thesis
  proof (cases rule: handle_cancel_replace_cases)
    case (1 reason)
    then show ?thesis using emission_keeps [OF emit_emission(1) inv] by blast
  next
    case (2 out b' ids' F S)
    let ?e = "e\<lparr>eng_book := b', eng_ids := ids', fills_buf := F, stp_buf := S\<rparr>"
    have unchanged: "keeps_inv queue level_ok e e'" if "b' = eng_book e" "emission ?e e'"
    proof (rule emission_after [OF that(2)])
      show "engine_inv queue level_ok ?e" using inv that(1) engine_inv_cong [of ?e e] by simp
    qed (simp add: arrivals_def that(1))
    show ?thesis
    proof (cases "index (eng_book e) ?oid")
      case None
      then show ?thesis
        using 2(2,3) emit_emission(1) by (intro unchanged) (auto simp: replace_def conclude_replace_def)
    next
      case (Some m)
      obtain en where en: "registry e ?oid = Some en" "re_account_id en = om_account_id m"
        using reg reg_of_known [OF good_book_wf [OF b] Some] by auto
      have own: "om_account_id m = ?a" using 2(1) en by simp
      have room': "unat (book_seq (eng_book e)) < 2 ^ 64 - 1" using room by (simp add: arrivals_def)
      from good_bookD [OF b] Some q room' 2(2) show ?thesis
      proof (cases rule: replace_outcomes)
        case in_place
        then have "engine_inv queue level_ok e' \<and> book_seq (eng_book e') = book_seq (eng_book ?e)"
          using commit_in_place_inv [OF b Some, of ?e en recv e'] reg l ok own en(1) 2(3)
          by (simp add: conclude_replace_def)
        then show ?thesis using in_place(7) by (simp add: keeps_inv_def arrivals_def)
      next
        case (rejected r)
        then show ?thesis
          using 2(3) emit_emission(1) by (intro unchanged) (auto simp: conclude_replace_def)
      next
        case (walked res b2)
        then have "engine_inv queue level_ok e' \<and> unat (book_seq (eng_book e')) \<le> Suc (unat (book_seq (eng_book e)))"
          using commit_walked_inv [OF b Some, of ?e next_trade_id "eng_ids e" res b2 ids' en recv e'] reg l ok own en(1) 2(3)
          by (simp add: conclude_replace_def)
        then show ?thesis by (simp add: keeps_inv_def arrivals_def)
      qed
    qed
  qed
qed

end

end
