(* ===== verification/Engine_Run.thy ===== *)
theory Engine_Run
  imports Engine_Replace
begin

text \<open>
  Runs of the engine. \<open>reachable\<close> is the transition system of the single writer: commands are
  stepped in order, the consumer may drain the sink and the harness may set the clock in between.
\<close>

section \<open>The transition system\<close>

inductive reachable :: "'l pl_api \<Rightarrow> counter_ids \<Rightarrow> nat \<Rightarrow> 'l engine \<Rightarrow> bool"
  for api :: "'l pl_api" and ids :: counter_ids where
  start: "reachable api ids 0 (Engine_new c ids VecSink_new)"
| command: "reachable api ids n e \<Longrightarrow> inbound_ok msg \<Longrightarrow> step api msg e = Some e' \<Longrightarrow>
    reachable api ids (Suc n) e'"
| drain: "reachable api ids n e \<Longrightarrow> VecSink_take (eng_sink e) = (out, sink') \<Longrightarrow>
    reachable api ids n (e\<lparr>eng_sink := sink'\<rparr>)"
| set_clock: "reachable api ids n e \<Longrightarrow> reachable api ids n (e\<lparr>eng_clock := StubClock_set t (eng_clock e)\<rparr>)"

inductive_cases reachable_0E: "reachable api ids 0 e"

lemma run_steps_append: "run_steps api (xs @ ys) e = Option.bind (run_steps api xs e) (run_steps api ys)"
  by (induction xs arbitrary: e) (auto split: Option.bind_split)

lemma run_steps_reachable:
  "run_steps api msgs e = Some e' \<Longrightarrow> reachable api ids n e \<Longrightarrow> list_all inbound_ok msgs \<Longrightarrow>
   reachable api ids (n + length msgs) e'"
proof (induction msgs arbitrary: e n)
  case (Cons m ms)
  then obtain e1 where "step api m e = Some e1" "run_steps api ms e1 = Some e'"
    by (auto simp: Option.bind_eq_Some_conv)
  then show ?case using Cons.IH [of e1 "Suc n"] Cons.prems reachable.command [of api ids n e m e1] by simp
qed simp

section \<open>The invariant along a run\<close>

lemma capture_frame [simp]:
  "engine_inv queue level_ok (capture_pre_step_levels api e) = engine_inv queue level_ok e"
  "engine_inv queue level_ok (capture_post_step_levels api e) = engine_inv queue level_ok e"
  "arrivals (capture_pre_step_levels api e) = arrivals e"
  "arrivals (capture_post_step_levels api e) = arrivals e"
  by (simp_all add: capture_pre_step_levels_def capture_post_step_levels_def engine_inv_def arrivals_def)

lemma clock_now_frame [simp]:
  "engine_inv queue level_ok (snd (clock_now e)) = engine_inv queue level_ok e"
  "arrivals (snd (clock_now e)) = arrivals e"
  by (simp_all add: clock_now_def engine_inv_def arrivals_def)

lemma emit_tail_emission: "emit_tail api recv e = Some e' \<Longrightarrow> emission (capture_post_step_levels api e) e'"
  unfolding emit_tail_def emit_l2_deltas_def
  by (auto simp: Option.bind_eq_Some_conv dest!: emit_l2_merge_emission emit_emission intro: emission_trans)

context price_level_total
begin

lemma dispatch_inv:
  assumes "engine_inv queue level_ok e" "inbound_ok msg" "arrivals e < 2 ^ 64 - 1"
    and "dispatch api msg recv e = Some e'"
  shows "keeps_inv queue level_ok e e'"
proof (cases msg)
  case (In_KillSwitchSet k)
  then have "e' = handle_kill_switch k e" using assms(4) by simp
  then show ?thesis
    using assms(1)
    by (auto simp: keeps_inv_def engine_inv_def arrivals_def handle_kill_switch_def Let_def ledger_ok_kill)
next
  case (In_SnapshotRequest r)
  then show ?thesis using assms emission_keeps [OF emit_emission(10)] by auto
qed (use assms in \<open>auto intro: handle_new_order_inv handle_cancel_order_inv handle_cancel_replace_inv
    handle_mass_cancel_inv\<close>)

lemma step_inv:
  assumes inv: "engine_inv queue level_ok e" and ok: "inbound_ok msg" and room: "arrivals e < 2 ^ 64 - 1"
    and run: "step api msg e = Some e'"
  shows "keeps_inv queue level_ok e e'"
proof -
  obtain recv e1 where c: "clock_now e = (recv, e1)" by fastforce
  define e2 where "e2 = (if emit_book_changes msg then capture_pre_step_levels api e1 else e1)"
  have e2: "engine_inv queue level_ok e2" "arrivals e2 = arrivals e"
    using inv clock_now_frame(1) [of queue level_ok e] clock_now_frame(2) [of e] c by (simp_all add: e2_def)
  obtain e3 where d: "dispatch api msg recv e2 = Some e3"
    and t: "(if emit_book_changes msg then emit_tail api recv e3 else Some e3) = Some e'"
    using run c by (auto simp: step_def Let_def e2_def Option.bind_eq_Some_conv)
  have k: "keeps_inv queue level_ok e2 e3" using dispatch_inv [OF e2(1) ok _ d] e2(2) room by simp
  show ?thesis
  proof (cases "emit_book_changes msg")
    case True
    then have em: "emission (capture_post_step_levels api e3) e'" using t emit_tail_emission by simp
    show ?thesis by (rule emission_after [OF em]) (use k e2(2) in \<open>simp_all add: keeps_inv_def\<close>)
  next
    case False
    then show ?thesis using t k e2(2) by (simp add: keeps_inv_def)
  qed
qed

lemma run_steps_inv:
  assumes "engine_inv queue level_ok e" "list_all inbound_ok msgs" "arrivals e + length msgs < 2 ^ 64"
    and "run_steps api msgs e = Some e'"
  shows "engine_inv queue level_ok e' \<and> arrivals e' \<le> arrivals e + length msgs"
  using assms
proof (induction msgs arbitrary: e)
  case (Cons m ms)
  then obtain e1 where s: "step api m e = Some e1" "run_steps api ms e1 = Some e'"
    by (auto simp: Option.bind_eq_Some_conv)
  have k: "keeps_inv queue level_ok e e1" using step_inv [OF Cons.prems(1) _ _ s(1)] Cons.prems by simp
  then have "engine_inv queue level_ok e' \<and> arrivals e' \<le> arrivals e1 + length ms"
    using Cons.IH [OF _ _ _ s(2)] Cons.prems by (simp add: keeps_inv_def)
  then show ?case using k by (simp add: keeps_inv_def)
qed simp

lemma reachable_inv:
  "reachable api ids n e \<Longrightarrow> n < 2 ^ 64 \<Longrightarrow> engine_inv queue level_ok e \<and> arrivals e \<le> n"
proof (induction rule: reachable.induct)
  case (start c)
  then show ?case using engine_inv_new by (simp add: arrivals_def Engine_new_def)
next
  case (command n e msg e')
  then have "keeps_inv queue level_ok e e'" using step_inv [OF _ command(2) _ command(3)] by simp
  then show ?case using command by (simp add: keeps_inv_def)
next
  case (drain n e out sink')
  then show ?case using engine_inv_cong [of "e\<lparr>eng_sink := sink'\<rparr>" e] by (simp add: arrivals_def)
next
  case (set_clock n e t)
  then show ?case
    using engine_inv_cong [of "e\<lparr>eng_clock := StubClock_set t (eng_clock e)\<rparr>" e] by (simp add: arrivals_def)
qed

end

end
