(* ===== verification/L2.thy ===== *)
theory L2
  imports Engine_Run
begin

text \<open>
  The level-2 feed. \<^verbatim>\<open>emit_l2_deltas\<close> compares the levels captured before and after a command with
  two pointers. \<open>l2_diff\<close> is the list of changes it publishes; on key-sorted captures it is the
  exact difference of the two, in key order, so a consumer that applies the deltas of every
  command keeps a copy of the depth of the book.
\<close>

section \<open>Levels by key\<close>

abbreviation level_key :: "side \<times> price \<times> u64 \<Rightarrow> side \<times> price" where
  "level_key x \<equiv> (fst x, fst (snd x))"

definition level_at :: "(side \<times> price \<times> u64) list \<Rightarrow> side \<times> price \<rightharpoonup> u64" where
  "level_at ls = map_of (map (\<lambda>(s, p, q). ((s, p), q)) ls)"

definition key_sorted :: "(side \<times> price \<times> u64) list \<Rightarrow> bool" where
  "key_sorted ls \<longleftrightarrow> sorted_wrt key_less (map level_key ls)"

text \<open>The depth a consumer sees at a key; a level without quantity is not shown.\<close>

definition shown :: "'l pl_api \<Rightarrow> 'l book \<Rightarrow> side \<times> price \<rightharpoonup> u64" where
  "shown api b k =
     (let q = qty_at_level api b (fst k) (snd k) in if q = 0 then None else Some q)"

definition apply_delta :: "l2_delta \<Rightarrow> (side \<times> price \<rightharpoonup> u64) \<Rightarrow> side \<times> price \<rightharpoonup> u64" where
  "apply_delta d m = m((bd_side d, bd_price d) := map_option as_lots (bd_new_qty d))"

definition delta_level :: "l2_delta \<Rightarrow> side \<times> price \<times> u64" where
  "delta_level d = (bd_side d, bd_price d, unwrap_or (map_option as_lots (bd_new_qty d)) 0)"

text \<open>A delta removes a level or sets it to a positive quantity.\<close>

definition delta_ok :: "l2_delta \<Rightarrow> bool" where
  "delta_ok d \<longleftrightarrow> bd_new_qty d \<noteq> Some (Qty 0)"

fun l2_diff ::
  "(side \<times> price \<times> u64) list \<Rightarrow> (side \<times> price \<times> u64) list \<Rightarrow> (side \<times> price \<times> u64) list" where
  "l2_diff [] [] = []"
| "l2_diff ((s, p, q) # pre) [] = (s, p, 0) # l2_diff pre []"
| "l2_diff [] ((s', p', q') # post) = (s', p', q') # l2_diff [] post"
| "l2_diff ((s, p, q) # pre) ((s', p', q') # post) =
     (if s = s' \<and> p = p' then (if q \<noteq> q' then [(s', p', q')] else []) @ l2_diff pre post
      else if key_less (s, p) (s', p') then (s, p, 0) # l2_diff pre ((s', p', q') # post)
      else (s', p', q') # l2_diff ((s, p, q) # pre) post)"

section \<open>The key order\<close>

lemma side_as_u8_inject [simp]: "side_as_u8 s = side_as_u8 s' \<longleftrightarrow> s = s'"
  by (cases s; cases s') simp_all

lemma key_less_irrefl [simp]: "\<not> key_less k k"
  by (simp add: key_less_def)

lemma key_less_trans [trans]: "key_less a b \<Longrightarrow> key_less b c \<Longrightarrow> key_less a c"
  by (auto simp: key_less_def)

lemma key_less_linear: "a \<noteq> b \<Longrightarrow> \<not> key_less a b \<Longrightarrow> key_less b a"
  by (cases a; cases b) (auto simp: key_less_def not_less_iff_gr_or_eq)

lemma key_sorted_Nil [simp]: "key_sorted []"
  by (simp add: key_sorted_def)

lemma key_sorted_Cons:
  "key_sorted ((s, p, q) # ls) \<longleftrightarrow> (\<forall>x \<in> set ls. key_less (s, p) (level_key x)) \<and> key_sorted ls"
  by (simp add: key_sorted_def)

lemma level_at_simps [simp]:
  "level_at [] k = None"
  "level_at ((s, p, q) # ls) k = (if k = (s, p) then Some q else level_at ls k)"
  by (auto simp: level_at_def)

lemma level_at_None: "level_at ls k = None \<longleftrightarrow> (\<forall>x \<in> set ls. level_key x \<noteq> k)"
  by (auto simp: level_at_def map_of_eq_None_iff image_iff split_def)

lemma level_at_below: "(\<And>x. x \<in> set ls \<Longrightarrow> key_less k (level_key x)) \<Longrightarrow> level_at ls k = None"
  using key_less_irrefl by (fastforce simp: level_at_None)

section \<open>The difference is exact\<close>

lemma l2_diff_keys: "x \<in> set (l2_diff pre post) \<Longrightarrow> level_key x \<in> level_key ` (set pre \<union> set post)"
  by (induction pre post rule: l2_diff.induct) (auto split: if_splits)

lemma l2_diff_sorted: "key_sorted pre \<Longrightarrow> key_sorted post \<Longrightarrow> key_sorted (l2_diff pre post)"
proof (induction pre post rule: l2_diff.induct)
  case (4 s p q pre s' p' q' post)
  have keys: "x \<in> set (l2_diff as bs) \<Longrightarrow> (\<And>y. y \<in> set as \<union> set bs \<Longrightarrow> key_less k (level_key y)) \<Longrightarrow>
      key_less k (level_key x)" for x as bs k
    using l2_diff_keys [of x as bs] by (metis (no_types, lifting) imageE)
  consider (eq) "s = s'" "p = p'" | (lt) "key_less (s, p) (s', p')" "(s, p) \<noteq> (s', p')"
    | (gt) "key_less (s', p') (s, p)" "\<not> key_less (s, p) (s', p')" "(s, p) \<noteq> (s', p')"
    using key_less_linear [of "(s, p)" "(s', p')"] key_less_irrefl by blast
  then show ?case
  proof cases
    case eq
    then show ?thesis using 4 by (auto simp: key_sorted_Cons elim!: keys)
  next
    case lt
    then have "\<forall>x \<in> set post. key_less (s, p) (level_key x)"
      using 4(5) key_less_trans [OF lt(1)] by (simp add: key_sorted_Cons)
    then show ?thesis using 4 lt by (auto simp: key_sorted_Cons elim!: keys)
  next
    case gt
    then have "\<forall>x \<in> set pre. key_less (s', p') (level_key x)"
      using 4(4) key_less_trans [OF gt(1)] by (simp add: key_sorted_Cons)
    then show ?thesis using 4 gt by (auto simp: key_sorted_Cons elim!: keys)
  qed
qed (auto simp: key_sorted_Cons dest!: l2_diff_keys)

lemma l2_diff_at:
  "key_sorted pre \<Longrightarrow> key_sorted post \<Longrightarrow>
   level_at (l2_diff pre post) k =
     (if level_at pre k = level_at post k then None else Some (unwrap_or (level_at post k) 0))"
proof (induction pre post rule: l2_diff.induct)
  case (4 s p q pre s' p' q' post)
  have pre: "level_at pre (s, p) = None" and post: "level_at post (s', p') = None"
    using 4(4,5) by (auto simp: key_sorted_Cons intro!: level_at_below)
  consider (eq) "s = s'" "p = p'" | (lt) "key_less (s, p) (s', p')" "(s, p) \<noteq> (s', p')"
    | (gt) "key_less (s', p') (s, p)" "\<not> key_less (s, p) (s', p')" "(s, p) \<noteq> (s', p')"
    using key_less_linear [of "(s, p)" "(s', p')"] key_less_irrefl by blast
  then show ?case
  proof cases
    case eq
    then show ?thesis using 4 pre post by (auto simp: key_sorted_Cons)
  next
    case lt
    then have "level_at post (s, p) = None"
      using 4(5) key_less_trans [OF lt(1)] by (auto simp: key_sorted_Cons intro!: level_at_below)
    then show ?thesis using 4 lt pre by (auto simp: key_sorted_Cons)
  next
    case gt
    then have "level_at pre (s', p') = None"
      using 4(4) key_less_trans [OF gt(1)] by (auto simp: key_sorted_Cons intro!: level_at_below)
    then show ?thesis using 4 gt post by (auto simp: key_sorted_Cons)
  qed
qed (auto simp: key_sorted_Cons level_at_below)

lemma apply_deltas:
  "key_sorted (map delta_level ds) \<Longrightarrow> list_all delta_ok ds \<Longrightarrow>
   fold apply_delta ds m k =
     (case level_at (map delta_level ds) k of
        None \<Rightarrow> m k
      | Some q \<Rightarrow> if q = 0 then None else Some q)"
proof (induction ds arbitrary: m)
  case (Cons d ds)
  have d: "delta_level d = (bd_side d, bd_price d, unwrap_or (map_option as_lots (bd_new_qty d)) 0)"
    by (simp add: delta_level_def)
  have ok: "(case bd_new_qty d of None \<Rightarrow> True | Some q \<Rightarrow> as_lots q \<noteq> 0)"
    using Cons.prems by (auto simp: delta_ok_def split: option.split) (metis qty.collapse)
  have none: "level_at (map delta_level ds) (bd_side d, bd_price d) = None"
    using Cons.prems unfolding list.map d key_sorted_Cons by (intro level_at_below) auto
  have step: "fold apply_delta (d # ds) m k =
      (case level_at (map delta_level ds) k of
         None \<Rightarrow> apply_delta d m k | Some q \<Rightarrow> if q = 0 then None else Some q)"
    using Cons.IH [of "apply_delta d m"] Cons.prems unfolding list.map d key_sorted_Cons by simp
  show ?case
    using none ok unfolding step list.map d
    by (cases "bd_new_qty d") (auto simp: apply_delta_def split: option.split)
qed simp

section \<open>What the engine publishes\<close>

lemma emit_l2_delta_emits:
  assumes "emit_l2_delta s p n recv e = Some e'"
  shows "\<exists>d. emits [Out_BookUpdateL2Delta d] e e' \<and> same_core e e' \<and> delta_level d = (s, p, n) \<and> delta_ok d"
proof -
  let ?nq = "if n = 0 then None else ok (Qty_new n)"
  let ?mk = "\<lambda>sq now. Out_BookUpdateL2Delta
    \<lparr>bd_engine_seq = sq, bd_price = p, bd_new_qty = ?nq, bd_side = s, bd_emit_ts = now\<rparr>"
  have p: "publish ?mk e = Some e'" using assms by (simp add: emit_l2_delta_def Let_def)
  have "\<And>sq now. outbound_seq (?mk sq now) = sq" by simp
  from publish_spec [OF p this] obtain sq now where "emits [?mk sq now] e e'" "same_core e e'" by blast
  then show ?thesis
    by (intro exI [of _ "\<lparr>bd_engine_seq = sq, bd_price = p, bd_new_qty = ?nq, bd_side = s, bd_emit_ts = now\<rparr>"])
      (simp add: delta_level_def delta_ok_def Qty_new_ok)
qed

text \<open>\<open>feeds xs e e'\<close>: what was published from \<open>e\<close> to \<open>e'\<close> is one delta for each change in \<open>xs\<close>.\<close>

definition feeds :: "(side \<times> price \<times> u64) list \<Rightarrow> 'l engine \<Rightarrow> 'l engine \<Rightarrow> bool" where
  "feeds xs e e' \<longleftrightarrow>
     (\<exists>ds. emits (map Out_BookUpdateL2Delta ds) e e' \<and> same_core e e' \<and>
        map delta_level ds = xs \<and> list_all delta_ok ds)"

lemma feeds_Nil: "feeds [] e e"
  unfolding feeds_def by (intro exI [of _ "[]"]) simp

lemma feeds_Cons:
  assumes "emit_l2_delta s p n recv e = Some e1" "feeds xs e1 e'"
  shows "feeds ((s, p, n) # xs) e e'"
proof -
  obtain d where d: "emits [Out_BookUpdateL2Delta d] e e1" "same_core e e1" "delta_level d = (s, p, n)" "delta_ok d"
    using emit_l2_delta_emits [OF assms(1)] by blast
  obtain ds where ds: "emits (map Out_BookUpdateL2Delta ds) e1 e'" "same_core e1 e'"
      "map delta_level ds = xs" "list_all delta_ok ds"
    using assms(2) unfolding feeds_def by blast
  then show ?thesis
    unfolding feeds_def using d emits_trans [OF d(1) ds(1)] same_core_trans [OF d(2) ds(2)]
    by (intro exI [of _ "d # ds"]) simp
qed

lemma emit_l2_merge_feeds: "emit_l2_merge pre post recv e = Some e' \<Longrightarrow> feeds (l2_diff pre post) e e'"
  by (induction pre post recv e arbitrary: e' rule: emit_l2_merge.induct)
    (auto simp: Option.bind_eq_Some_conv feeds_Nil split: if_splits intro: feeds_Cons)

section \<open>Captured levels\<close>

lemma capture_levels_eq:
  "capture_levels api b =
     map (\<lambda>(p, l). (Bid, p, unwrap_or (pl_total_quantity api l) 0)) (bids b) @
     map (\<lambda>(p, l). (Ask, p, unwrap_or (pl_total_quantity api l) 0)) (asks b)"
  by (simp add: capture_levels_def bid_levels_def ask_levels_def rev_map [symmetric] split_def comp_def)

lemma capture_levels_sorted:
  assumes "levels_wf level_ok b"
  shows "key_sorted (capture_levels api b)"
proof -
  have "btm_ok (bids b)" "btm_ok (asks b)"
    using levels_wfD [OF assms, of Bid] levels_wfD [OF assms, of Ask] by simp_all
  then show ?thesis
    by (auto simp: capture_levels_eq key_sorted_def sorted_wrt_append sorted_wrt_map key_less_def split_def
        btm_ok_def intro: sorted_wrt_mono_rel)
qed

lemma level_at_append: "level_at (xs @ ys) k = (case level_at xs k of None \<Rightarrow> level_at ys k | Some q \<Rightarrow> Some q)"
  by (simp add: level_at_def map_add_def split: option.split)

lemma level_at_side:
  "level_at (map (\<lambda>(p, l). (s, p, f l)) m) (s', p) = (if s' = s then map_option f (btm_get m p) else None)"
  by (induction m) (auto simp: btm_get_def)

lemma capture_levels_at:
  "level_at (capture_levels api b) (s, p) =
     map_option (\<lambda>l. unwrap_or (pl_total_quantity api l) 0) (btm_get (levels_of s b) p)"
  by (cases s) (simp_all add: capture_levels_eq level_at_append level_at_side split: option.split)

lemma shown_capture:
  "shown api b k = (case level_at (capture_levels api b) k of None \<Rightarrow> None | Some q \<Rightarrow> if q = 0 then None else Some q)"
  by (cases k) (simp add: shown_def qty_at_level_def capture_levels_at Let_def split: option.split)

lemma deltas_mirror:
  assumes "levels_wf level_ok b" "levels_wf level_ok b'"
    and ds: "map delta_level ds = l2_diff (capture_levels api b) (capture_levels api b')" "list_all delta_ok ds"
  shows "fold apply_delta ds (shown api b) = shown api b'"
proof
  fix k
  note sorted = capture_levels_sorted [OF assms(1), of api] capture_levels_sorted [OF assms(2), of api]
  have "key_sorted (map delta_level ds)" unfolding ds(1) using sorted by (rule l2_diff_sorted)
  from apply_deltas [OF this ds(2), of "shown api b" k]
  show "fold apply_delta ds (shown api b) k = shown api b' k"
    unfolding ds(1) l2_diff_at [OF sorted] shown_capture by (auto split: option.split)
qed

section \<open>One command\<close>

lemma emit_top_emits:
  assumes "emit_book_update_top api recv e = Some e'"
  shows "\<exists>t. emits [Out_BookUpdateTop t] e e' \<and> same_core e e' \<and>
    map_option fst (bt_bid t) = best_bid (eng_book e) \<and> map_option fst (bt_ask t) = best_ask (eng_book e)"
proof -
  define quote where "quote s = map_option (\<lambda>p. (p, unwrap_or (ok (Qty_new (qty_at api (eng_book e) s p))) Qty_MIN))" for s
  define mk where "mk sq now = \<lparr>bt_engine_seq = sq, bt_bid = quote Bid (best_bid (eng_book e)),
    bt_ask = quote Ask (best_ask (eng_book e)), bt_emit_ts = now\<rparr>" for sq now
  have p: "publish (\<lambda>sq now. Out_BookUpdateTop (mk sq now)) e = Some e'"
    using assms by (simp add: emit_book_update_top_def Let_def quote_def mk_def)
  have "\<And>sq now. outbound_seq (Out_BookUpdateTop (mk sq now)) = sq" by (simp add: mk_def)
  from publish_spec [OF p this] obtain sq now where "emits [Out_BookUpdateTop (mk sq now)] e e'" "same_core e e'"
    by blast
  then show ?thesis
    by (intro exI [of _ "mk sq now"]) (simp add: mk_def quote_def option.map_comp comp_def option.map_ident)
qed

text \<open>\<open>tail_of\<close>: what a command that may change the book publishes after its reports.\<close>

definition tail_of :: "'l pl_api \<Rightarrow> 'l book \<Rightarrow> 'l book \<Rightarrow> outbound list \<Rightarrow> bool" where
  "tail_of api b b' msgs \<longleftrightarrow>
     (\<exists>deltas quote. msgs = map Out_BookUpdateL2Delta deltas @ [Out_BookUpdateTop quote] \<and>
        list_all delta_ok deltas \<and> map delta_level deltas = l2_diff (capture_levels api b) (capture_levels api b') \<and>
        map_option fst (bt_bid quote) = best_bid b' \<and> map_option fst (bt_ask quote) = best_ask b')"

text \<open>\<open>entered e e1\<close>: the handler starts in \<open>e1\<close>, which is \<open>e\<close> up to the clock and the capture.\<close>

definition entered :: "'l engine \<Rightarrow> 'l engine \<Rightarrow> bool" where
  "entered e e1 \<longleftrightarrow>
     eng_book e1 = eng_book e \<and> eng_risk e1 = eng_risk e \<and> registry e1 = registry e \<and>
     eng_ids e1 = eng_ids e \<and> eng_sink e1 = eng_sink e"

lemma step_parts:
  assumes "step api msg e = Some e'" "emit_book_changes msg"
  obtains recv e1 e2 where "entered e e1" "dispatch api msg recv e1 = Some e2"
    "eng_book e' = eng_book e2" "eng_risk e' = eng_risk e2" "registry e' = registry e2"
    "next_trade (eng_ids e') = next_trade (eng_ids e2)"
    "\<And>rs. emits rs e1 e2 \<Longrightarrow> \<exists>feed. emits (rs @ feed) e e' \<and> tail_of api (eng_book e) (eng_book e') feed"
proof -
  obtain recv e0 where c: "clock_now e = (recv, e0)" by fastforce
  define e1 where "e1 = capture_pre_step_levels api e0"
  obtain e2 e3 where d: "dispatch api msg recv e1 = Some e2"
    and m: "emit_l2_deltas recv (capture_post_step_levels api e2) = Some e3"
    and t: "emit_book_update_top api recv e3 = Some e'"
    using assms c by (auto simp: step_def Let_def e1_def emit_tail_def Option.bind_eq_Some_conv)
  have e0: "e0 = e\<lparr>eng_clock_reads := Suc (eng_clock_reads e)\<rparr>" using c by (simp add: clock_now_def)
  let ?e2 = "capture_post_step_levels api e2"
  have pre: "pre_step_levels ?e2 = capture_levels api (eng_book e)"
    using dispatch_some [OF d] by (simp add: emits_some_def capture_post_step_levels_def e1_def capture_pre_step_levels_def e0)
  have post: "post_step_levels ?e2 = capture_levels api (eng_book e2)"
    by (simp add: capture_post_step_levels_def)
  obtain ds where ds: "emits (map Out_BookUpdateL2Delta ds) ?e2 e3" "same_core ?e2 e3" "list_all delta_ok ds"
    "map delta_level ds = l2_diff (capture_levels api (eng_book e)) (capture_levels api (eng_book e2))"
    using emit_l2_merge_feeds [OF m [unfolded emit_l2_deltas_def]] unfolding feeds_def pre post by blast
  obtain q where q: "emits [Out_BookUpdateTop q] e3 e'" "same_core e3 e'"
    "map_option fst (bt_bid q) = best_bid (eng_book e3)" "map_option fst (bt_ask q) = best_ask (eng_book e3)"
    using emit_top_emits [OF t] by blast
  have core: "eng_book e3 = eng_book e2" "eng_book e' = eng_book e2" "eng_risk e' = eng_risk e2"
      "registry e' = registry e2" "next_trade (eng_ids e') = next_trade (eng_ids e2)"
    using ds(2) q(2) by (simp_all add: same_core_def capture_post_step_levels_def)
  show thesis
  proof (rule that [of e1 recv e2])
    show "entered e e1" by (simp add: entered_def e1_def e0 capture_pre_step_levels_def)
    show "\<exists>feed. emits (rs @ feed) e e' \<and> tail_of api (eng_book e) (eng_book e') feed" if rs: "emits rs e1 e2" for rs
    proof (intro exI conjI)
      have "emits rs e ?e2"
        using rs by (simp add: emits_def stream_def seq_no_def e1_def e0 capture_pre_step_levels_def capture_post_step_levels_def)
      from emits_trans [OF this emits_trans [OF ds(1) q(1)]]
      show "emits (rs @ map Out_BookUpdateL2Delta ds @ [Out_BookUpdateTop q]) e e'" .
      show "tail_of api (eng_book e) (eng_book e') (map Out_BookUpdateL2Delta ds @ [Out_BookUpdateTop q])"
        unfolding tail_of_def using ds(3,4) q(3,4) core(1,2) by auto
    qed
  qed (use d core in simp_all)
qed

lemma step_feed:
  assumes "step api msg e = Some e'" "emit_book_changes msg"
  shows "\<exists>reports feed. emits (reports @ feed) e e' \<and> list_all is_report reports \<and> tail_of api (eng_book e) (eng_book e') feed"
proof -
  obtain recv e1 e2 where d: "dispatch api msg recv e1 = Some e2"
    and t: "\<And>rs. emits rs e1 e2 \<Longrightarrow> \<exists>feed. emits (rs @ feed) e e' \<and> tail_of api (eng_book e) (eng_book e') feed"
    using step_parts [OF assms] by metis
  show ?thesis using dispatch_reports [OF d assms(2)] t unfolding emits_some_def by blast
qed

lemma l2_diff_same [simp]: "l2_diff ls ls = []"
  by (induction ls) auto

lemma tail_of_same: "tail_of api b b feed \<Longrightarrow> \<exists>quote. feed = [Out_BookUpdateTop quote]"
  by (auto simp: tail_of_def)

end
