(* ===== verification/Liveness.thy ===== *)
theory Liveness
  imports L2
begin

text \<open>
  The engine makes progress. The only panics of the model are an exhausted id generator and a
  level that answers with a foreign id; under the laws of the level interface a command draws at
  most one trade id per resting order and emits a number of messages linear in the size of the
  book, so it returns as long as the counters have that much room. \<open>returns k m r e\<close> says that \<open>r\<close>
  is a state reached from \<open>e\<close> with at most \<open>k\<close> messages and \<open>m\<close> trade ids.
\<close>

section \<open>Counting\<close>

definition trade_no :: "'l engine \<Rightarrow> nat" where
  "trade_no e = unat (next_trade (eng_ids e))"

definition returns :: "nat \<Rightarrow> nat \<Rightarrow> 'l engine option \<Rightarrow> 'l engine \<Rightarrow> bool" where
  "returns k m r e \<longleftrightarrow>
     (\<exists>e'. r = Some e' \<and> seq_no e' \<le> seq_no e + k \<and> trade_no e' \<le> trade_no e + m)"

lemma returns_Some: "seq_no e' \<le> seq_no e + k \<Longrightarrow> trade_no e' \<le> trade_no e + m \<Longrightarrow> returns k m (Some e') e"
  by (simp add: returns_def)

lemma returns_mono: "returns k m r e \<Longrightarrow> k \<le> k' \<Longrightarrow> m \<le> m' \<Longrightarrow> returns k' m' r e"
  by (auto simp: returns_def)

lemma returns_from:
  "returns k m r e1 \<Longrightarrow> seq_no e1 = seq_no e \<Longrightarrow> trade_no e1 = trade_no e \<Longrightarrow> returns k m r e"
  by (simp add: returns_def)

lemma returns_bind:
  assumes "returns k m r e"
    and "\<And>e1. r = Some e1 \<Longrightarrow> seq_no e1 \<le> seq_no e + k \<Longrightarrow> trade_no e1 \<le> trade_no e + m \<Longrightarrow> returns k' m' (f e1) e1"
  shows "returns (k + k') (m + m') (Option.bind r f) e"
proof -
  obtain e1 where e1: "r = Some e1" "seq_no e1 \<le> seq_no e + k" "trade_no e1 \<le> trade_no e + m"
    using assms(1) by (auto simp: returns_def)
  with assms(2) [OF e1] show ?thesis by (auto simp: returns_def)
qed

lemma counter_frames [simp]:
  "seq_no (e\<lparr>eng_book := b\<rparr>) = seq_no e" "trade_no (e\<lparr>eng_book := b\<rparr>) = trade_no e"
  "seq_no (e\<lparr>eng_risk := r\<rparr>) = seq_no e" "trade_no (e\<lparr>eng_risk := r\<rparr>) = trade_no e"
  "seq_no (e\<lparr>registry := reg\<rparr>) = seq_no e" "trade_no (e\<lparr>registry := reg\<rparr>) = trade_no e"
  "seq_no (e\<lparr>fills_buf := fb\<rparr>) = seq_no e" "trade_no (e\<lparr>fills_buf := fb\<rparr>) = trade_no e"
  "seq_no (e\<lparr>stp_buf := sb\<rparr>) = seq_no e" "trade_no (e\<lparr>stp_buf := sb\<rparr>) = trade_no e"
  "seq_no (e\<lparr>mass_buf := mb\<rparr>) = seq_no e" "trade_no (e\<lparr>mass_buf := mb\<rparr>) = trade_no e"
  "seq_no (e\<lparr>pre_step_levels := ls\<rparr>) = seq_no e" "trade_no (e\<lparr>pre_step_levels := ls\<rparr>) = trade_no e"
  "seq_no (e\<lparr>post_step_levels := ls\<rparr>) = seq_no e" "trade_no (e\<lparr>post_step_levels := ls\<rparr>) = trade_no e"
  "seq_no (e\<lparr>eng_clock_reads := n\<rparr>) = seq_no e" "trade_no (e\<lparr>eng_clock_reads := n\<rparr>) = trade_no e"
  "seq_no (e\<lparr>eng_ids := ids\<rparr>) = unat (next_seq_raw ids)" "trade_no (e\<lparr>eng_ids := ids\<rparr>) = unat (next_trade ids)"
  by (simp_all add: seq_no_def trade_no_def)

lemma unregister_counters [simp]:
  "seq_no (unregister oid e) = seq_no e" "trade_no (unregister oid e) = trade_no e"
  by (simp_all add: unregister_def split: option.split)

lemma settle_counters [simp]:
  "seq_no (settle_maker f e) = seq_no e" "trade_no (settle_maker f e) = trade_no e"
  by (simp_all add: settle_maker_def Let_def split: option.split)

section \<open>Messages of each helper\<close>

lemma publish_returns:
  assumes "seq_no e + 1 < 2 ^ 64"
  shows "returns 1 0 (publish mk e) e"
proof (cases "next_engine_seq (eng_ids e)")
  case None
  then show ?thesis using engine_seqs.next_id_None [of "eng_ids e"] assms by (simp add: seq_no_def)
next
  case (Some r)
  then obtain s ids' where r: "next_engine_seq (eng_ids e) = Some (s, ids')" by (cases r) simp
  then show ?thesis
    using engine_seqs.next_id_Some [OF r]
    by (simp add: returns_def publish_def next_seq_def clock_now_def seq_no_def trade_no_def)
qed

lemma emit_returns:
  assumes "seq_no e + 1 < 2 ^ 64"
  shows "returns 1 0 (emit_rejected oid a reason recv e) e"
    "returns 1 0 (emit_rejected_mass a reason recv e) e"
    "returns 1 0 (emit_exec_report_accepted oid a q recv e) e"
    "returns 1 0 (emit_exec_report_cancelled oid a cr recv e) e"
    "returns 1 0 (emit_exec_report_replaced oid a q recv e) e"
    "returns 1 0 (emit_exec_report_fill oid a st p q leaves recv e) e"
    "returns 1 0 (emit_trade_print_for_fill f s recv e) e"
    "returns 1 0 (emit_l2_delta s p n recv e) e"
    "returns 1 0 (emit_book_update_top api recv e) e"
    "returns 1 0 (handle_snapshot_request api sr recv e) e"
  unfolding emit_defs emit_rejected_mass_eq by (rule publish_returns [OF assms])+

text \<open>Two consecutive stages with the budget split between them.\<close>

lemma returns_then:
  assumes "seq_no e + (k + k') < 2 ^ 64" "seq_no e + k < 2 ^ 64 \<Longrightarrow> returns k 0 r e"
    and "\<And>e1. seq_no e1 + k' < 2 ^ 64 \<Longrightarrow> returns k' 0 (f e1) e1"
  shows "returns (k + k') 0 (Option.bind r f) e"
  using returns_bind [of k 0 r e k' 0 f] assms by simp

lemma emit_fill_returns:
  assumes "seq_no e + 3 < 2 ^ 64"
  shows "returns 3 0 (emit_fill t a recv r f e) e"
proof -
  have "returns (1 + (1 + (1 + 0))) 0 (emit_fill t a recv r f e) e"
    unfolding emit_fill_def Let_def
    by (intro returns_then emit_returns returns_Some) (use assms in simp_all)
  then show ?thesis by (simp add: numeral_3_eq_3)
qed

lemma emit_fills_loop_returns:
  "seq_no e + 3 * length fs < 2 ^ 64 \<Longrightarrow> returns (3 * length fs) 0 (emit_fills_loop t a recv r fs e) e"
proof (induction fs arbitrary: r e)
  case (Cons f fs)
  have "returns (3 + 3 * length fs) 0 (emit_fills_loop t a recv r (f # fs) e) e"
    unfolding emit_fills_loop.simps Let_def
    by (rule returns_then) (use Cons in \<open>auto intro: emit_fill_returns\<close>)
  then show ?case by simp
qed (simp add: returns_def)

lemma emit_stp_loop_returns:
  "seq_no e + length cs < 2 ^ 64 \<Longrightarrow> returns (length cs) 0 (emit_stp_loop recv cs e) e"
proof (induction cs arbitrary: e)
  case (Cons c cs)
  have "returns (1 + length cs) 0 (emit_stp_loop recv (c # cs) e) e"
    unfolding emit_stp_loop.simps
    by (rule returns_then) (use Cons in \<open>auto intro: emit_returns [simplified] returns_from [OF Cons.IH]\<close>)
  then show ?case by simp
qed (simp add: returns_def)

lemma emit_mass_loop_returns:
  "seq_no e + length cs < 2 ^ 64 \<Longrightarrow> returns (length cs) 0 (emit_mass_loop recv cs e) e"
proof (induction cs arbitrary: e)
  case (Cons c cs)
  have "returns (1 + length cs) 0 (emit_mass_loop recv (c # cs) e) e"
    unfolding emit_mass_loop.simps
    by (rule returns_then)
      (use Cons in \<open>auto intro: returns_from [OF emit_returns(4) [simplified], of "unregister (mc_order_id c) e"]\<close>)
  then show ?case by simp
qed (simp add: returns_def)

lemma emit_l2_merge_returns:
  "seq_no e + (length pre + length post) < 2 ^ 64 \<Longrightarrow>
   returns (length pre + length post) 0 (emit_l2_merge pre post recv e) e"
proof (induction pre post arbitrary: e rule: l2_diff.induct)
  case (2 s p q pre)
  have "returns (1 + (length pre + 0)) 0 (emit_l2_merge ((s, p, q) # pre) [] recv e) e"
    unfolding emit_l2_merge.simps by (rule returns_then) (use 2 in \<open>auto intro: emit_returns [simplified]\<close>)
  then show ?case by simp
next
  case (3 s' p' q' post)
  have "returns (1 + (0 + length post)) 0 (emit_l2_merge [] ((s', p', q') # post) recv e) e"
    unfolding emit_l2_merge.simps by (rule returns_then) (use 3 in \<open>auto intro: emit_returns [simplified]\<close>)
  then show ?case by simp
next
  case (4 s p q pre s' p' q' post)
  show ?case
  proof (cases "s = s' \<and> p = p'")
    case True
    have "returns (1 + (length pre + length post)) 0 (emit_l2_merge ((s, p, q) # pre) ((s', p', q') # post) recv e) e"
    proof (cases "q = q'")
      case False
      have "returns (1 + (length pre + length post)) 0
          (Option.bind (emit_l2_delta s' p' q' recv e) (emit_l2_merge pre post recv)) e"
        by (rule returns_then) (use 4(1,4) True in \<open>auto intro: emit_returns [simplified]\<close>)
      then show ?thesis using True False by simp
    next
      case eq: True
      have "returns (length pre + length post) 0 (emit_l2_merge pre post recv e) e" using 4(1,4) True by simp
      then show ?thesis using True eq by (simp add: returns_mono)
    qed
    then show ?thesis by (rule returns_mono) simp_all
  next
    case ne: False
    show ?thesis
    proof (cases "key_less (s, p) (s', p')")
      case True
      have "returns (1 + (length pre + length ((s', p', q') # post))) 0
          (Option.bind (emit_l2_delta s p 0 recv e) (emit_l2_merge pre ((s', p', q') # post) recv)) e"
        by (rule returns_then) (use 4(2,4) ne True in \<open>auto intro: emit_returns [simplified]\<close>)
      then show ?thesis using ne True by auto
    next
      case False
      have "returns (1 + (length ((s, p, q) # pre) + length post)) 0
          (Option.bind (emit_l2_delta s' p' q' recv e) (emit_l2_merge ((s, p, q) # pre) post recv)) e"
        by (rule returns_then) (use 4(3,4) ne False in \<open>auto intro: emit_returns [simplified]\<close>)
      then show ?thesis using ne False by auto
    qed
  qed
qed (simp add: returns_def)

lemmas emit_from = emit_returns [simplified, THEN returns_from]

lemma rest_new_order_returns:
  "seq_no e + 1 < 2 ^ 64 \<Longrightarrow> returns 1 0 (rest_new_order api msg p q recv e) e"
  unfolding rest_new_order_def Let_def by (auto split: prod.split sum.split intro!: emit_from)

lemma dispose_new_order_returns:
  "seq_no e + 1 < 2 ^ 64 \<Longrightarrow> returns 1 0 (dispose_new_order api msg res recv e) e"
  unfolding dispose_new_order_def
  by (auto split: option.split tif.split intro: emit_returns [simplified] rest_new_order_returns [simplified] returns_Some)

lemma dispose_replace_returns:
  "seq_no e + 1 < 2 ^ 64 \<Longrightarrow> returns 1 0 (dispose_replace api msg old mr recv e) e"
  unfolding dispose_replace_def Let_def
  by (auto split: option.split prod.split sum.split intro!: emit_from returns_Some)

lemma report_returns:
  assumes "seq_no e + (3 * length (fills_buf e) + (length (stp_buf e) + 1)) < 2 ^ 64"
    and "\<And>e1. seq_no e1 + 1 < 2 ^ 64 \<Longrightarrow> returns 1 0 (f e1) e1"
  shows "returns (3 * length (fills_buf e) + (length (stp_buf e) + 1)) 0
    (Option.bind (emit_fills_for_taker t a q recv e) (\<lambda>e. Option.bind (emit_stp_cancels recv e) f)) e"
proof -
  have stps: "stp_buf e1 = stp_buf e" if "emit_fills_for_taker t a q recv e = Some e1" for e1
    using that emit_fills_loop_effect [of t a recv "as_lots q" "fills_buf e" e]
    by (simp add: emit_fills_for_taker_def same_frame_def)
  show ?thesis
  proof (rule returns_bind [of _ 0 _ _ _ 0, simplified])
    show "returns (3 * length (fills_buf e)) 0 (emit_fills_for_taker t a q recv e) e"
      unfolding emit_fills_for_taker_def by (rule emit_fills_loop_returns) (use assms(1) in simp)
    fix e1 assume e1: "emit_fills_for_taker t a q recv e = Some e1" "seq_no e1 \<le> seq_no e + 3 * length (fills_buf e)"
    have "returns (length (stp_buf e1) + 1) 0 (Option.bind (emit_stp_cancels recv e1) f) e1"
      unfolding emit_stp_cancels_def
      by (rule returns_then) (use assms e1 stps in \<open>auto intro: emit_stp_loop_returns\<close>)
    then show "returns (length (stp_buf e) + 1) 0 (Option.bind (emit_stp_cancels recv e1) f) e1"
      using stps [OF e1(1)] by simp
  qed
qed

lemma commit_replace_returns:
  assumes "seq_no e + (1 + (3 * length (fills_buf e) + (length (stp_buf e) + 1))) < 2 ^ 64"
  shows "returns (1 + (3 * length (fills_buf e) + (length (stp_buf e) + 1))) 0 (commit_replace api msg old mr recv e) e"
proof -
  define e1 where "e1 = (case old of
      Some entry \<Rightarrow> e\<lparr>eng_risk := on_order_removed (re_account_id entry) (re_notional entry) (eng_risk e)\<rparr> | None \<Rightarrow> e)"
  define e2 where "e2 = e1\<lparr>registry := (registry e1)(cr_order_id msg := None)\<rparr>"
  have e2: "seq_no e2 = seq_no e" "trade_no e2 = trade_no e" "fills_buf e2 = fills_buf e" "stp_buf e2 = stp_buf e"
    by (simp_all add: e2_def e1_def split: option.split)
  let ?tail = "\<lambda>e. Option.bind (emit_fills_for_taker (cr_order_id msg) (cr_account_id msg) (cr_new_qty msg) recv e)
    (\<lambda>e. Option.bind (emit_stp_cancels recv e) (dispose_replace api msg old mr recv))"
  have "returns (1 + (3 * length (fills_buf e) + (length (stp_buf e) + 1))) (0 + 0)
      (Option.bind (emit_exec_report_replaced (cr_order_id msg) (cr_account_id msg) (cr_new_qty msg) recv e2) ?tail) e2"
  proof (rule returns_bind)
    show "returns 1 0 (emit_exec_report_replaced (cr_order_id msg) (cr_account_id msg) (cr_new_qty msg) recv e2) e2"
      by (rule emit_returns) (use assms e2 in simp)
    fix e3 assume e3: "emit_exec_report_replaced (cr_order_id msg) (cr_account_id msg) (cr_new_qty msg) recv e2 = Some e3"
      "seq_no e3 \<le> seq_no e2 + 1"
    have bufs: "fills_buf e3 = fills_buf e" "stp_buf e3 = stp_buf e"
      using emit_emission(5) [OF e3(1)] e2 by (simp_all add: emission_def same_core_def)
    have "returns (3 * length (fills_buf e3) + (length (stp_buf e3) + 1)) 0 (?tail e3) e3"
      by (rule report_returns [OF _ dispose_replace_returns]) (use assms e2 e3(2) bufs in simp)
    then show "returns (3 * length (fills_buf e) + (length (stp_buf e) + 1)) 0 (?tail e3) e3" by (simp add: bufs)
  qed
  then show ?thesis
    using e2 by (simp add: commit_replace_def e1_def e2_def Let_def returns_def)
qed

lemma emit_tail_returns:
  assumes "seq_no e + (length (pre_step_levels e) + length (capture_levels api (eng_book e)) + 1) < 2 ^ 64"
  shows "returns (length (pre_step_levels e) + length (capture_levels api (eng_book e)) + 1) 0 (emit_tail api recv e) e"
proof -
  let ?e = "capture_post_step_levels api e"
  have e: "seq_no ?e = seq_no e" "trade_no ?e = trade_no e" "pre_step_levels ?e = pre_step_levels e"
    "post_step_levels ?e = capture_levels api (eng_book e)"
    by (simp_all add: capture_post_step_levels_def)
  have "returns (length (pre_step_levels ?e) + length (post_step_levels ?e) + 1) 0
      (Option.bind (emit_l2_merge (pre_step_levels ?e) (post_step_levels ?e) recv ?e) (emit_book_update_top api recv)) ?e"
    by (rule returns_then) (use assms e in \<open>auto intro: emit_l2_merge_returns emit_returns [simplified]\<close>)
  then show ?thesis using e by (simp add: emit_tail_def emit_l2_deltas_def returns_def)
qed

section \<open>The registry grows by at most one order\<close>

definition grows :: "order_id set \<Rightarrow> 'l engine \<Rightarrow> 'l engine \<Rightarrow> bool" where
  "grows X e e' \<longleftrightarrow> dom (registry e') \<subseteq> X \<union> dom (registry e)"

lemma grows_trans: "grows X e e1 \<Longrightarrow> grows X e1 e2 \<Longrightarrow> grows X e e2"
  unfolding grows_def by blast

lemma emission_grows: "emission e e' \<Longrightarrow> grows X e e'"
  by (simp add: grows_def emission_def same_core_def)

lemma unregister_grows: "grows X e (unregister oid e)"
  by (auto simp: grows_def unregister_def split: option.split)

lemma settle_grows: "grows X e (settle_maker f e)"
  by (auto simp: grows_def settle_maker_def unregister_def Let_def split: option.splits sum.splits if_splits)

lemma grows_frame [simp]:
  "grows X (e\<lparr>eng_book := b\<rparr>) e' = grows X e e'" "grows X e (e'\<lparr>eng_book := b\<rparr>) = grows X e e'"
  "grows X (e\<lparr>eng_risk := r\<rparr>) e' = grows X e e'" "grows X e (e'\<lparr>eng_risk := r\<rparr>) = grows X e e'"
  "grows X (e\<lparr>eng_ids := ids\<rparr>) e' = grows X e e'" "grows X (e\<lparr>fills_buf := fb\<rparr>) e' = grows X e e'"
  "grows X (e\<lparr>stp_buf := sb\<rparr>) e' = grows X e e'" "grows X (e\<lparr>mass_buf := mb\<rparr>) e' = grows X e e'"
  "grows X (e\<lparr>pre_step_levels := ls\<rparr>) e' = grows X e e'" "grows X (e\<lparr>post_step_levels := ls\<rparr>) e' = grows X e e'"
  "grows X (e\<lparr>eng_clock_reads := n\<rparr>) e' = grows X e e'"
  by (simp_all add: grows_def)

lemmas emit_grows = emit_emission [THEN emission_grows]

lemma emit_fill_grows: "emit_fill t a recv r f e = Some e' \<Longrightarrow> grows X e e'"
  unfolding emit_fill_def
  by (auto simp: Option.bind_eq_Some_conv Let_def dest!: emit_grows [where X = X])
    (meson grows_trans settle_grows)

lemma emit_fills_loop_grows: "emit_fills_loop t a recv r fs e = Some e' \<Longrightarrow> grows X e e'"
  by (induction fs arbitrary: r e)
    (auto simp: Option.bind_eq_Some_conv Let_def grows_def [of X e' e'] dest: emit_fill_grows intro: grows_trans)

lemma emit_stp_loop_grows: "emit_stp_loop recv cs e = Some e' \<Longrightarrow> grows X e e'"
  by (induction cs arbitrary: e)
    (auto simp: Option.bind_eq_Some_conv grows_def [of X e' e'], metis grows_trans emit_grows(4) unregister_grows)

lemma emit_mass_loop_grows: "emit_mass_loop recv cs e = Some e' \<Longrightarrow> grows X e e'"
  by (induction cs arbitrary: e)
    (auto simp: Option.bind_eq_Some_conv grows_def [of X e' e'], metis grows_trans emit_grows(4) unregister_grows)

lemma grows_refl [simp]: "grows X e e"
  by (auto simp: grows_def)

lemma rest_new_order_grows:
  "rest_new_order api msg p q recv e = Some e' \<Longrightarrow> grows {no_order_id msg} e e'"
  by (auto simp: rest_new_order_def Let_def split: prod.splits sum.splits
      dest!: emit_grows [where X = "{no_order_id msg}"])
    (auto simp: grows_def)

lemma dispose_new_order_grows:
  "dispose_new_order api msg res recv e = Some e' \<Longrightarrow> grows {no_order_id msg} e e'"
  by (auto simp: dispose_new_order_def split: if_splits option.splits tif.splits
      dest: emit_grows rest_new_order_grows)

lemma dispose_replace_grows:
  "dispose_replace api msg old mr recv e = Some e' \<Longrightarrow> grows {cr_order_id msg} e e'"
  by (auto simp: dispose_replace_def Let_def split: if_splits option.splits prod.splits sum.splits
      dest!: emit_grows [where X = "{cr_order_id msg}"])
    (auto simp: grows_def)

lemma commit_replace_grows:
  assumes "commit_replace api msg old mr recv e = Some e'"
  shows "grows {cr_order_id msg} e e'"
proof -
  define e1 where "e1 = (case old of
      Some entry \<Rightarrow> e\<lparr>eng_risk := on_order_removed (re_account_id entry) (re_notional entry) (eng_risk e)\<rparr> | None \<Rightarrow> e)"
  define e2 where "e2 = e1\<lparr>registry := (registry e1)(cr_order_id msg := None)\<rparr>"
  have "grows {cr_order_id msg} e e2" by (auto simp: grows_def e2_def e1_def split: option.split)
  moreover obtain e3 e4 e5 where
    "emit_exec_report_replaced (cr_order_id msg) (cr_account_id msg) (cr_new_qty msg) recv e2 = Some e3"
    "emit_fills_loop (cr_order_id msg) (cr_account_id msg) recv (as_lots (cr_new_qty msg)) (fills_buf e3) e3 = Some e4"
    "emit_stp_loop recv (stp_buf e4) e4 = Some e5" "dispose_replace api msg old mr recv e5 = Some e'"
    using assms
    by (auto simp: commit_replace_def Let_def Option.bind_eq_Some_conv emit_fills_for_taker_def
        emit_stp_cancels_def e1_def e2_def)
  ultimately show ?thesis
    by (meson grows_trans emit_grows(5) emit_fills_loop_grows emit_stp_loop_grows dispose_replace_grows)
qed

lemma conclude_replace_grows:
  "conclude_replace api msg old res recv e = Some e' \<Longrightarrow> grows {cr_order_id msg} e e'"
  by (auto simp: conclude_replace_def dest: emit_grows commit_replace_grows split: sum.splits if_splits)

lemma handle_new_order_grows:
  "handle_new_order api msg recv e = Some e' \<Longrightarrow> grows {no_order_id msg} e e'"
  by (auto simp: handle_new_order_def Let_def Option.bind_eq_Some_conv emit_fills_for_taker_def
      emit_stp_cancels_def
      dest!: emit_grows [where X = "{no_order_id msg}"] emit_fills_loop_grows [where X = "{no_order_id msg}"]
        emit_stp_loop_grows [where X = "{no_order_id msg}"] dispose_new_order_grows
      split: if_splits sum.splits prod.splits intro: grows_trans)

lemma handle_cancel_replace_grows:
  "handle_cancel_replace api msg recv e = Some e' \<Longrightarrow> grows {cr_order_id msg} e e'"
  by (auto simp: handle_cancel_replace_def Let_def Option.bind_eq_Some_conv
      dest!: emit_grows [where X = "{cr_order_id msg}"] conclude_replace_grows
      split: if_splits sum.splits)

lemma handle_cancel_order_grows: "handle_cancel_order api msg recv e = Some e' \<Longrightarrow> grows X e e'"
  by (auto simp: handle_cancel_order_def dest!: emit_grows [where X = X] split: if_splits sum.splits prod.splits
      intro: grows_trans [OF unregister_grows, of X "co_order_id msg" "e\<lparr>eng_book := b\<rparr>" for b, simplified])

lemma handle_mass_cancel_grows: "handle_mass_cancel api msg recv e = Some e' \<Longrightarrow> grows X e e'"
  by (auto simp: handle_mass_cancel_def dest!: emit_grows [where X = X] emit_mass_loop_grows [where X = X]
      split: if_splits sum.splits prod.splits)

lemma dispatch_grows: "dispatch api msg recv e = Some e' \<Longrightarrow> \<exists>i. grows {i} e e'"
  by (cases msg)
    (auto simp: handle_kill_switch_def Let_def
      dest: emit_grows(10) handle_new_order_grows handle_cancel_order_grows handle_cancel_replace_grows
      handle_mass_cancel_grows)

section \<open>The size of the book bounds everything\<close>

definition resting :: "'l engine \<Rightarrow> nat" where
  "resting e = card (dom (index (eng_book e)))"

lemma engine_inv_index:
  assumes "engine_inv queue level_ok e"
  shows "finite (dom (index (eng_book e)))" "dom (index (eng_book e)) = dom (registry e)"
proof -
  have "book_wf queue level_ok (eng_book e)" "registry e = reg_of queue (eng_book e)" "finite (dom (registry e))"
    using assms by (auto simp: engine_inv_def good_book_def book_inv_def ledger_ok_def)
  then show "dom (index (eng_book e)) = dom (registry e)" using reg_of_dom [of queue level_ok "eng_book e"] by (simp add: dom_def)
  with \<open>finite (dom (registry e))\<close> show "finite (dom (index (eng_book e)))" by simp
qed

lemma dispatch_resting:
  assumes "engine_inv queue level_ok e" "engine_inv queue level_ok e'" "dispatch api msg recv e = Some e'"
  shows "resting e' \<le> Suc (resting e)"
proof -
  obtain i where "dom (registry e') \<subseteq> insert i (dom (registry e))"
    using dispatch_grows [OF assms(3)] by (auto simp: grows_def)
  then have "card (dom (registry e')) \<le> card (insert i (dom (registry e)))"
    using engine_inv_index [OF assms(1)] by (intro card_mono) simp_all
  also have "\<dots> \<le> Suc (card (dom (registry e)))" by (rule card_insert_le_m1) simp_all
  finally show ?thesis using engine_inv_index(2) [OF assms(1)] engine_inv_index(2) [OF assms(2)] by (simp add: resting_def)
qed

lemma makers_bounded:
  assumes "book_wf queue level_ok b" "finite (dom (index b))"
  shows "length (makers queue s b) \<le> card (dom (index b))"
proof -
  have "length (makers queue s b) = card (set (map fst (makers queue s b)))"
    using distinct_card [OF makers_distinct [OF assms(1), of s]] by simp
  also have "\<dots> \<le> card (dom (index b))"
    by (rule card_mono [OF assms(2)]) (use makers_ids [OF assms(1), of _ s] in auto)
  finally show ?thesis .
qed

lemma key_sorted_distinct: "sorted_wrt key_less ks \<Longrightarrow> distinct ks"
  by (induction ks) auto

lemma levels_bounded:
  assumes "book_inv queue level_ok b" "finite (dom (index b))"
  shows "length (capture_levels api b) \<le> card (dom (index b))"
proof -
  let ?key = "\<lambda>oid. (om_side (the (index b oid)), om_price (the (index b oid)))"
  have wf: "levels_wf level_ok b" using assms(1) by (simp add: book_inv_def book_wf_def)
  have "distinct (map level_key (capture_levels api b))"
    using capture_levels_sorted [OF wf] key_sorted_distinct by (simp only: key_sorted_def)
  then have "length (capture_levels api b) = card (level_key ` set (capture_levels api b))"
    using distinct_card by fastforce
  also have "\<dots> \<le> card (?key ` dom (index b))"
  proof (rule card_mono)
    show "finite (?key ` dom (index b))" using assms(2) by simp
    show "level_key ` set (capture_levels api b) \<subseteq> ?key ` dom (index b)"
    proof
      fix k assume "k \<in> level_key ` set (capture_levels api b)"
      then obtain s p where k: "k = (s, p)" "p \<in> fst ` set (levels_of s b)"
        by (auto simp: capture_levels_eq image_iff) force+
      then obtain oid m where "index b oid = Some m" "om_side m = s" "om_price m = p"
        using level_keys_index [OF assms(1)] by blast
      then show "k \<in> ?key ` dom (index b)" using k(1) by (force simp: image_iff)
    qed
  qed
  also have "\<dots> \<le> card (dom (index b))" using assms(2) by (rule card_image_le)
  finally show ?thesis .
qed

text \<open>Room for \<open>n\<close> more commands in every counter.\<close>

definition room :: "nat \<Rightarrow> 'l engine \<Rightarrow> bool" where
  "room n e \<longleftrightarrow> arrivals e + n < 2 ^ 64 \<and> seq_no e + n * (5 * (resting e + n) + 6) < 2 ^ 64 \<and>
     trade_no e + n * (resting e + n) < 2 ^ 64"

context price_level_total
begin

lemma match_returns:
  assumes inv: "book_inv queue level_ok b" and fin: "finite (dom (index b))"
    and room: "unat (next_trade ids) + card (dom (index b)) < 2 ^ 64"
  shows "\<exists>res b' ids' F S. match_aggressive api next_trade_id b taker ids [] [] = Some (res, b', ids', F, S) \<and>
    length F \<le> card (dom (index b)) \<and> length S \<le> 1 \<and> next_seq_raw ids' = next_seq_raw ids \<and>
    unat (next_trade ids') \<le> unat (next_trade ids) + card (dom (index b))"
proof (cases "post_only_gate b taker")
  case True
  then show ?thesis by (simp add: match_aggressive_gate)
next
  case gate: False
  let ?N = "card (dom (index b))"
  obtain fs r st rest where spec: "spec_of queue b taker = (fs, r, st, rest)" by (metis prod_cases4)
  obtain rst where "makers queue (opposite (ao_side taker)) b = map fst fs @ rst"
    using spec_match_prefix [OF spec [unfolded spec_of_def]] by blast
  then have fs: "length fs \<le> ?N"
    using makers_bounded [of queue level_ok b "opposite (ao_side taker)"] inv fin by (simp add: book_inv_def)
  then obtain tids ids' where run: "ids_run next_trade_id (length fs) ids = Some (tids, ids')"
    using trade_ids.run_total [of ids "length fs"] room by auto
  from match_aggressive_spec [OF inv gate spec, of next_trade_id ids "[]" "[]"] run
  show ?thesis
    using trade_ids.run_consecutive [OF run] ids_run_length [OF run] fs
    by (auto simp: length_stp_of)
qed

lemma replace_returns:
  assumes inv: "book_inv queue level_ok b" and fin: "finite (dom (index b))"
    and room: "unat (next_trade ids) + card (dom (index b)) < 2 ^ 64"
  shows "\<exists>res b' ids' F S. replace api next_trade_id b oid p q ids [] [] = Some (res, b', ids', F, S) \<and>
    length F \<le> card (dom (index b)) \<and> length S \<le> 1 \<and> next_seq_raw ids' = next_seq_raw ids \<and>
    unat (next_trade ids') \<le> unat (next_trade ids) + card (dom (index b))"
proof (cases "index b oid")
  case None
  then show ?thesis by (simp add: replace_def)
next
  case (Some m)
  let ?b1 = "prune_level api (om_side m) (om_price m) (removed api oid m b)"
  have wf: "book_wf queue level_ok b" using inv by (simp add: book_inv_def)
  have sub: "dom (index ?b1) \<subseteq> dom (index b)" by auto
  then have c: "card (dom (index ?b1)) \<le> card (dom (index b))" by (rule card_mono [OF fin])
  have "unat (next_trade ids) + card (dom (index ?b1)) < 2 ^ 64" using c room by simp
  from match_returns [OF removed_book_inv [OF inv Some] finite_subset [OF sub fin] this, of "resubmit oid m p q"]
  obtain res b' ids' F S where r: "match_aggressive api next_trade_id ?b1 (resubmit oid m p q) ids [] [] = Some (res, b', ids', F, S)"
    "length F \<le> card (dom (index b))" "length S \<le> 1" "next_seq_raw ids' = next_seq_raw ids"
    "unat (next_trade ids') \<le> unat (next_trade ids) + card (dom (index b))"
    using c by fastforce
  then show ?thesis
    using Some
    by (auto simp: replace_def Let_def cancel_known [OF wf Some] resubmit_def
        split: option.split sum.split bool.split prod.split)
qed

text \<open>Messages and trade ids of each command, for a book of \<open>N\<close> orders.\<close>

lemma handle_new_order_returns:
  assumes inv: "engine_inv queue level_ok e" and room: "seq_no e + (3 * resting e + 2) < 2 ^ 64"
    and trades: "trade_no e + resting e < 2 ^ 64"
  shows "returns (3 * resting e + 2) (resting e) (handle_new_order api msg recv e) e"
proof -
  define taker where "taker = \<lparr>ao_order_id = no_order_id msg, ao_account_id = no_account_id msg,
    ao_side = no_side msg, ao_price = no_price msg, ao_qty = no_qty msg, ao_tif = no_tif msg\<rparr>"
  obtain res b' ids' F S where m: "match_aggressive api next_trade_id (eng_book e) taker (eng_ids e) [] [] = Some (res, b', ids', F, S)"
    and len: "length F \<le> resting e" "length S \<le> 1"
    and ids: "next_seq_raw ids' = next_seq_raw (eng_ids e)" "unat (next_trade ids') \<le> trade_no e + resting e"
    using match_returns [OF good_bookD engine_inv_index(1) [OF inv], of "eng_ids e" taker] inv trades
    by (auto simp: engine_inv_def resting_def trade_no_def)
  let ?e = "e\<lparr>eng_book := b', eng_ids := ids', fills_buf := F, stp_buf := S\<rparr>"
  have e: "seq_no ?e = seq_no e" "trade_no ?e \<le> trade_no e + resting e" using ids by (simp_all add: seq_no_def)
  have carry: "returns (3 * resting e + 2) (resting e) r e" if "returns k 0 r ?e" "k \<le> 3 * resting e + 2" for r k
    using that e by (auto simp: returns_def)
  have rej: "returns (3 * resting e + 2) (resting e) (emit_rejected oid a reason recv e) e" for oid a reason
    by (rule returns_mono [OF emit_returns(1)]) (use room in simp_all)
  have tail: "returns (3 * length F + (length S + 1)) 0 (Option.bind
      (emit_fills_for_taker (no_order_id msg) (no_account_id msg) (no_qty msg) recv ?e)
      (\<lambda>e. Option.bind (emit_stp_cancels recv e) (dispose_new_order api msg res recv))) ?e"
    using report_returns [of ?e "dispose_new_order api msg res recv", OF _ dispose_new_order_returns] len room e by simp
  have r2: "returns 1 0 (emit_rejected (no_order_id msg) (no_account_id msg) PostOnlyWouldCross recv ?e) ?e"
    by (rule emit_returns(1)) (use room e in simp)
  show ?thesis
    using carry [OF tail] carry [OF r2] rej len m
    by (simp add: handle_new_order_def Let_def taker_def split: sum.split)
qed

lemma handle_cancel_replace_returns:
  assumes inv: "engine_inv queue level_ok e" and room: "seq_no e + (3 * resting e + 3) < 2 ^ 64"
    and trades: "trade_no e + resting e < 2 ^ 64"
  shows "returns (3 * resting e + 3) (resting e) (handle_cancel_replace api msg recv e) e"
proof -
  obtain res b' ids' F S where m: "replace api next_trade_id (eng_book e) (cr_order_id msg) (cr_new_price msg)
      (cr_new_qty msg) (eng_ids e) [] [] = Some (res, b', ids', F, S)"
    and len: "length F \<le> resting e" "length S \<le> 1"
    and ids: "next_seq_raw ids' = next_seq_raw (eng_ids e)" "unat (next_trade ids') \<le> trade_no e + resting e"
    using replace_returns [OF good_bookD engine_inv_index(1) [OF inv], of "eng_ids e"] inv trades
    by (fastforce simp: engine_inv_def resting_def trade_no_def)
  let ?e = "e\<lparr>eng_book := b', eng_ids := ids', fills_buf := F, stp_buf := S\<rparr>"
  have e: "seq_no ?e = seq_no e" "trade_no ?e \<le> trade_no e + resting e" using ids by (simp_all add: seq_no_def)
  have carry: "returns (3 * resting e + 3) (resting e) r e" if "returns k 0 r ?e" "k \<le> 3 * resting e + 3" for r k
    using that e by (auto simp: returns_def)
  have rej: "returns (3 * resting e + 3) (resting e) (emit_rejected oid a reason recv e) e" for oid a reason
    by (rule returns_mono [OF emit_returns(1)]) (use room in simp_all)
  have rej2: "returns (1 + (3 * length F + (length S + 1))) 0 (emit_rejected oid a reason recv ?e) ?e" for oid a reason
    by (rule returns_mono [OF emit_returns(1)]) (use room e in simp_all)
  have "returns (1 + (3 * length F + (length S + 1))) 0 (conclude_replace api msg old res recv ?e) ?e" for old
    using commit_replace_returns [of ?e api msg old _ recv] rej2 len room e
    by (simp add: conclude_replace_def split: sum.split)
  from carry [OF this] show ?thesis
    using rej len m by (simp add: handle_cancel_replace_def Let_def split: sum.split)
qed

lemma handle_cancel_order_returns:
  assumes "seq_no e + 1 < 2 ^ 64"
  shows "returns 1 0 (handle_cancel_order api msg recv e) e"
  using assms unfolding handle_cancel_order_def
  by (auto split: sum.split prod.split intro!: emit_from)

lemma handle_mass_cancel_returns:
  assumes inv: "engine_inv queue level_ok e" and room: "seq_no e + (resting e + 1) < 2 ^ 64"
  shows "returns (resting e + 1) 0 (handle_mass_cancel api msg recv e) e"
proof -
  obtain n b' buf where mc: "mass_cancel api (eng_book e) (mx_account_id msg) [] = (n, b', buf)" by (metis prod_cases3)
  have b: "book_inv queue level_ok (eng_book e)" using inv by (simp add: engine_inv_def good_book_def)
  have acc: "accounts_wf (index (eng_book e)) (by_account (eng_book e))"
    using b by (simp add: book_inv_def book_wf_def view_wf_def)
  let ?ids = "account_orders (by_account (eng_book e)) (mx_account_id msg)"
  have d: "distinct ?ids" and sub: "set ?ids \<subseteq> dom (index (eng_book e))"
    using acc by (auto simp: accounts_wf_def bts_ok_distinct split: option.splits)
  have "length buf = length ?ids" using mass_cancel_spec(2) [OF b mc] by simp
  also have "\<dots> = card (set ?ids)" using distinct_card [OF d] by simp
  also have "\<dots> \<le> resting e" unfolding resting_def by (rule card_mono [OF engine_inv_index(1) [OF inv] sub])
  finally have len: "length buf \<le> resting e" .
  have "returns (length buf) 0 (emit_mass_loop recv buf (e\<lparr>eng_book := b', mass_buf := buf\<rparr>)) (e\<lparr>eng_book := b', mass_buf := buf\<rparr>)"
    by (rule emit_mass_loop_returns) (use len room in simp)
  then have loop: "returns (resting e + 1) 0 (emit_mass_loop recv buf (e\<lparr>eng_book := b', mass_buf := buf\<rparr>)) e"
    using len by (auto simp: returns_def)
  have "returns (resting e + 1) 0 (emit_rejected_mass a reason recv e) e" for a reason
    by (rule returns_mono [OF emit_returns(2)]) (use room in simp_all)
  then show ?thesis using loop by (simp add: handle_mass_cancel_def mc split: sum.split)
qed

lemma dispatch_returns:
  assumes inv: "engine_inv queue level_ok e" and room: "seq_no e + (3 * resting e + 3) < 2 ^ 64"
    and trades: "trade_no e + resting e < 2 ^ 64"
  shows "returns (3 * resting e + 3) (resting e) (dispatch api msg recv e) e"
proof (cases msg)
  case (In_NewOrder m)
  then show ?thesis using returns_mono [OF handle_new_order_returns [OF inv _ trades]] room by simp
next
  case (In_CancelOrder m)
  then show ?thesis using handle_cancel_order_returns [of e m recv] room by (auto intro: returns_mono)
next
  case (In_CancelReplace m)
  then show ?thesis using handle_cancel_replace_returns [OF inv room trades] by simp
next
  case (In_MassCancel m)
  then show ?thesis using handle_mass_cancel_returns [OF inv, of m recv] room by (auto intro: returns_mono)
next
  case (In_KillSwitchSet m)
  then show ?thesis by (simp add: handle_kill_switch_def Let_def returns_def)
next
  case (In_SnapshotRequest m)
  then show ?thesis using emit_returns(10) [of e api m recv] room by (auto intro: returns_mono)
qed

lemma step_returns:
  assumes inv: "engine_inv queue level_ok e" and ok: "inbound_ok msg" and arr: "arrivals e < 2 ^ 64 - 1"
    and room: "seq_no e + (5 * resting e + 6) < 2 ^ 64" and trades: "trade_no e + resting e < 2 ^ 64"
  shows "\<exists>e'. step api msg e = Some e' \<and> seq_no e' \<le> seq_no e + (5 * resting e + 6) \<and>
    trade_no e' \<le> trade_no e + resting e \<and> resting e' \<le> Suc (resting e) \<and> keeps_inv queue level_ok e e'"
proof -
  obtain recv e1 where c: "clock_now e = (recv, e1)" by fastforce
  define e2 where "e2 = (if emit_book_changes msg then capture_pre_step_levels api e1 else e1)"
  have e1: "e1 = e\<lparr>eng_clock_reads := Suc (eng_clock_reads e)\<rparr>" using c by (simp add: clock_now_def)
  have e2: "engine_inv queue level_ok e2" "arrivals e2 = arrivals e"
    using inv clock_now_frame(1) [of queue level_ok e] clock_now_frame(2) [of e] c by (simp_all add: e2_def)
  have n2: "seq_no e2 = seq_no e" "trade_no e2 = trade_no e" "resting e2 = resting e" "registry e2 = registry e"
      "emit_book_changes msg \<Longrightarrow> pre_step_levels e2 = capture_levels api (eng_book e)"
    by (simp_all add: e2_def e1 capture_pre_step_levels_def resting_def)
  obtain e3 where d: "dispatch api msg recv e2 = Some e3" and n3: "seq_no e3 \<le> seq_no e + (3 * resting e + 3)"
      "trade_no e3 \<le> trade_no e + resting e"
    using dispatch_returns [OF e2(1), of msg recv] room trades n2 by (auto simp: returns_def)
  have k: "keeps_inv queue level_ok e2 e3" using dispatch_inv [OF e2(1) ok _ d] e2(2) arr by simp
  then have inv3: "engine_inv queue level_ok e3" by (simp add: keeps_inv_def)
  have r3: "resting e3 \<le> Suc (resting e)" using dispatch_resting [OF e2(1) inv3 d] n2(3) by simp
  show ?thesis
  proof (cases "emit_book_changes msg")
    case False
    then have "step api msg e = Some e3" using c d by (simp add: step_def e2_def Let_def)
    then show ?thesis using n3 r3 step_inv [OF inv ok arr] by auto
  next
    case True
    have lv: "length (pre_step_levels e3) \<le> resting e" "length (capture_levels api (eng_book e3)) \<le> Suc (resting e)"
      using dispatch_some [OF d] n2(5) [OF True] r3 inv inv3
        levels_bounded [OF _ engine_inv_index(1) [OF inv], of queue level_ok api]
        levels_bounded [OF _ engine_inv_index(1) [OF inv3], of queue level_ok api]
      by (simp_all add: emits_some_def resting_def engine_inv_def good_book_def)
    obtain e' where t: "emit_tail api recv e3 = Some e'" and n': "seq_no e' \<le> seq_no e3 + (2 * resting e + 2)"
        "trade_no e' \<le> trade_no e3"
      using emit_tail_returns [of e3 api recv] lv n3 room by (auto simp: returns_def)
    have s: "step api msg e = Some e'" using c d t True by (simp add: step_def e2_def Let_def)
    have "resting e' = resting e3"
      using emit_tail_emission [OF t] by (simp add: emission_def same_core_def resting_def capture_post_step_levels_def)
    then show ?thesis using s n' n3 r3 step_inv [OF inv ok arr s] by simp
  qed
qed

lemma step_room:
  assumes "engine_inv queue level_ok e" "inbound_ok m" "room (Suc n) e"
  shows "\<exists>e1. step api m e = Some e1 \<and> engine_inv queue level_ok e1 \<and> room n e1"
proof -
  let ?N = "resting e"
  have room: "seq_no e + (5 * ?N + 6) + n * (5 * (Suc ?N + n) + 6) < 2 ^ 64"
    "trade_no e + ?N + n * (Suc ?N + n) < 2 ^ 64" "arrivals e + Suc n < 2 ^ 64"
    using assms(3) by (simp_all add: room_def algebra_simps)
  obtain e1 where s: "step api m e = Some e1" and n1: "seq_no e1 \<le> seq_no e + (5 * ?N + 6)"
      "trade_no e1 \<le> trade_no e + ?N" "resting e1 \<le> Suc ?N" "keeps_inv queue level_ok e e1"
    using step_returns [OF assms(1,2)] room by fastforce
  have "n * (5 * (resting e1 + n) + 6) \<le> n * (5 * (Suc ?N + n) + 6)" "n * (resting e1 + n) \<le> n * (Suc ?N + n)"
    using n1(3) by (intro mult_le_mono2; simp)+
  then have "room n e1" using room n1 unfolding room_def keeps_inv_def by linarith
  then show ?thesis using s n1(4) by (simp add: keeps_inv_def)
qed

lemma run_returns:
  assumes "engine_inv queue level_ok e" "list_all inbound_ok msgs" "room (length msgs) e"
  shows "\<exists>e'. run_steps api msgs e = Some e' \<and> engine_inv queue level_ok e'"
  using assms
proof (induction msgs arbitrary: e)
  case (Cons m ms)
  then obtain e1 where "step api m e = Some e1" "engine_inv queue level_ok e1" "room (length ms) e1"
    using step_room [of e m "length ms"] by auto
  then show ?case using Cons.IH [of e1] Cons.prems(2) by simp
qed simp

lemma room_fresh: "n \<le> 2 ^ 30 \<Longrightarrow> room n (Engine_new c CounterIdGenerator_new VecSink_new)"
proof -
  assume n: "n \<le> 2 ^ 30"
  let ?e = "Engine_new c CounterIdGenerator_new VecSink_new"
  have e: "arrivals ?e = 0" "seq_no ?e = 1" "trade_no ?e = 1" "resting ?e = 0"
    by (simp_all add: Engine_new_def arrivals_def seq_no_def trade_no_def resting_def CounterIdGenerator_new_def)
  have "n * (5 * n + 6) \<le> 2 ^ 30 * (5 * 2 ^ 30 + 6)" "n * n \<le> 2 ^ 30 * 2 ^ 30"
    using n by (intro mult_le_mono; simp)+
  then show ?thesis using n by (simp add: room_def e)
qed

lemma fresh_run_returns:
  assumes "list_all inbound_ok msgs" "length msgs \<le> 2 ^ 30"
  shows "\<exists>e'. run_steps api msgs (Engine_new c CounterIdGenerator_new VecSink_new) = Some e' \<and> engine_inv queue level_ok e'"
  by (rule run_returns [OF engine_inv_new assms(1) room_fresh [OF assms(2)]])

end

end
