(* ===== verification/Framing.thy ===== *)
theory Framing
  imports Wire_Inbound Marketdata
begin

text \<open>
  Reading a byte stream frame by frame. Both ends of a connection keep a buffer, take as many whole
  frames from its front as there are and append what the socket delivers next. The interface
  \<open>incremental\<close> states what they need of a decoder for the cuts of the stream not to matter.
\<close>

section \<open>Taking frames off a buffer\<close>

text \<open>\<open>reads scan buf rs rest\<close>: scanning \<open>buf\<close> until more bytes are needed gives the outcomes \<open>rs\<close>
  and leaves \<open>rest\<close>.\<close>

inductive reads :: "(u8 list \<Rightarrow> ('r \<times> nat) option) \<Rightarrow> u8 list \<Rightarrow> 'r list \<Rightarrow> u8 list \<Rightarrow> bool"
  for scan :: "u8 list \<Rightarrow> ('r \<times> nat) option" where
  reads_stop: "scan buf = None \<Longrightarrow> reads scan buf [] buf"
| reads_frame: "scan buf = Some (r, n) \<Longrightarrow> reads scan (drop n buf) rs rest \<Longrightarrow> reads scan buf (r # rs) rest"

inductive_cases reads_NilE: "reads scan buf [] rest"
inductive_cases reads_ConsE: "reads scan buf (r # rs) rest"

lemma reads_rest: "reads scan buf rs rest \<Longrightarrow> scan rest = None"
  by (induction rule: reads.induct)

locale incremental =
  fixes scan :: "u8 list \<Rightarrow> ('r \<times> nat) option"
  assumes scan_append: "scan buf = Some x \<Longrightarrow> scan (buf @ suf) = Some x"
    and scan_progress: "scan buf = Some (r, n) \<Longrightarrow> 0 < n \<and> n \<le> length buf"
begin

lemma reads_total: "\<exists>rs rest. reads scan buf rs rest"
proof (induction "length buf" arbitrary: buf rule: less_induct)
  case less
  show ?case
  proof (cases "scan buf")
    case None
    then show ?thesis by (blast intro: reads_stop)
  next
    case (Some x)
    obtain r n where x: "x = (r, n)" by (cases x)
    then have "length (drop n buf) < length buf" using Some scan_progress [of buf r n] by auto
    then show ?thesis using less Some x by (blast intro: reads_frame)
  qed
qed

text \<open>Stopping in the middle and going on with more bytes is the same as having had them all.\<close>

lemma reads_append:
  "reads scan buf rs rest \<Longrightarrow> reads scan (rest @ suf) rs' rest' \<Longrightarrow> reads scan (buf @ suf) (rs @ rs') rest'"
proof (induction rule: reads.induct)
  case (reads_frame buf r n rs rest)
  then have "reads scan (drop n buf @ suf) (rs @ rs') rest'" by simp
  then have "reads scan (drop n (buf @ suf)) (rs @ rs') rest'"
    using scan_progress [OF reads_frame.hyps(1)] by simp
  then show ?case using scan_append [OF reads_frame.hyps(1)] by (simp add: reads.reads_frame)
qed simp

text \<open>A stream written as encodings, each of which scans to its message when it is complete.\<close>

lemma reads_encoded:
  assumes "\<And>m bs. m \<in> set ms \<Longrightarrow> scan (enc m @ bs) = Some (out m, length (enc m))" and "scan part = None"
  shows "reads scan (concat (map enc ms) @ part) (map out ms) part"
  using assms
proof (induction ms)
  case Nil
  then show ?case by (simp add: reads_stop)
next
  case (Cons m ms)
  have "reads scan (concat (map enc ms) @ part) (map out ms) part" by (rule Cons.IH) (use Cons.prems in auto)
  moreover have "scan (enc m @ concat (map enc ms) @ part) = Some (out m, length (enc m))"
    using Cons.prems by auto
  ultimately show ?case by (auto intro: reads_frame)
qed

end

section \<open>Frames in a buffer\<close>

lemma get_prefix_append: "get_prefix buf n = Some bs \<Longrightarrow> get_prefix (buf @ suf) n = Some bs"
  by (auto simp: get_prefix_def split: if_splits)

lemma parse_or_skip_append:
  assumes "parse_or_skip buf = Inr x"
  shows "parse_or_skip (buf @ suf) = Inr x"
proof -
  obtain len_arr where l: "get_prefix buf FRAME_LEN_BYTES = Some len_arr"
    using assms by (cases "get_prefix buf FRAME_LEN_BYTES") (auto simp: parse_or_skip_def)
  let ?len = "unat (from_le_bytes len_arr :: u32)"
  have k: "\<not> ?len < FRAME_KIND_BYTES" using assms l by (auto simp: parse_or_skip_def split: if_splits)
  obtain fb where "get_prefix buf (FRAME_LEN_BYTES + ?len) = Some fb"
    using assms l k by (cases "get_prefix buf (FRAME_LEN_BYTES + ?len)") (auto simp: parse_or_skip_def Let_def)
  then show ?thesis
    using assms k l by (simp add: parse_or_skip_def Let_def get_prefix_append)
qed

lemma frame_parse_append: "frame_parse buf = Inr x \<Longrightarrow> frame_parse (buf @ suf) = Inr x"
  by (auto simp: frame_parse_def rbind_Inr_iff dest: parse_or_skip_append)

lemma frame_parse_progress: "frame_parse buf = Inr (f, n) \<Longrightarrow> 5 \<le> n \<and> n \<le> length buf"
  by (cases "parse_or_skip buf")
    (auto simp: frame_parse_def split: parse_outcome.splits dest: parse_or_skip_Inr(1,2))

text \<open>The bytes of one frame, and a buffer that holds only a part of it.\<close>

definition frame_bytes :: "message_kind \<Rightarrow> u8 list \<Rightarrow> u8 list" where
  "frame_bytes kind payload =
     to_le_bytes (word_of_nat (1 + length payload) :: u32) @ [kind_as_u8 kind] @ payload"

lemma length_frame_bytes [simp]: "length (frame_bytes kind payload) = 5 + length payload"
  by (simp add: frame_bytes_def)

lemma frame_write_bytes:
  "1 + length payload \<le> u32_max \<Longrightarrow> frame_write kind payload out = Inr (out @ frame_bytes kind payload)"
  by (auto simp: frame_write_def frame_bytes_def frame_consts Let_def)

lemma frame_write_Inr:
  "frame_write kind payload out = Inr out' \<Longrightarrow> 1 + length payload \<le> u32_max \<and> out' = out @ frame_bytes kind payload"
  by (auto simp: frame_write_def frame_bytes_def frame_consts Let_def split: if_splits)

lemma frame_prefix_len:
  assumes "1 + length payload \<le> u32_max" "prefix part (frame_bytes kind payload)" "4 \<le> length part"
  shows "unat (from_le_bytes (take 4 part) :: u32) = 1 + length payload"
proof -
  obtain suf where "frame_bytes kind payload = part @ suf" using assms(2) by (auto elim: prefixE)
  then have "take 4 part = take 4 (frame_bytes kind payload)" using assms(3) by simp
  also have "\<dots> = to_le_bytes (word_of_nat (1 + length payload) :: u32)" by (simp add: frame_bytes_def)
  finally show ?thesis
    using assms(1) by (simp add: u32_max_def unat_of_nat del: of_nat_add of_nat_Suc)
qed

lemma parse_or_skip_part:
  assumes "1 + length payload \<le> u32_max" "strict_prefix part (frame_bytes kind payload)"
  shows "parse_or_skip part = Inl Truncated"
proof (cases "4 \<le> length part")
  case True
  have "unat (from_le_bytes (take 4 part) :: u32) = 1 + length payload"
    by (rule frame_prefix_len [OF assms(1) prefix_order.less_imp_le [OF assms(2)] True])
  then show ?thesis
    using prefix_length_less [OF assms(2)] True
    by (simp add: parse_or_skip_def frame_consts get_prefix_def Let_def)
next
  case False
  then show ?thesis by (simp add: parse_or_skip_def frame_consts get_prefix_def)
qed

end
