(* ===== verification/Client.thy ===== *)
theory Client
  imports Framing
begin

text \<open>
  The client library (\<^verbatim>\<open>clob-client/src/lib.rs\<close>). Sending is framing; receiving decodes from a
  buffer that survives between calls. The socket and the timer answer through a script of
  \<open>poll\<close>s, one per round of the loop; when the script ends the call is still waiting (\<open>None\<close>).
\<close>

datatype client_error = CE_Io | CE_Wire wire_error | CE_Timeout | CE_Closed

section \<open>Sending\<close>

text \<open>The bytes handed to the socket's \<^verbatim>\<open>write_all\<close>, whose failure is the error \<open>CE_Io\<close>.\<close>

definition client_send :: "inbound \<Rightarrow> client_error + u8 list" where
  "client_send msg = map_err CE_Wire (frame_write (inbound_kind msg) (inbound_payload msg) [])"

definition client_send_new_order :: "new_order \<Rightarrow> client_error + u8 list" where
  "client_send_new_order order =
     map_err CE_Wire (frame_write MK_NewOrder (new_order_encode order []) [])"

definition client_send_cancel :: "cancel_order \<Rightarrow> client_error + u8 list" where
  "client_send_cancel msg = client_send (In_CancelOrder msg)"

definition client_send_cancel_replace :: "cancel_replace \<Rightarrow> client_error + u8 list" where
  "client_send_cancel_replace msg = client_send (In_CancelReplace msg)"

definition client_send_mass_cancel :: "mass_cancel_msg \<Rightarrow> client_error + u8 list" where
  "client_send_mass_cancel msg = client_send (In_MassCancel msg)"

definition client_send_kill_switch :: "kill_switch_set \<Rightarrow> client_error + u8 list" where
  "client_send_kill_switch msg = client_send (In_KillSwitchSet msg)"

definition client_send_snapshot_request :: "snapshot_request \<Rightarrow> client_error + u8 list" where
  "client_send_snapshot_request msg = client_send (In_SnapshotRequest msg)"

text \<open>The separate path of \<^verbatim>\<open>send_new_order\<close> writes what \<^verbatim>\<open>send\<close> writes.\<close>

lemma client_send_new_order_eq: "client_send_new_order n = client_send (In_NewOrder n)"
  by (simp add: client_send_new_order_def client_send_def)

section \<open>Receiving\<close>

text \<open>What a round finds: the deadline has passed before reading, the read delivered bytes (none at
  the end of the stream), failed, or ran into the deadline.\<close>

datatype poll = Past_Deadline | Read_Done "u8 list" | Read_Failed | Read_Elapsed

fun client_recv :: "poll list \<Rightarrow> u8 list \<Rightarrow> ((client_error + outbound) option \<times> u8 list \<times> poll list)" where
  "client_recv polls rx_buf =
     (case (if FRAME_LEN_BYTES \<le> length rx_buf then md_decode rx_buf else Inl Truncated) of
        Inr (msg, consumed) \<Rightarrow> (Some (Inr msg), drop consumed rx_buf, polls)
      | Inl e \<Rightarrow>
          if e \<noteq> Truncated then (Some (Inl (CE_Wire e)), rx_buf, polls)
          else (case polls of
              [] \<Rightarrow> (None, rx_buf, [])
            | Past_Deadline # ps \<Rightarrow> (Some (Inl CE_Timeout), rx_buf, ps)
            | Read_Done bs # ps \<Rightarrow>
                if bs = [] then (Some (Inl CE_Closed), rx_buf, ps) else client_recv ps (rx_buf @ bs)
            | Read_Failed # ps \<Rightarrow> (Some (Inl CE_Io), rx_buf, ps)
            | Read_Elapsed # ps \<Rightarrow> (Some (Inl CE_Timeout), rx_buf, ps)))"

declare client_recv.simps [simp del]

text \<open>The \<^verbatim>\<open>remaining.is_zero()\<close> test of the outer loop takes its answers from a second script;
  once that has ended no time is left.\<close>

fun recv_loop ::
  "bool list \<Rightarrow> nat \<Rightarrow> poll list \<Rightarrow> u8 list \<Rightarrow> outbound list \<Rightarrow>
   (client_error + outbound list) option \<times> u8 list" where
  "recv_loop zeros max_events polls rx_buf out =
     (if length out < max_events then
        (case zeros of
           [] \<Rightarrow> (Some (Inr out), rx_buf)
         | zero # zs \<Rightarrow>
             if zero then (Some (Inr out), rx_buf)
             else (case client_recv polls rx_buf of
                 (Some (Inr msg), rx_buf', ps) \<Rightarrow> recv_loop zs max_events ps rx_buf' (out @ [msg])
               | (Some (Inl e), rx_buf', ps) \<Rightarrow>
                   if e = CE_Timeout then (Some (Inr out), rx_buf') else (Some (Inl e), rx_buf')
               | (None, rx_buf', ps) \<Rightarrow> (None, rx_buf')))
      else (Some (Inr out), rx_buf))"

declare recv_loop.simps [simp del]

definition recv_until_timeout ::
  "bool list \<Rightarrow> nat \<Rightarrow> poll list \<Rightarrow> u8 list \<Rightarrow> (client_error + outbound list) option \<times> u8 list" where
  "recv_until_timeout zeros max_events polls rx_buf = recv_loop zeros max_events polls rx_buf []"

section \<open>The decoder as an incremental reader\<close>

definition client_scan :: "u8 list \<Rightarrow> ((client_error + outbound) \<times> nat) option" where
  "client_scan buf =
     (case md_decode buf of Inr (msg, n) \<Rightarrow> Some (Inr msg, n) | Inl _ \<Rightarrow> None)"

lemma md_decode_append: "md_decode buf = Inr x \<Longrightarrow> md_decode (buf @ suf) = Inr x"
  by (auto simp: md_decode_def rbind_Inr_iff dest: frame_parse_append)

lemma md_decode_progress: "md_decode buf = Inr (m, n) \<Longrightarrow> 5 \<le> n \<and> n \<le> length buf"
  by (auto simp: md_decode_def rbind_Inr_iff dest: frame_parse_progress)

interpretation client: incremental client_scan
proof
  show "client_scan buf = Some x \<Longrightarrow> client_scan (buf @ suf) = Some x" for buf suf x
    by (auto simp: client_scan_def md_decode_append split: sum.splits)
  show "client_scan buf = Some (r, n) \<Longrightarrow> 0 < n \<and> n \<le> length buf" for buf r n
    by (auto simp: client_scan_def dest: md_decode_progress split: sum.splits)
qed

end
