(* ===== verification/Gateway.thy ===== *)
theory Gateway
  imports Client
begin

text \<open>
  The read side of a connection (\<^verbatim>\<open>gateway/src/listener.rs\<close>): \<^verbatim>\<open>try_decode\<close>, the inner loop that drains
  the buffered frames and the outer loop of \<^verbatim>\<open>handle_connection\<close> over what the socket delivers. The
  tokio channel to the engine is the argument \<open>try_send\<close> with the laws of locale \<open>ring\<close>.
\<close>

section \<open>One decode attempt\<close>

datatype decode_step = Decoded inbound nat | Malformed wire_error nat | Skipped u8 nat | NeedMore

definition try_decode :: "u8 list \<Rightarrow> decode_step" where
  "try_decode buf =
     (if length buf < FRAME_LEN_BYTES then NeedMore
      else let frame_len = unat (from_le_bytes (take FRAME_LEN_BYTES buf) :: u32);
               frame_total = FRAME_LEN_BYTES + frame_len
        in if length buf < frame_total then NeedMore
           else case parse_or_skip buf of
               Inr (PO_Frame frame, n) \<Rightarrow>
                 (case inbound_parse_frame frame of
                    Inr msg \<Rightarrow> Decoded msg n
                  | Inl err \<Rightarrow> Malformed err n)
             | Inr (PO_UnknownKind byte, n) \<Rightarrow> Skipped byte n
             | Inl _ \<Rightarrow> NeedMore)"

section \<open>The connection\<close>

text \<open>Why a connection is closed, and its state: waiting for more bytes with some buffered, or gone.\<close>

datatype close = RingFull | MalformedFrame wire_error | UnknownFrame u8 | PeerClosed | ReadError

datatype conn = Open "u8 list" | Closed close

lemma try_decode_progress:
  "try_decode buf = Decoded m n \<Longrightarrow> 5 \<le> n \<and> n \<le> length buf"
  "try_decode buf = Malformed e n \<Longrightarrow> 5 \<le> n \<and> n \<le> length buf"
  "try_decode buf = Skipped b n \<Longrightarrow> 5 \<le> n \<and> n \<le> length buf"
  by (auto simp: try_decode_def Let_def dest: parse_or_skip_Inr(1,2)
      split: if_splits sum.splits parse_outcome.splits)

function drain :: "('q \<Rightarrow> inbound \<Rightarrow> 'q option) \<Rightarrow> u8 list \<Rightarrow> 'q \<Rightarrow> conn \<times> 'q" where
  "drain try_send buf q =
     (case try_decode buf of
        Decoded msg n \<Rightarrow>
          (let buf' = drop n buf
           in case try_send q msg of
                None \<Rightarrow> (Closed RingFull, q)
              | Some q' \<Rightarrow> drain try_send buf' q')
      | Malformed err n \<Rightarrow> (Closed (MalformedFrame err), q)
      | Skipped byte n \<Rightarrow> (Closed (UnknownFrame byte), q)
      | NeedMore \<Rightarrow> (Open buf, q))"
  by pat_completeness auto
termination
  by (relation "measure (\<lambda>(_, buf, _). length buf)") (auto dest: try_decode_progress)

declare drain.simps [simp del]

text \<open>One \<^verbatim>\<open>read_buf\<close>: \<^verbatim>\<open>Ok(n)\<close> with the bytes, none of them at the end of the stream, or an error.\<close>

datatype read_event = Rd "u8 list" | RdErr

fun handle_reads ::
  "('q \<Rightarrow> inbound \<Rightarrow> 'q option) \<Rightarrow> read_event list \<Rightarrow> u8 list \<Rightarrow> 'q \<Rightarrow> conn \<times> 'q" where
  "handle_reads try_send evs buf q =
     (case drain try_send buf q of
        (Closed c, q') \<Rightarrow> (Closed c, q')
      | (Open buf', q') \<Rightarrow>
          (case evs of
             [] \<Rightarrow> (Open buf', q')
           | Rd bs # evs' \<Rightarrow>
               if bs = [] then (Closed PeerClosed, q') else handle_reads try_send evs' (buf' @ bs) q'
           | RdErr # evs' \<Rightarrow> (Closed ReadError, q')))"

declare handle_reads.simps [simp del]

definition handle_connection ::
  "('q \<Rightarrow> inbound \<Rightarrow> 'q option) \<Rightarrow> read_event list \<Rightarrow> 'q \<Rightarrow> conn \<times> 'q" where
  "handle_connection try_send evs q = handle_reads try_send evs [] q"

section \<open>The decoder as an incremental reader\<close>

definition gateway_scan :: "u8 list \<Rightarrow> ((close + inbound) \<times> nat) option" where
  "gateway_scan buf =
     (case try_decode buf of
        Decoded msg n \<Rightarrow> Some (Inr msg, n)
      | Malformed err n \<Rightarrow> Some (Inl (MalformedFrame err), n)
      | Skipped byte n \<Rightarrow> Some (Inl (UnknownFrame byte), n)
      | NeedMore \<Rightarrow> None)"

lemma try_decode_append:
  assumes "try_decode buf \<noteq> NeedMore"
  shows "try_decode (buf @ suf) = try_decode buf"
proof -
  have len: "FRAME_LEN_BYTES \<le> length buf"
    "FRAME_LEN_BYTES + unat (from_le_bytes (take FRAME_LEN_BYTES buf) :: u32) \<le> length buf"
    using assms by (auto simp: try_decode_def Let_def split: if_splits)
  obtain x where x: "parse_or_skip buf = Inr x"
    using assms by (auto simp: try_decode_def Let_def split: if_splits sum.splits)
  show ?thesis
    using len parse_or_skip_append [OF x, of suf] by (simp add: try_decode_def x)
qed

interpretation gw: incremental gateway_scan
proof
  show "gateway_scan buf = Some x \<Longrightarrow> gateway_scan (buf @ suf) = Some x" for buf suf x
    using try_decode_append [of buf suf] by (auto simp: gateway_scan_def split: decode_step.splits)
  show "gateway_scan buf = Some (r, n) \<Longrightarrow> 0 < n \<and> n \<le> length buf" for buf r n
    using try_decode_progress [of buf] by (force simp: gateway_scan_def split: decode_step.splits)
qed

text \<open>What the drain loop does with the outcomes of a scan.\<close>

fun deliver :: "('q \<Rightarrow> inbound \<Rightarrow> 'q option) \<Rightarrow> (close + inbound) list \<Rightarrow> 'q \<Rightarrow> close option \<times> 'q" where
  "deliver try_send [] q = (None, q)"
| "deliver try_send (Inl c # outs) q = (Some c, q)"
| "deliver try_send (Inr msg # outs) q =
     (case try_send q msg of None \<Rightarrow> (Some RingFull, q) | Some q' \<Rightarrow> deliver try_send outs q')"

lemma drain_deliver:
  assumes "reads gateway_scan buf outs rest"
  shows "drain ts buf q = (case deliver ts outs q of (None, q') \<Rightarrow> (Open rest, q') | (Some c, q') \<Rightarrow> (Closed c, q'))"
  using assms
proof (induction arbitrary: q rule: reads.induct)
  case (reads_stop buf)
  then have "try_decode buf = NeedMore" by (auto simp: gateway_scan_def split: decode_step.splits)
  then show ?case by (simp add: drain.simps [of _ buf])
next
  case (reads_frame buf r n outs rest)
  show ?case
  proof (cases "try_decode buf")
    case (Decoded msg n')
    then have "r = Inr msg" "n' = n" using reads_frame.hyps(1) by (auto simp: gateway_scan_def)
    then show ?thesis
      using reads_frame.IH Decoded by (simp add: drain.simps [of _ buf] split: option.split)
  qed (use reads_frame.hyps(1) in \<open>auto simp: gateway_scan_def drain.simps [of _ buf]\<close>)
qed

text \<open>However the stream is cut into reads, the connection ends up where one read of everything
  would have brought it.\<close>

lemma drain_append:
  "drain ts (buf @ suf) q = (case drain ts buf q of (Open buf', q') \<Rightarrow> drain ts (buf' @ suf) q' | (Closed c, q') \<Rightarrow> (Closed c, q'))"
proof -
  have app: "deliver ts (outs @ outs') q = (case deliver ts outs q of (None, q') \<Rightarrow> deliver ts outs' q' | x \<Rightarrow> x)"
    for outs outs' q
    by (induction ts outs q rule: deliver.induct) (auto split: option.split)
  obtain outs rest where r: "reads gateway_scan buf outs rest" using gw.reads_total by blast
  obtain outs' rest' where r': "reads gateway_scan (rest @ suf) outs' rest'" using gw.reads_total by blast
  show ?thesis
    using drain_deliver [OF r, of ts q] drain_deliver [OF gw.reads_append [OF r r'], of ts q] drain_deliver [OF r', of ts]
    by (auto simp: app split: prod.splits option.splits)
qed

lemma handle_reads_concat:
  "list_all (\<lambda>c. c \<noteq> []) chunks \<Longrightarrow> handle_reads ts (map Rd chunks) buf q = drain ts (buf @ concat chunks) q"
proof (induction chunks arbitrary: buf q)
  case Nil
  then show ?case by (auto simp: handle_reads.simps split: prod.split conn.split)
next
  case (Cons c chunks)
  then show ?case
    using drain_append [of ts buf "c @ concat chunks" q]
    by (auto simp: handle_reads.simps [of ts "Rd c # map Rd chunks"] split: prod.split conn.split)
qed

section \<open>Frames of valid commands\<close>

definition inbound_frame :: "inbound \<Rightarrow> u8 list" where
  "inbound_frame m = frame_bytes (inbound_kind m) (inbound_payload m)"

lemma inbound_payload_short: "length (inbound_payload m) \<le> 40"
  by (cases m)
    (simp_all add: new_order_encode_def cancel_order_encode_def cancel_replace_encode_def mass_cancel_encode_def
      kill_switch_encode_def snapshot_request_encode_def new_order_layout.as_bytes_size
      cancel_order_layout.as_bytes_size cancel_replace_layout.as_bytes_size mass_cancel_layout.as_bytes_size
      kill_switch_layout.as_bytes_size snapshot_request_layout.as_bytes_size NEW_ORDER_SIZE_def)

lemma client_send_frame: "client_send m = Inr (inbound_frame m)"
  using frame_write_bytes [of "inbound_payload m" "inbound_kind m" "[]"] inbound_payload_short [of m]
  by (simp add: client_send_def inbound_frame_def u32_max_def)

lemma try_decode_frame:
  assumes "inbound_ok m"
  shows "try_decode (inbound_frame m @ suf) = Decoded m (length (inbound_frame m))"
proof -
  have len: "1 + length (inbound_payload m) \<le> u32_max" using inbound_payload_short [of m] by (simp add: u32_max_def)
  have "unat (from_le_bytes (take 4 (inbound_frame m)) :: u32) = 1 + length (inbound_payload m)"
    by (rule frame_prefix_len [OF len, of _ "inbound_kind m"]) (simp_all add: inbound_frame_def)
  moreover have "parse_or_skip (inbound_frame m @ suf) =
      Inr (PO_Frame \<lparr>fr_kind = inbound_kind m, fr_payload = inbound_payload m\<rparr>, 5 + length (inbound_payload m))"
    using parse_or_skip_framed [OF len, of "kind_as_u8 (inbound_kind m)" suf]
    by (simp add: inbound_frame_def frame_bytes_def kind_enum.try_from_as_u8)
  ultimately show ?thesis
    using inbound_parse_frame_encode [OF assms]
    by (simp add: try_decode_def frame_consts inbound_frame_def)
qed

lemma try_decode_part: "strict_prefix part (inbound_frame m) \<Longrightarrow> try_decode part = NeedMore"
  using parse_or_skip_part [of "inbound_payload m" part "inbound_kind m"] inbound_payload_short [of m]
  by (simp add: try_decode_def inbound_frame_def u32_max_def Let_def)

lemma reads_commands:
  assumes "list_all inbound_ok ms" "try_decode part = NeedMore"
  shows "reads gateway_scan (concat (map inbound_frame ms) @ part) (map Inr ms) part"
  by (rule gw.reads_encoded [where out = Inr])
    (use assms in \<open>auto simp: gateway_scan_def try_decode_frame list_all_iff\<close>)

text \<open>Whatever the bytes are, each forwarded command was decoded from the frame at its place.\<close>

definition decodes :: "u8 list \<Rightarrow> inbound \<Rightarrow> bool" where
  "decodes bs m \<longleftrightarrow> (\<exists>frame. frame_parse bs = Inr (frame, length bs) \<and> inbound_parse_frame frame = Inr m)"

lemma try_decode_Decoded:
  assumes "try_decode buf = Decoded m n"
  shows "decodes (take n buf) m" "inbound_ok m"
proof -
  obtain f where f: "parse_or_skip buf = Inr (PO_Frame f, n)" "inbound_parse_frame f = Inr m"
    using assms by (auto simp: try_decode_def Let_def split: if_splits sum.splits parse_outcome.splits)
  show "inbound_ok m" using inbound_parse_frame_ok [OF f(2)] by simp
  note spec = parse_or_skip_Inr [OF f(1)]
  have bs: "take n buf = frame_bytes (fr_kind f) (fr_payload f)" using spec(3) by (simp add: frame_bytes_def)
  have len: "1 + length (fr_payload f) \<le> u32_max"
  proof -
    have "length (take n buf) = 5 + length (fr_payload f)" by (simp add: bs)
    then have "n = 5 + length (fr_payload f)" using spec(1) by simp
    moreover have "n = 4 + unat (from_le_bytes (take 4 buf) :: u32)"
      using f(1) by (auto simp: parse_or_skip_def frame_consts get_prefix_def Let_def split: if_splits sum.splits)
    moreover have "unat (from_le_bytes (take 4 buf) :: u32) < 2 ^ 32"
      using unsigned_less [of "from_le_bytes (take 4 buf) :: u32", where 'a = nat] by simp
    ultimately show ?thesis by (simp add: u32_max_def)
  qed
  have "frame_parse (take n buf) = Inr (f, n)"
    using parse_or_skip_framed [OF len, of "kind_as_u8 (fr_kind f)" "[]"] spec(1) bs
    by (simp add: frame_parse_def frame_bytes_def kind_enum.try_from_as_u8) (metis bs length_frame_bytes length_take min.absorb2)
  then show "decodes (take n buf) m" using f(2) spec(1) by (auto simp: decodes_def min_def)
qed

lemma reads_sound:
  "reads gateway_scan buf (map Inr ms @ outs) rest \<Longrightarrow>
   \<exists>fs suf. buf = concat fs @ suf \<and> list_all2 decodes fs ms \<and> list_all inbound_ok ms \<and> reads gateway_scan suf outs rest"
proof (induction ms arbitrary: buf)
  case Nil
  then show ?case by (intro exI [of _ "[]"] exI [of _ buf]) simp
next
  case (Cons m ms)
  then obtain n where s: "gateway_scan buf = Some (Inr m, n)" "reads gateway_scan (drop n buf) (map Inr ms @ outs) rest"
    by (auto elim: reads_ConsE)
  then have d: "try_decode buf = Decoded m n" by (auto simp: gateway_scan_def split: decode_step.splits)
  obtain fs suf where "drop n buf = concat fs @ suf" "list_all2 decodes fs ms" "list_all inbound_ok ms"
      "reads gateway_scan suf outs rest"
    using Cons.IH [OF s(2)] by blast
  then show ?case
    using try_decode_Decoded [OF d] append_take_drop_id [of n buf]
    by (intro exI [of _ "take n buf # fs"] exI [of _ suf]) auto
qed

section \<open>The channel to the engine\<close>

text \<open>What the gateway relies on of the bounded channel: \<^verbatim>\<open>try_send\<close> fails exactly when the channel is
  full and otherwise appends; the capacity is fixed when the channel is made.\<close>

locale ring =
  fixes try_send :: "'q \<Rightarrow> inbound \<Rightarrow> 'q option"
    and contents :: "'q \<Rightarrow> inbound list"
    and cap :: "'q \<Rightarrow> nat"
  assumes try_send_Some: "try_send q m = Some q' \<Longrightarrow> contents q' = contents q @ [m] \<and> cap q' = cap q"
    and try_send_None: "try_send q m = None \<longleftrightarrow> cap q \<le> length (contents q)"
begin

lemma deliver_messages:
  "\<exists>q'. deliver try_send (map Inr ms) q = (if length ms \<le> cap q - length (contents q) then None else Some RingFull, q') \<and>
     contents q' = contents q @ take (cap q - length (contents q)) ms"
proof (induction ms arbitrary: q)
  case (Cons m ms)
  show ?case
  proof (cases "try_send q m")
    case None
    then have "cap q \<le> length (contents q)" using try_send_None by simp
    then show ?thesis using None by simp
  next
    case (Some q1)
    then have room: "length (contents q) < cap q" "contents q1 = contents q @ [m]" "cap q1 = cap q"
      using try_send_None [of q m] try_send_Some [OF Some] by auto
    obtain q' where q': "deliver try_send (map Inr ms) q1 =
        (if length ms \<le> cap q1 - length (contents q1) then None else Some RingFull, q')"
        "contents q' = contents q1 @ take (cap q1 - length (contents q1)) ms"
      using Cons.IH by blast
    have "take (cap q - length (contents q)) (m # ms) = m # take (cap q1 - length (contents q1)) ms"
      using room by (simp add: take_Cons')
    then show ?thesis using Some q' room by (auto intro!: exI [of _ q'])
  qed
qed simp

lemma deliver_contents:
  "deliver try_send outs q = (r, q') \<Longrightarrow> \<exists>ms outs'. outs = map Inr ms @ outs' \<and> contents q' = contents q @ ms"
proof (induction outs arbitrary: q)
  case (Cons out outs)
  show ?case
  proof (cases out)
    case (Inl c)
    then show ?thesis using Cons.prems by (intro exI [of _ "[]"] exI [of _ "out # outs"]) simp
  next
    case (Inr m)
    show ?thesis
    proof (cases "try_send q m")
      case None
      then show ?thesis using Cons.prems Inr by (intro exI [of _ "[]"] exI [of _ "out # outs"]) simp
    next
      case (Some q1)
      then have "deliver try_send outs q1 = (r, q')" using Cons.prems Inr by simp
      then obtain ms outs' where "outs = map Inr ms @ outs'" "contents q' = contents q1 @ ms"
        using Cons.IH by blast
      then show ?thesis
        using try_send_Some [OF Some] Inr by (intro exI [of _ "m # ms"] exI [of _ outs']) simp
    qed
  qed
qed simp

end

text \<open>A channel as its capacity and the list of what is in it.\<close>

definition list_ring :: "nat \<times> inbound list \<Rightarrow> inbound \<Rightarrow> (nat \<times> inbound list) option" where
  "list_ring q m = (if length (snd q) < fst q then Some (fst q, snd q @ [m]) else None)"

interpretation lr: ring list_ring snd fst
  by unfold_locales (auto simp: list_ring_def split: if_splits)

end
