(* ===== verification/Session.thy ===== *)
theory Session
  imports Gateway
begin

text \<open>
  The write side of a connection: \<^verbatim>\<open>ChannelSink\<close> (\<^verbatim>\<open>gateway/src/sink.rs\<close>) encodes every event once and
  hands the frame to a tokio broadcast channel; the writer task of \<^verbatim>\<open>handle_connection\<close> copies frames
  from its receiver to the socket until it lags, the channel closes or a write fails. The broadcast
  channel is the argument \<open>api\<close> with the laws of locale \<open>broadcast\<close>. The engine never reads its sink, so
  the state of a \<^verbatim>\<open>ChannelSink\<close> is a function of the events emitted.
\<close>

section \<open>Broadcast channel\<close>

datatype recv_outcome = Frame_Ready "u8 list" | Lagged nat | Chan_Closed | Pending

record ('b, 'r) broadcast_api =
  bc_channel :: "nat \<Rightarrow> 'b"
  bc_send :: "'b \<Rightarrow> u8 list \<Rightarrow> 'b"
  bc_subscribe :: "'b \<Rightarrow> 'r"
  bc_recv :: "'b \<Rightarrow> 'r \<Rightarrow> recv_outcome \<times> 'r"

section \<open>\<^verbatim>\<open>ChannelSink\<close>\<close>

record 'b channel_sink =
  cs_tx :: 'b

definition ChannelSink_new :: "('b, 'r) broadcast_api \<Rightarrow> nat \<Rightarrow> 'b channel_sink" where
  "ChannelSink_new api capacity = \<lparr>cs_tx = bc_channel api capacity\<rparr>"

definition ChannelSink_subscribe :: "('b, 'r) broadcast_api \<Rightarrow> 'b channel_sink \<Rightarrow> 'r" where
  "ChannelSink_subscribe api s = bc_subscribe api (cs_tx s)"

text \<open>\<open>None\<close> is the panic of the snapshot encoder.\<close>

definition ChannelSink_emit ::
  "('b, 'r) broadcast_api \<Rightarrow> outbound \<Rightarrow> 'b channel_sink \<Rightarrow> 'b channel_sink option" where
  "ChannelSink_emit api msg s =
     (case md_encode msg [] of
        None \<Rightarrow> None
      | Some (Inl err) \<Rightarrow> Some s
      | Some (Inr buf) \<Rightarrow> Some (s\<lparr>cs_tx := bc_send api (cs_tx s) buf\<rparr>))"

fun ChannelSink_emits ::
  "('b, 'r) broadcast_api \<Rightarrow> outbound list \<Rightarrow> 'b channel_sink \<Rightarrow> 'b channel_sink option" where
  "ChannelSink_emits api [] s = Some s"
| "ChannelSink_emits api (m # ms) s =
     (case ChannelSink_emit api m s of None \<Rightarrow> None | Some s' \<Rightarrow> ChannelSink_emits api ms s')"

section \<open>The writer task\<close>

text \<open>The outcome of \<^verbatim>\<open>write_all\<close>; a failed one may have put some bytes of the frame on the socket.\<close>

datatype write_result = Written | Write_Failed nat

text \<open>One round per entry of the script, which gives the channel as the receiver finds it and the
  outcome of a write in that round. The result tells whether the task still runs.\<close>

fun writer_task ::
  "('b, 'r) broadcast_api \<Rightarrow> ('b \<times> write_result) list \<Rightarrow> 'r \<Rightarrow> u8 list \<Rightarrow> bool \<times> 'r \<times> u8 list" where
  "writer_task api [] r socket = (True, r, socket)"
| "writer_task api ((b, w) # rounds) r socket =
     (case bc_recv api b r of
        (Frame_Ready frame, r') \<Rightarrow>
          (case w of
             Written \<Rightarrow> writer_task api rounds r' (socket @ frame)
           | Write_Failed k \<Rightarrow> (False, r', socket @ take k frame))
      | (Lagged skipped, r') \<Rightarrow> (False, r', socket)
      | (Chan_Closed, r') \<Rightarrow> (False, r', socket)
      | (Pending, r') \<Rightarrow> writer_task api rounds r' socket)"

section \<open>What the channel promises\<close>

text \<open>A receiver gets the frames sent after its subscription, one by one in order, unless it lags.
  A channel with a lagging limit is \<open>list_broadcast\<close> below.\<close>

locale broadcast =
  fixes api :: "('b, 'r) broadcast_api"
    and sent :: "'b \<Rightarrow> u8 list list"
    and pos :: "'r \<Rightarrow> nat"
  assumes channel_sent: "sent (bc_channel api capacity) = []"
    and send_sent: "sent (bc_send api b frame) = sent b @ [frame]"
    and subscribe_pos: "pos (bc_subscribe api b) = length (sent b)"
    and recv_ready: "bc_recv api b r = (Frame_Ready frame, r') \<Longrightarrow>
      pos r < length (sent b) \<and> frame = sent b ! pos r \<and> pos r' = Suc (pos r)"
    and recv_pending: "bc_recv api b r = (Pending, r') \<Longrightarrow> pos r' = pos r"
begin

text \<open>The socket carries a contiguous run of the frames sent since the subscription, the last one
  possibly cut.\<close>

lemma writer_contiguous:
  assumes "writer_task api rounds r socket = (running, r', socket')"
    and "list_all (\<lambda>(b, _). prefix (sent b) frames) rounds"
  shows "\<exists>n part. socket' = socket @ concat (take n (drop (pos r) frames)) @ part \<and> pos r + n \<le> max (pos r) (length frames) \<and>
    (part = [] \<or> (\<exists>frame \<in> set frames. prefix part frame)) \<and> (running \<longrightarrow> part = [])"
  using assms
proof (induction rounds arbitrary: r socket)
  case Nil
  then show ?case by (intro exI [of _ 0] exI [of _ "[]"]) simp
next
  case (Cons round rounds)
  obtain b w where round: "round = (b, w)" by (cases round)
  obtain out r1 where recv: "bc_recv api b r = (out, r1)" by fastforce
  show ?case
  proof (cases out)
    case (Frame_Ready frame)
    have f: "pos r < length (sent b)" "frame = sent b ! pos r" "pos r1 = Suc (pos r)"
      using recv_ready recv Frame_Ready by auto
    obtain later where "frames = sent b @ later" using Cons.prems(2) round by (auto elim: prefixE)
    then have fr: "pos r < length frames" "frame = frames ! pos r" using f by (auto simp: nth_append)
    show ?thesis
    proof (cases w)
      case Written
      then have "writer_task api rounds r1 (socket @ frame) = (running, r', socket')"
        using Cons.prems(1) round recv Frame_Ready by simp
      then obtain n part where n: "socket' = (socket @ frame) @ concat (take n (drop (Suc (pos r)) frames)) @ part"
          "Suc (pos r) + n \<le> max (Suc (pos r)) (length frames)"
          "part = [] \<or> (\<exists>frame \<in> set frames. prefix part frame)" "running \<longrightarrow> part = []"
        using Cons.IH [of r1 "socket @ frame"] Cons.prems(2) f(3) by auto
      have "take (Suc n) (drop (pos r) frames) = frame # take n (drop (Suc (pos r)) frames)"
        using fr by (simp flip: Cons_nth_drop_Suc)
      then show ?thesis using n fr(1) by (intro exI [of _ "Suc n"] exI [of _ part]) auto
    next
      case (Write_Failed k)
      then have "\<not> running" "socket' = socket @ take k frame" using Cons.prems(1) round recv Frame_Ready by auto
      moreover have "prefix (take k frame) frame" by (rule take_is_prefix)
      ultimately show ?thesis
        using fr nth_mem by (intro exI [of _ 0] exI [of _ "take k frame"]) auto
    qed
  next
    case Pending
    then show ?thesis using Cons.IH [of r1 socket] Cons.prems recv round recv_pending [of b r r1] by simp
  qed (use Cons.prems(1) round recv in \<open>auto intro!: exI [of _ 0]\<close>)
qed

end

text \<open>A broadcast channel as the frames sent so far and a capacity: a receiver that is further behind
  than the capacity has lost frames, is told how many, and moves on to the oldest one kept.\<close>

record list_channel =
  lc_capacity :: nat
  lc_sent :: "u8 list list"

definition list_broadcast :: "(list_channel, nat) broadcast_api" where
  "list_broadcast =
     \<lparr>bc_channel = (\<lambda>n. \<lparr>lc_capacity = n, lc_sent = []\<rparr>),
      bc_send = (\<lambda>b f. b\<lparr>lc_sent := lc_sent b @ [f]\<rparr>),
      bc_subscribe = (\<lambda>b. length (lc_sent b)),
      bc_recv = (\<lambda>b r.
        let oldest = length (lc_sent b) - lc_capacity b
        in if r < oldest then (Lagged (oldest - r), oldest)
           else if r < length (lc_sent b) then (Frame_Ready (lc_sent b ! r), Suc r)
           else (Pending, r))\<rparr>"

interpretation lb: broadcast list_broadcast lc_sent "\<lambda>r. r"
  by unfold_locales (auto simp: list_broadcast_def Let_def split: if_splits)

section \<open>Events on the wire\<close>

text \<open>The bytes of an event, and the event a reader of those bytes sees: encoding drops the leaves of
  a \<^verbatim>\<open>Replaced\<close> report.\<close>

definition event_bytes :: "outbound \<Rightarrow> u8 list" where
  "event_bytes m = (case md_encode m [] of Some (Inr bs) \<Rightarrow> bs | _ \<Rightarrow> [])"

fun wire_view :: "outbound \<Rightarrow> outbound" where
  "wire_view (Out_ExecReport r) =
     Out_ExecReport (if er_state r = Replaced then r\<lparr>er_leaves_qty := None\<rparr> else r)"
| "wire_view m = m"

definition sendable :: "outbound \<Rightarrow> bool" where
  "sendable m \<longleftrightarrow> outbound_ok (wire_view m) \<and> (\<exists>bs. md_encode m [] = Some (Inr bs))"

lemma md_encode_view: "md_encode (wire_view m) out = md_encode m out"
  by (cases m) (simp_all add: md_encode_def exec_report_encode_def exec_report_wire_of_def)

lemma sendable_bytes: "sendable m \<Longrightarrow> md_encode m [] = Some (Inr (event_bytes m))"
  by (auto simp: sendable_def event_bytes_def)

lemma sendable_decode:
  assumes "sendable m"
  shows "md_decode (event_bytes m @ suf) = Inr (wire_view m, length (event_bytes m))"
proof -
  have "md_encode (wire_view m) [] = Some (Inr (event_bytes m))" using sendable_bytes [OF assms] by (simp add: md_encode_view)
  then show ?thesis using md_decode_encode [of "wire_view m" "[]" "event_bytes m" suf] assms by (auto simp: sendable_def)
qed

lemma sendable_frame:
  assumes "sendable m"
  obtains kind payload where "event_bytes m = frame_bytes kind payload" "1 + length payload \<le> u32_max"
  using sendable_bytes [OF assms] frame_write_Inr [where out = "[]"]
  by (fastforce simp: md_encode_def split: option.splits)

lemma sendable_part:
  assumes "sendable m" "strict_prefix part (event_bytes m)"
  shows "md_decode part = Inl Truncated"
proof -
  obtain kind payload where "event_bytes m = frame_bytes kind payload" "1 + length payload \<le> u32_max"
    using sendable_frame [OF assms(1)] by blast
  then show ?thesis using parse_or_skip_part [of payload part kind] assms(2) by (simp add: md_decode_def frame_parse_def)
qed

lemma event_bytes_long: "sendable m \<Longrightarrow> 5 \<le> length (event_bytes m)"
  by (metis length_frame_bytes le_add1 sendable_frame)

section \<open>Reading the events back\<close>

definition partial_event :: "u8 list \<Rightarrow> bool" where
  "partial_event part \<longleftrightarrow> (\<exists>m. sendable m \<and> strict_prefix part (event_bytes m))"

text \<open>The next call returns the next event, however the bytes arrive.\<close>

lemma client_recv_next:
  assumes "sendable m" "list_all (\<lambda>c. c \<noteq> []) chunks" "buf @ concat chunks = event_bytes m @ stream"
  shows "\<exists>buf' chunks'. client_recv (map Read_Done chunks @ ps) buf =
      (Some (Inr (wire_view m)), buf', map Read_Done chunks' @ ps) \<and>
    list_all (\<lambda>c. c \<noteq> []) chunks' \<and> buf' @ concat chunks' = stream"
  using assms(2,3)
proof (induction chunks arbitrary: buf)
  case Nil
  then have "buf = event_bytes m @ stream" by simp
  then show ?case
    using sendable_decode [OF assms(1), of stream] event_bytes_long [OF assms(1)]
    by (subst client_recv.simps) (auto simp: frame_consts intro!: exI [of _ "[]"])
next
  case (Cons c chunks)
  show ?case
  proof (cases "prefix (event_bytes m) buf")
    case True
    then obtain suf where buf: "buf = event_bytes m @ suf" by (auto elim: prefixE)
    then have "md_decode buf = Inr (wire_view m, length (event_bytes m))" using sendable_decode [OF assms(1)] by simp
    then show ?thesis
      using event_bytes_long [OF assms(1)] Cons.prems buf
      by (subst client_recv.simps) (auto simp: frame_consts intro!: exI [of _ suf] exI [of _ "c # chunks"])
  next
    case False
    have "prefix buf (event_bytes m @ stream)" using Cons.prems(2) by (metis prefixI)
    then have "strict_prefix buf (event_bytes m)"
      using False by (auto simp: prefix_append strict_prefix_def)
    then have "(if FRAME_LEN_BYTES \<le> length buf then md_decode buf else Inl Truncated) = Inl Truncated"
      using sendable_part [OF assms(1)] by simp
    then have "client_recv (map Read_Done (c # chunks) @ ps) buf = client_recv (map Read_Done chunks @ ps) (buf @ c)"
      using Cons.prems(1) by (subst client_recv.simps) simp
    then show ?thesis using Cons.IH [of "buf @ c"] Cons.prems by simp
  qed
qed

lemma client_recv_wait:
  assumes "partial_event (buf @ concat chunks)" "list_all (\<lambda>c. c \<noteq> []) chunks"
  shows "client_recv (map Read_Done chunks @ [Past_Deadline]) buf = (Some (Inl CE_Timeout), buf @ concat chunks, [])"
  using assms
proof (induction chunks arbitrary: buf)
  case Nil
  then have "(if FRAME_LEN_BYTES \<le> length buf then md_decode buf else Inl Truncated) = Inl Truncated"
    using sendable_part by (auto simp: partial_event_def)
  then show ?case by (subst client_recv.simps) simp
next
  case (Cons c chunks)
  obtain m where m: "sendable m" "strict_prefix (buf @ c @ concat chunks) (event_bytes m)"
    using Cons.prems(1) by (auto simp: partial_event_def)
  have "prefix buf (buf @ c @ concat chunks)" by simp
  then have "strict_prefix buf (event_bytes m)" using m(2) prefix_order.le_less_trans by blast
  then have "(if FRAME_LEN_BYTES \<le> length buf then md_decode buf else Inl Truncated) = Inl Truncated"
    using sendable_part [OF m(1)] by simp
  then have "client_recv (map Read_Done (c # chunks) @ [Past_Deadline]) buf = client_recv (map Read_Done chunks @ [Past_Deadline]) (buf @ c)"
    using Cons.prems(2) by (subst client_recv.simps) simp
  then show ?case using Cons.IH [of "buf @ c"] Cons.prems by simp
qed

lemma recv_loop_collects:
  assumes "list_all sendable ms" "partial_event part" "list_all (\<lambda>c. c \<noteq> []) chunks"
    and "buf @ concat chunks = concat (map event_bytes ms) @ part"
    and "length ms < length zeros" "True \<notin> set zeros" "length out + length ms < max_events"
  shows "recv_loop zeros max_events (map Read_Done chunks @ [Past_Deadline]) buf out =
    (Some (Inr (out @ map wire_view ms)), part)"
  using assms
proof (induction ms arbitrary: buf chunks zeros out)
  case Nil
  obtain zs where z: "zeros = False # zs" using Nil.prems by (cases zeros) auto
  show ?case
    using client_recv_wait [of buf chunks] Nil.prems by (subst recv_loop.simps) (simp add: z)
next
  case (Cons m ms)
  obtain zs where z: "zeros = False # zs" using Cons.prems by (cases zeros) auto
  obtain buf' chunks' where r: "client_recv (map Read_Done chunks @ [Past_Deadline]) buf =
      (Some (Inr (wire_view m)), buf', map Read_Done chunks' @ [Past_Deadline])"
      "list_all (\<lambda>c. c \<noteq> []) chunks'" "buf' @ concat chunks' = concat (map event_bytes ms) @ part"
    using client_recv_next [of m chunks buf "concat (map event_bytes ms) @ part" "[Past_Deadline]"] Cons.prems
    by auto
  then show ?case
    using Cons.IH [of chunks' buf' zs "out @ [wire_view m]"] Cons.prems
    by (subst recv_loop.simps) (simp add: z)
qed

section \<open>Events through the channel\<close>

context broadcast
begin

lemma emits_sent:
  "list_all sendable ms \<Longrightarrow> \<exists>s'. ChannelSink_emits api ms s = Some s' \<and> sent (cs_tx s') = sent (cs_tx s) @ map event_bytes ms"
proof (induction ms arbitrary: s)
  case (Cons m ms)
  let ?s1 = "s\<lparr>cs_tx := bc_send api (cs_tx s) (event_bytes m)\<rparr>"
  have "ChannelSink_emit api m s = Some ?s1"
    using sendable_bytes [of m] Cons.prems by (simp add: ChannelSink_emit_def)
  moreover obtain s' where "ChannelSink_emits api ms ?s1 = Some s'"
      "sent (cs_tx s') = sent (cs_tx ?s1) @ map event_bytes ms"
    using Cons by fastforce
  ultimately show ?case by (simp add: send_sent)
qed simp

end

end
