(* ===== verification/Outbound_Sound.thy ===== *)
theory Outbound_Sound
  imports Liveness Session
begin

text \<open>
  Every message the engine publishes can be encoded and read back. Identifiers, prices and quantities
  are in range, an execution report carries the fields its state calls for, and a snapshot has no more
  levels than there are resting orders. The encoder's panic and the validation a reader applies are
  therefore never reached from the engine's side.
\<close>

section \<open>Messages fit to send\<close>

definition fit :: "nat \<Rightarrow> outbound \<Rightarrow> bool" where
  "fit n m \<longleftrightarrow> outbound_ok (wire_view m) \<and>
     (case m of Out_SnapshotResponse s \<Rightarrow> length (sp_bids s) + length (sp_asks s) \<le> n | _ \<Rightarrow> True)"

lemma fit_mono: "fit n m \<Longrightarrow> n \<le> n' \<Longrightarrow> fit n' m"
  by (auto simp: fit_def split: outbound.splits)

lemma fit_sendable:
  assumes "fit n m" "n < 2 ^ 27"
  shows "sendable m"
proof -
  have "\<exists>bs. md_encode m [] = Some (Inr bs)"
  proof (cases m)
    case (Out_SnapshotResponse s)
    then have len: "length (sp_bids s) + length (sp_asks s) < 2 ^ 27" "snapshot_ok s"
      using assms by (simp_all add: fit_def)
    then obtain bs where bs: "snapshot_encode s [] = Some bs" by (simp add: snapshot_encode_def u32_max_def)
    have "1 + length bs \<le> u32_max"
      using snapshot_roundtrip(2) [OF len(2) bs] len(1)
      by (simp add: encoded_len_def HEADER_BYTES_def LEVEL_BYTES_def u32_max_def)
    then show ?thesis
      using frame_write_bytes [of bs MK_SnapshotResponse "[]"] bs Out_SnapshotResponse
      by (simp add: md_encode_def)
  qed (use md_encode_fixed [of m "[]"] in simp_all)
  then show ?thesis using assms(1) by (simp add: sendable_def fit_def)
qed

section \<open>One message at a time\<close>

lemma fit_reports:
  assumes "order_id_ok oid" "account_id_ok a"
  shows "emit_rejected oid a reason recv e = Some e' \<Longrightarrow> emits_some (fit n) e e'"
    and "emit_exec_report_cancelled oid a cr recv e = Some e' \<Longrightarrow> emits_some (fit n) e e'"
    and "emit_exec_report_replaced oid a q recv e = Some e' \<Longrightarrow> emits_some (fit n) e e'"
    and "qty_ok q \<Longrightarrow> emit_exec_report_accepted oid a q recv e = Some e' \<Longrightarrow> emits_some (fit n) e e'"
    and "price_ok p \<Longrightarrow> qty_ok q \<Longrightarrow>
      st = Filled \<and> leaves = None \<or> st = PartiallyFilled \<and> (\<exists>l. leaves = Some l \<and> qty_ok l) \<Longrightarrow>
      emit_exec_report_fill oid a st p q leaves recv e = Some e' \<Longrightarrow> emits_some (fit n) e e'"
  using assms
  by (auto simp: emit_defs fit_def exec_report_ok_def validate_coherent_def elim!: publish_some)

lemma fit_rejected_mass:
  "account_id_ok a \<Longrightarrow> emit_rejected_mass a reason recv e = Some e' \<Longrightarrow> emits_some (fit n) e e'"
  using fit_reports(1) [of "OrderId 1" a] by (simp add: emit_rejected_mass_eq order_id_ok_def)

lemma fit_trade_print:
  "price_ok (f_price f) \<Longrightarrow> qty_ok (f_qty f) \<Longrightarrow> emit_trade_print_for_fill f s recv e = Some e' \<Longrightarrow>
   emits_some (fit n) e e'"
  by (auto simp: emit_defs fit_def trade_print_ok_def elim!: publish_some)

lemma fit_l2_delta: "price_ok p \<Longrightarrow> emit_l2_delta s p q recv e = Some e' \<Longrightarrow> emits_some (fit n) e e'"
  by (auto simp: emit_defs fit_def l2_delta_ok_def Qty_new_ok qty_ok_def elim!: publish_some)

lemma fit_l2_merge:
  "list_all (\<lambda>(s, p, q). price_ok p) pre \<Longrightarrow> list_all (\<lambda>(s, p, q). price_ok p) post \<Longrightarrow>
   emit_l2_merge pre post recv e = Some e' \<Longrightarrow> emits_some (fit n) e e'"
  by (induction pre post recv e arbitrary: e' rule: emit_l2_merge.induct)
    (auto simp: Option.bind_eq_Some_conv split: if_splits dest: fit_l2_delta intro: emits_some_trans)

section \<open>The fills of a walk\<close>

text \<open>A fill reported against a registry: its maker is registered and a partial fill leaves something.\<close>

definition fill_fine :: "registry_map \<Rightarrow> fill \<Rightarrow> bool" where
  "fill_fine reg f \<longleftrightarrow> order_id_ok (f_maker_order_id f) \<and> price_ok (f_price f) \<and> qty_ok (f_qty f) \<and>
     (\<exists>en. reg (f_maker_order_id f) = Some en \<and> account_id_ok (re_account_id en) \<and>
        (\<not> f_maker_fully_filled f \<longrightarrow> as_lots (f_qty f) < as_lots (re_qty en)))"

lemma fit_fill:
  assumes "emit_fill oid a recv r f e = Some e'" "fill_fine (registry e) f" "order_id_ok oid" "account_id_ok a"
  shows "emits_some (fit n) e e'"
proof -
  obtain en where en: "registry e (f_maker_order_id f) = Some en" "account_id_ok (re_account_id en)"
      "\<not> f_maker_fully_filled f \<Longrightarrow> as_lots (f_qty f) < as_lots (re_qty en)"
    and ok: "order_id_ok (f_maker_order_id f)" "price_ok (f_price f)" "qty_ok (f_qty f)"
    using assms(2) by (auto simp: fill_fine_def)
  let ?full = "f_maker_fully_filled f"
  let ?left = "saturating_sub (as_lots (re_qty en)) (as_lots (f_qty f))"
  have left: "?left \<noteq> 0" if "\<not> ?full" using en(3) [OF that] by (auto simp: saturating_sub_def)
  obtain e1 where e1: "emit_trade_print_for_fill f (opposite (f_maker_side f)) recv e = Some e1"
    using assms(1) by (auto simp: emit_fill_def Option.bind_eq_Some_conv)
  have reg1: "registry e1 = registry e"
    using emit_emission(7) [OF e1] by (simp add: emission_def same_core_def)
  obtain e2 e3 where e2: "emit_exec_report_fill (f_maker_order_id f) (re_account_id en)
        (if ?full then Filled else PartiallyFilled) (f_price f) (f_qty f)
        (if ?full then None else ok (Qty_new ?left)) recv e1 = Some e2"
    and e3: "emit_exec_report_fill oid a (if r = 0 then Filled else PartiallyFilled) (f_price f) (f_qty f)
        (if r = 0 then None else ok (Qty_new r)) recv e2 = Some e3" "e' = settle_maker f e3"
    using assms(1) e1 en(1) reg1 by (auto simp: emit_fill_def Option.bind_eq_Some_conv Let_def cong: if_cong)
  have "emits_some (fit n) e1 e2"
    by (rule fit_reports(5) [OF ok(1) en(2) ok(2,3) _ e2]) (use left in \<open>auto simp: Qty_new_ok qty_ok_def\<close>)
  moreover have "emits_some (fit n) e2 e3"
    by (rule fit_reports(5) [OF assms(3,4) ok(2,3) _ e3(1)]) (auto simp: Qty_new_ok qty_ok_def)
  ultimately show ?thesis
    using fit_trade_print [OF ok(2,3) e1] e3(2) emits_some_trans by (metis emits_some_settle)
qed

lemma ledger_settle_other:
  "oid \<noteq> f_maker_order_id f \<Longrightarrow> fst (ledger_settle f l) oid = fst l oid"
  by (cases l) (auto simp: ledger_settle_def ledger_drop_def Let_def split: option.split)

lemma fit_fills_loop:
  assumes "emit_fills_loop oid a recv r fs e = Some e'" "list_all (fill_fine (registry e)) fs"
    and "distinct (map f_maker_order_id fs)" "order_id_ok oid" "account_id_ok a"
  shows "emits_some (fit n) e e'"
  using assms(1-3)
proof (induction fs arbitrary: r e)
  case (Cons f fs)
  then obtain e1 where e1: "emit_fill oid a recv (saturating_sub r (as_lots (f_qty f))) f e = Some e1"
      "emit_fills_loop oid a recv (saturating_sub r (as_lots (f_qty f))) fs e1 = Some e'"
    by (auto simp: Let_def Option.bind_eq_Some_conv)
  have other: "registry e1 oid' = registry e oid'" if "oid' \<noteq> f_maker_order_id f" for oid'
    using emit_fill_effect [OF e1(1)] ledger_settle_other [OF that, of "ledger e"] by (metis fst_conv ledger_def)
  have "fill_fine (registry e1) g" if "g \<in> set fs" for g
  proof -
    have "f_maker_order_id g \<noteq> f_maker_order_id f" using Cons.prems(3) imageI [OF that, of f_maker_order_id] by auto
    moreover have "fill_fine (registry e) g" using Cons.prems(2) that by (simp add: list_all_iff)
    ultimately show ?thesis by (simp add: fill_fine_def other)
  qed
  then have "list_all (fill_fine (registry e1)) fs" by (simp add: list_all_iff)
  then show ?case
    using Cons.IH [OF e1(2)] fit_fill [OF e1(1) _ assms(4,5)] Cons.prems(2,3) by (auto intro: emits_some_trans)
qed simp

lemma fit_stp_loop:
  assumes "list_all (\<lambda>c. order_id_ok (sc_order_id c) \<and> account_id_ok (sc_account_id c)) cs"
  shows "emit_stp_loop recv cs e = Some e' \<Longrightarrow> emits_some (fit n) e e'"
  using assms
proof (induction cs arbitrary: e)
  case (Cons c cs)
  then obtain e1 where e1: "emit_exec_report_cancelled (sc_order_id c) (sc_account_id c) CR_SelfTradePrevented recv e = Some e1"
      "emit_stp_loop recv cs (unregister (sc_order_id c) e1) = Some e'"
    by (auto simp: Option.bind_eq_Some_conv)
  then show ?case
    using Cons.IH [OF e1(2)] fit_reports(2) [OF _ _ e1(1)] Cons.prems(2) by (auto intro: emits_some_trans)
qed simp

lemma fit_mass_loop:
  assumes "list_all (\<lambda>c. order_id_ok (mc_order_id c) \<and> account_id_ok (mc_account_id c)) cs"
  shows "emit_mass_loop recv cs e = Some e' \<Longrightarrow> emits_some (fit n) e e'"
  using assms
proof (induction cs arbitrary: e)
  case (Cons c cs)
  then obtain e1 where e1: "emit_exec_report_cancelled (mc_order_id c) (mc_account_id c) CR_MassCancel recv
        (unregister (mc_order_id c) e) = Some e1" "emit_mass_loop recv cs e1 = Some e'"
    by (auto simp: Option.bind_eq_Some_conv)
  then show ?case
    using Cons.IH [OF e1(2)] fit_reports(2) [OF _ _ e1(1)] Cons.prems(2) by (auto intro: emits_some_trans)
qed simp

lemma makers_fine:
  assumes b: "good_book queue level_ok b" and mem: "(i, p, q) \<in> set (makers queue s b)"
  shows "order_id_ok i" "price_ok p" "q \<noteq> 0"
    "\<exists>a. reg_of queue b i = Some (entry_for a s (p, q)) \<and> account_id_ok a"
proof -
  have wf: "book_wf queue level_ok b" "index_ok (index b)" using b by (simp_all add: good_book_def book_inv_def)
  obtain m where m: "index b i = Some m" using makers_iff [OF wf(1)] mem by blast
  then show "order_id_ok i" using book_wf_order_id_ok [OF wf(1)] by blast
  have "q \<noteq> 0 \<and> price_ok p \<and> reg_of queue b i = Some (entry_for (account_in b i) s (p, q))"
    using reg_of_registered [OF wf, of s] mem by (auto simp: registered_def)
  moreover have "account_id_ok (account_in b i)" using wf(2) m by (auto simp: index_ok_def account_in_def)
  ultimately show "price_ok p" "q \<noteq> 0" "\<exists>a. reg_of queue b i = Some (entry_for a s (p, q)) \<and> account_id_ok a"
    by blast+
qed

context price_level_total
begin

lemma walk_fine:
  assumes b: "good_book queue level_ok b" and gate: "\<not> post_only_gate b taker" and a: "account_id_ok (ao_account_id taker)"
    and m: "match_aggressive api nti b taker ids [] [] = Some (res, b2, ids', F, S)"
  shows "list_all (fill_fine (reg_of queue b)) F" "distinct (map f_maker_order_id F)"
    "list_all (\<lambda>c. order_id_ok (sc_order_id c) \<and> account_id_ok (sc_account_id c)) S"
    "opt_ok qty_ok (mr_taker_remaining res)"
proof -
  let ?s = "opposite (ao_side taker)"
  obtain fs r st rest tids where spec: "spec_of queue b taker = (fs, r, st, rest)"
    and ids: "ids_run nti (length fs) ids = Some (tids, ids')" and res: "res = result_of fs r st"
    and bufs: "F = map2 (fill_of taker) tids fs" "S = stp_of taker st"
    using match_aggressive_Some [OF good_bookD [OF b] gate m] by auto
  note spec' = spec [unfolded spec_of_def]
  obtain suf where pre: "makers queue ?s b = map fst fs @ suf"
      and st: "\<And>x. st = Some x \<Longrightarrow> x \<in> set suf"
    using spec_match_prefix [OF spec'] by (auto split: option.splits)
  have len: "length tids = length fs" by (rule ids_run_length [OF ids])
  have "map f_maker_order_id F = map (fst \<circ> fst) fs"
    unfolding bufs(1) by (rule nth_equalityI) (use len in \<open>auto simp: fill_of_def split_def\<close>)
  moreover have "distinct (map fst (makers queue ?s b))" by (rule makers_distinct [OF good_book_wf [OF b]])
  ultimately show "distinct (map f_maker_order_id F)" unfolding pre by simp
  show "opt_ok qty_ok (mr_taker_remaining res)" by (simp add: res result_of_def qty_ok_def)
  have "order_id_ok i" if "st = Some (i, p, q)" for i p q
    using makers_fine(1) [OF b, of i p q ?s] st [OF that] pre by simp
  then show "list_all (\<lambda>c. order_id_ok (sc_order_id c) \<and> account_id_ok (sc_account_id c)) S"
    using a by (auto simp: bufs(2) stp_of_def split: option.split)
  have pos: "\<forall>(i, p, q) \<in> set (makers queue ?s b). q \<noteq> 0" using makers_fine(3) [OF b] by blast
  have "fill_fine (reg_of queue b) (fill_of taker t ((i, p, q), n))" if "((i, p, q), n) \<in> set fs" for t i p q n
  proof -
    have f: "(i, p, q) \<in> set (makers queue ?s b)" "0 < n" "n \<le> q"
      using spec_match_fills [OF spec' pos that] by auto
    show ?thesis
      using makers_fine [OF b f(1)] f(2,3) by (auto simp: fill_fine_def fill_of_def qty_ok_def)
  qed
  then show "list_all (fill_fine (reg_of queue b)) F"
    unfolding bufs(1) list_all_iff by (auto simp: in_set_zip dest!: nth_mem)
qed

lemma report_fit:
  assumes b: "good_book queue level_ok b" and reg: "registry e = reg_of queue b" and gate: "\<not> post_only_gate b taker"
    and m: "match_aggressive api nti b taker ids [] [] = Some (res, b2, ids', fills_buf e, stp_buf e)"
    and ok: "order_id_ok oid" "account_id_ok a" "account_id_ok (ao_account_id taker)"
    and run: "emit_fills_for_taker oid a q recv e = Some e1" "emit_stp_cancels recv e1 = Some e2"
  shows "emits_some (fit n) e e2"
proof -
  note w = walk_fine [OF b gate ok(3) m]
  have "emits_some (fit n) e e1"
    by (rule fit_fills_loop [OF run(1) [unfolded emit_fills_for_taker_def]]) (use w reg ok in simp_all)
  moreover have "stp_buf e1 = stp_buf e"
    using emit_fills_loop_effect [OF run(1) [unfolded emit_fills_for_taker_def]] by (simp add: same_frame_def)
  then have "emits_some (fit n) e1 e2"
    using fit_stp_loop [OF _ run(2) [unfolded emit_stp_cancels_def]] w(3) by simp
  ultimately show ?thesis by (rule emits_some_trans)
qed

end

section \<open>The handlers\<close>

lemma fit_rest_new_order:
  assumes "new_order_ok msg" "qty_ok q" "rest_new_order api msg p q recv e = Some e'"
  shows "emits_some (fit n) e e'"
proof -
  have ok: "order_id_ok (no_order_id msg)" "account_id_ok (no_account_id msg)"
    using assms(1) by (simp_all add: new_order_ok_def)
  show ?thesis
    using assms(3) fit_reports(1,4) [OF ok, of _ _ _ _ n] assms(2)
    by (fastforce simp: rest_new_order_def Let_def split: prod.splits sum.splits)
qed

lemma fit_dispose_new_order:
  assumes "new_order_ok msg" "opt_ok qty_ok (mr_taker_remaining res)" "dispose_new_order api msg res recv e = Some e'"
  shows "emits_some (fit n) e e'"
proof -
  have ok: "order_id_ok (no_order_id msg)" "account_id_ok (no_account_id msg)"
    using assms(1) by (simp_all add: new_order_ok_def)
  show ?thesis
    using assms(2,3)
    by (auto simp: dispose_new_order_def split: if_splits option.splits prod.splits tif.splits
        dest: fit_reports(2) [OF ok] fit_rest_new_order [OF assms(1)])
qed

lemma fit_dispose_replace:
  assumes "cancel_replace_ok msg" "dispose_replace api msg old mr recv e = Some e'"
  shows "emits_some (fit n) e e'"
proof -
  have ok: "order_id_ok (cr_order_id msg)" "account_id_ok (cr_account_id msg)"
    using assms(1) by (simp_all add: cancel_replace_ok_def)
  show ?thesis
    using assms(2) fit_reports(1,2) [OF ok, of _ _ _ _ n]
    by (fastforce simp: dispose_replace_def Let_def split: if_splits option.splits prod.splits sum.splits)
qed

context price_level_total
begin

lemma fit_new_order:
  assumes inv: "engine_inv queue level_ok e" and ok: "new_order_ok msg"
    and run: "handle_new_order api msg recv e = Some e'"
  shows "emits_some (fit n) e e'"
proof -
  define t where "t = \<lparr>ao_order_id = no_order_id msg, ao_account_id = no_account_id msg, ao_side = no_side msg,
    ao_price = no_price msg, ao_qty = no_qty msg, ao_tif = no_tif msg\<rparr>"
  have ids: "order_id_ok (no_order_id msg)" "account_id_ok (no_account_id msg)" "account_id_ok (ao_account_id t)"
    using ok by (simp_all add: new_order_ok_def t_def)
  have b: "good_book queue level_ok (eng_book e)" and reg: "registry e = reg_of queue (eng_book e)"
    using inv by (auto simp: engine_inv_def)
  consider reason where "emit_rejected (no_order_id msg) (no_account_id msg) reason recv e = Some e'"
    | res b2 ids' F S where "match_aggressive api next_trade_id (eng_book e) t (eng_ids e) [] [] = Some (res, b2, ids', F, S)"
      "(let e = e\<lparr>eng_book := b2, eng_ids := ids', fills_buf := F, stp_buf := S\<rparr> in
        if mr_taker_post_only_rejected res
        then emit_rejected (no_order_id msg) (no_account_id msg) PostOnlyWouldCross recv e
        else Option.bind (emit_fills_for_taker (no_order_id msg) (no_account_id msg) (no_qty msg) recv e)
          (\<lambda>e. Option.bind (emit_stp_cancels recv e) (dispose_new_order api msg res recv))) = Some e'"
    using run by (auto simp: handle_new_order_def Let_def t_def Option.bind_eq_Some_conv split: sum.splits if_splits)
  then show ?thesis
  proof cases
    case 1
    then show ?thesis by (rule fit_reports(1) [OF ids(1,2)])
  next
    case 2
    let ?e = "e\<lparr>eng_book := b2, eng_ids := ids', fills_buf := F, stp_buf := S\<rparr>"
    have "emits_some (fit n) ?e e'"
    proof (cases "mr_taker_post_only_rejected res")
      case True
      then show ?thesis using 2(2) fit_reports(1) [OF ids(1,2), of PostOnlyWouldCross recv ?e e' n] by (simp add: Let_def)
    next
      case False
      then have gate: "\<not> post_only_gate (eng_book e) t"
        using 2(1) match_aggressive_gate [of "eng_book e" t next_trade_id "eng_ids e" "[]" "[]"] by auto
      obtain e1 e2 where r: "emit_fills_for_taker (no_order_id msg) (no_account_id msg) (no_qty msg) recv ?e = Some e1"
          "emit_stp_cancels recv e1 = Some e2" "dispose_new_order api msg res recv e2 = Some e'"
        using 2(2) False by (auto simp: Let_def Option.bind_eq_Some_conv)
      have "emits_some (fit n) ?e e2"
        by (rule report_fit [OF b _ gate _ ids r(1,2)]) (use reg 2(1) in simp_all)
      then show ?thesis
        using fit_dispose_new_order [OF ok walk_fine(4) [OF b gate ids(3) 2(1)] r(3)] by (rule emits_some_trans)
    qed
    then show ?thesis by (rule emits_some_matched [OF match_aggressive_draws [OF 2(1)]])
  qed
qed

lemma fit_commit_replace:
  assumes b: "good_book queue level_ok b" and m: "index b (cr_order_id msg) = Some m"
    and reg: "registry e = reg_of queue b" and ok: "cancel_replace_ok msg"
    and walk: "fills_buf e = [] \<and> stp_buf e = [] \<or>
      (let b1 = prune_level api (om_side m) (om_price m) (removed api (cr_order_id msg) m b);
           t = resubmit (cr_order_id msg) m (cr_new_price msg) (cr_new_qty msg)
       in \<not> post_only_gate b1 t \<and>
         (\<exists>ids res b2 ids'. match_aggressive api next_trade_id b1 t ids [] [] = Some (res, b2, ids', fills_buf e, stp_buf e)))"
    and run: "commit_replace api msg (Some en) mr recv e = Some e'"
  shows "emits_some (fit n) e e'"
proof -
  let ?e = "e\<lparr>eng_risk := on_order_removed (re_account_id en) (re_notional en) (eng_risk e),
              registry := (registry e)(cr_order_id msg := None)\<rparr>"
  have ids: "order_id_ok (cr_order_id msg)" "account_id_ok (cr_account_id msg)"
    using ok by (simp_all add: cancel_replace_ok_def)
  obtain e1 e2 e3 where r: "emit_exec_report_replaced (cr_order_id msg) (cr_account_id msg) (cr_new_qty msg) recv ?e = Some e1"
    "emit_fills_for_taker (cr_order_id msg) (cr_account_id msg) (cr_new_qty msg) recv e1 = Some e2"
    "emit_stp_cancels recv e2 = Some e3" "dispose_replace api msg (Some en) mr recv e3 = Some e'"
    using run by (auto simp: commit_replace_def Let_def Option.bind_eq_Some_conv)
  have fr: "fills_buf e1 = fills_buf e" "stp_buf e1 = stp_buf e" "registry e1 = (registry e)(cr_order_id msg := None)"
    using emission_frame [OF emit_emission(5) [OF r(1)]] by (auto simp: same_frame_def ledger_def)
  have "emits_some (fit n) e1 e3"
  proof (cases "fills_buf e = [] \<and> stp_buf e = []")
    case True
    then show ?thesis using r(2,3) fr by (simp add: emit_fills_for_taker_def emit_stp_cancels_def)
  next
    case False
    let ?b1 = "prune_level api (om_side m) (om_price m) (removed api (cr_order_id msg) m b)"
    let ?t = "resubmit (cr_order_id msg) m (cr_new_price msg) (cr_new_qty msg)"
    obtain ids' res b2 ids'' where w: "\<not> post_only_gate ?b1 ?t"
        "match_aggressive api next_trade_id ?b1 ?t ids' [] [] = Some (res, b2, ids'', fills_buf e, stp_buf e)"
      using walk False by (auto simp: Let_def)
    have "account_id_ok (ao_account_id ?t)" using b m by (auto simp: good_book_def index_ok_def resubmit_def)
    moreover have "registry e1 = reg_of queue ?b1" using fr(3) reg reg_of_removed [OF good_book_wf [OF b] m] by simp
    ultimately show ?thesis
      using report_fit [OF good_book_removed [OF b m] _ w(1) _ ids _ r(2,3)] w(2) fr by simp
  qed
  then show ?thesis
    using fit_reports(3) [OF ids r(1), of n] fit_dispose_replace [OF ok r(4), of n]
    by (auto intro: emits_some_trans)
qed

lemma fit_cancel_replace:
  assumes inv: "engine_inv queue level_ok e" and ok: "cancel_replace_ok msg"
    and room: "arrivals e < 2 ^ 64 - 1" and run: "handle_cancel_replace api msg recv e = Some e'"
  shows "emits_some (fit n) e e'"
proof -
  let ?oid = "cr_order_id msg" and ?a = "cr_account_id msg"
  have b: "good_book queue level_ok (eng_book e)" and reg: "registry e = reg_of queue (eng_book e)"
    using inv by (auto simp: engine_inv_def)
  have ids: "order_id_ok ?oid" "account_id_ok ?a" "qty_ok (cr_new_qty msg)" using ok by (simp_all add: cancel_replace_ok_def)
  note rej = fit_reports(1) [OF ids(1,2)]
  from run show ?thesis
  proof (cases rule: handle_cancel_replace_cases)
    case (1 reason)
    then show ?thesis by (rule rej)
  next
    case (2 out b' ids' F S)
    let ?e = "e\<lparr>eng_book := b', eng_ids := ids', fills_buf := F, stp_buf := S\<rparr>"
    have "emits_some (fit n) ?e e'"
    proof (cases "index (eng_book e) ?oid")
      case None
      then show ?thesis using 2 rej [of UnknownOrderId recv ?e e' n] by (auto simp: replace_def conclude_replace_def)
    next
      case (Some m)
      obtain en where en: "registry e ?oid = Some en" using engine_inv_known [OF inv] Some by fastforce
      have room': "unat (book_seq (eng_book e)) < 2 ^ 64 - 1" using room by (simp add: arrivals_def)
      note commit = fit_commit_replace [OF b Some, of ?e, OF _ ok]
      from good_bookD [OF b] Some ids(3) room' 2(2) show ?thesis
      proof (cases rule: replace_outcomes)
        case in_place
        then show ?thesis using commit [of en None recv e' n] 2(3) en reg by (simp add: conclude_replace_def)
      next
        case (rejected r)
        then show ?thesis using 2(3) rej [of PostOnlyWouldCross recv ?e e' n] by (simp add: conclude_replace_def)
      next
        case (walked res b2)
        then have "commit_replace api msg (Some en) (Some res) recv ?e = Some e'"
          using 2(3) en by (simp add: conclude_replace_def)
        then show ?thesis using commit [of en "Some res" recv e' n] walked(2,3) reg by (auto simp: Let_def)
      qed
    qed
    then show ?thesis by (rule emits_some_matched [OF replace_draws [OF 2(2)]])
  qed
qed

lemma fit_cancel_order:
  assumes "cancel_order_ok msg" "handle_cancel_order api msg recv e = Some e'"
  shows "emits_some (fit n) e e'"
proof -
  have ok: "order_id_ok (co_order_id msg)" "account_id_ok (co_account_id msg)"
    using assms(1) by (simp_all add: cancel_order_ok_def)
  show ?thesis
    using assms(2)
    by (auto simp: handle_cancel_order_def split: if_splits sum.splits prod.splits option.splits
        dest!: fit_reports(1,2) [OF ok, where n = n])
qed

lemma fit_mass_cancel:
  assumes inv: "engine_inv queue level_ok e" and ok: "mass_cancel_ok msg"
    and run: "handle_mass_cancel api msg recv e = Some e'"
  shows "emits_some (fit n) e e'"
proof -
  let ?a = "mx_account_id msg"
  have b: "good_book queue level_ok (eng_book e)" using inv by (simp add: engine_inv_def)
  have a: "account_id_ok ?a" using ok by (simp add: mass_cancel_ok_def)
  obtain k b' buf where mc: "mass_cancel api (eng_book e) ?a [] = (k, b', buf)" by (metis prod_cases3)
  have mem: "owned_by (index (eng_book e)) ?a oid" if "oid \<in> set (account_orders (by_account (eng_book e)) ?a)" for oid
    using that account_orders_owned [OF good_book_wf [OF b]] by blast
  have "list_all (\<lambda>c. order_id_ok (mc_order_id c) \<and> account_id_ok (mc_account_id c)) buf"
    unfolding mass_cancel_spec(2) [OF good_bookD [OF b] mc]
    using mem book_wf_order_id_ok [OF good_book_wf [OF b]] a
    by (fastforce simp: list_all_iff mass_record_def Let_def owned_by_def split: option.splits)
  note loop = fit_mass_loop [OF this, of recv "e\<lparr>eng_book := b', mass_buf := buf\<rparr>" e' n]
  show ?thesis
    using run loop mc fit_rejected_mass [OF a, of _ recv e e' n]
    by (auto simp: handle_mass_cancel_def split: sum.splits if_splits)
qed

section \<open>One command\<close>

lemma level_prices_ok:
  assumes "good_book queue level_ok b" "p \<in> fst ` set (levels_of s b)"
  shows "price_ok p"
  using assms level_keys_index [OF good_bookD [OF assms(1)], of p s] by (auto simp: good_book_def index_ok_def)

lemma capture_prices_ok:
  assumes "good_book queue level_ok b"
  shows "list_all (\<lambda>(s, p, q). price_ok p) (capture_levels api b)"
  using level_prices_ok [OF assms, of _ Bid] level_prices_ok [OF assms, of _ Ask]
  by (force simp: capture_levels_eq list_all_iff)

lemma fit_top:
  assumes "good_book queue level_ok (eng_book e)" "emit_book_update_top api recv e = Some e'"
  shows "emits_some (fit n) e e'"
proof -
  have bid: "opt_ok price_ok (best_bid (eng_book e))"
    using level_prices_ok [OF assms(1), of _ Bid]
    by (force simp: best_bid_def btm_last_key_def opt_ok_def dest: last_in_set split: option.split)
  have ask: "opt_ok price_ok (best_ask (eng_book e))"
    using level_prices_ok [OF assms(1), of _ Ask]
    by (cases "asks (eng_book e)") (auto simp: best_ask_def btm_first_key_def)
  have q: "qty_ok (unwrap_or (ok (Qty_new k)) Qty_MIN)" for k
    by (simp add: unwrap_or_def Qty_new_def qty_ok_def Qty_MIN_def LOT_SIZE_def split: option.split)
  show ?thesis
    using assms(2) bid ask q
    by (auto simp: emit_defs fit_def book_update_top_ok_def opt_ok_def elim!: publish_some split: option.splits)
qed

lemma fit_tail:
  assumes "good_book queue level_ok (eng_book e)" "list_all (\<lambda>(s, p, q). price_ok p) (pre_step_levels e)"
    and "emit_tail api recv e = Some e'"
  shows "emits_some (fit n) e e'"
proof -
  let ?e = "capture_post_step_levels api e"
  obtain e1 where e1: "emit_l2_merge (pre_step_levels e) (capture_levels api (eng_book e)) recv ?e = Some e1"
      "emit_book_update_top api recv e1 = Some e'"
    using assms(3)
    by (auto simp: emit_tail_def emit_l2_deltas_def capture_post_step_levels_def Option.bind_eq_Some_conv)
  have "eng_book e1 = eng_book e"
    using emit_l2_merge_emission [OF e1(1)] by (simp add: emission_def same_core_def capture_post_step_levels_def)
  moreover have "emits_some (fit n) e e1"
    using fit_l2_merge [OF assms(2) capture_prices_ok [OF assms(1)] e1(1), of n]
    by (simp add: capture_post_step_levels_def)
  ultimately show ?thesis using fit_top [OF _ e1(2)] assms(1) emits_some_trans by metis
qed

lemma length_snapshot_levels: "length (snapshot_levels ls) \<le> length ls"
  by (simp add: snapshot_levels_def List.map_filter_def)

lemma fit_snapshot:
  assumes inv: "engine_inv queue level_ok e" and run: "handle_snapshot_request api msg recv e = Some e'"
  shows "emits_some (fit (resting e)) e e'"
proof -
  let ?b = "eng_book e"
  have b: "good_book queue level_ok ?b" using inv by (simp add: engine_inv_def)
  have "length (bid_levels api ?b) + length (ask_levels api ?b) \<le> resting e"
    using levels_bounded [OF good_bookD [OF b] engine_inv_index(1) [OF inv], of api]
    by (simp add: capture_levels_def resting_def)
  then have len: "length (snapshot_levels (bid_levels api ?b)) + length (snapshot_levels (ask_levels api ?b)) \<le> resting e"
    using length_snapshot_levels [of "bid_levels api ?b"] length_snapshot_levels [of "ask_levels api ?b"] by linarith
  have lv: "list_all snap_level_ok (snapshot_levels ls)" if "\<And>p q. (p, q) \<in> set ls \<Longrightarrow> price_ok p" for ls
    using that by (force simp: list_all_iff snapshot_levels_def snap_level_ok_def List.map_filter_def Qty_new_def qty_ok_def
        split: if_splits)
  have "price_ok p" if "(p, q) \<in> set (bid_levels api ?b) \<union> set (ask_levels api ?b)" for p q
    using that level_prices_ok [OF b, of p Bid] level_prices_ok [OF b, of p Ask]
    by (force simp: bid_levels_def ask_levels_def)
  then have "list_all snap_level_ok (snapshot_levels (bid_levels api ?b))"
    "list_all snap_level_ok (snapshot_levels (ask_levels api ?b))" using lv by blast+
  then show ?thesis
    using run len by (auto simp: emit_defs fit_def snapshot_ok_def elim!: publish_some)
qed

lemma fit_dispatch:
  assumes "engine_inv queue level_ok e" "inbound_ok msg" "arrivals e < 2 ^ 64 - 1"
    and "dispatch api msg recv e = Some e'"
  shows "emits_some (fit (resting e)) e e'"
  using assms
  by (cases msg)
    (auto simp: handle_kill_switch_def Let_def
      intro: fit_new_order fit_cancel_order fit_cancel_replace fit_mass_cancel fit_snapshot)

lemma fit_step:
  assumes inv: "engine_inv queue level_ok e" and ok: "inbound_ok msg" and room: "arrivals e < 2 ^ 64 - 1"
    and run: "step api msg e = Some e'"
  shows "\<exists>out. stream e' = stream e @ out \<and> list_all (fit (resting e)) out" "resting e' \<le> Suc (resting e)"
proof -
  obtain recv e1 where c: "clock_now e = (recv, e1)" by fastforce
  define e2 where "e2 = (if emit_book_changes msg then capture_pre_step_levels api e1 else e1)"
  have e1: "e1 = e\<lparr>eng_clock_reads := Suc (eng_clock_reads e)\<rparr>" using c by (simp add: clock_now_def)
  have e2: "engine_inv queue level_ok e2" "arrivals e2 = arrivals e" "resting e2 = resting e" "stream e2 = stream e"
    using inv engine_inv_cong [of e2 e queue level_ok]
    by (simp_all add: e2_def e1 capture_pre_step_levels_def arrivals_def resting_def stream_def)
  obtain e3 where d: "dispatch api msg recv e2 = Some e3"
    and t: "(if emit_book_changes msg then emit_tail api recv e3 else Some e3) = Some e'"
    using run c by (auto simp: step_def Let_def e2_def Option.bind_eq_Some_conv)
  have f3: "emits_some (fit (resting e)) e2 e3" using fit_dispatch [OF e2(1) ok _ d] e2 room by simp
  have inv3: "engine_inv queue level_ok e3" using dispatch_inv [OF e2(1) ok _ d] e2(2) room by (simp add: keeps_inv_def)
  have "eng_book e' = eng_book e3"
    using t emit_tail_emission [of api recv e3 e']
    by (auto simp: emission_def same_core_def capture_post_step_levels_def split: if_splits)
  then show "resting e' \<le> Suc (resting e)" using dispatch_resting [OF e2(1) inv3 d] e2(3) by (simp add: resting_def)
  have "emits_some (fit (resting e)) e3 e'"
  proof (cases "emit_book_changes msg")
    case True
    have "pre_step_levels e3 = capture_levels api (eng_book e)"
      using f3 True by (simp add: emits_some_def e2_def e1 capture_pre_step_levels_def)
    then have "list_all (\<lambda>(s, p, q). price_ok p) (pre_step_levels e3)"
      using capture_prices_ok [of "eng_book e"] inv by (simp add: engine_inv_def)
    then show ?thesis using fit_tail [of e3] inv3 t True by (simp add: engine_inv_def)
  qed (use t in simp)
  then have "emits_some (fit (resting e)) e2 e'" by (rule emits_some_trans [OF f3])
  then show "\<exists>out. stream e' = stream e @ out \<and> list_all (fit (resting e)) out"
    using e2(4) by (auto simp: emits_some_def emits_def)
qed

section \<open>Along a run\<close>

lemma reachable_fit:
  "reachable api ids n e \<Longrightarrow> n < 2 ^ 64 \<Longrightarrow> resting e \<le> n \<and> list_all (fit n) (stream e)"
proof (induction rule: reachable.induct)
  case (start c)
  then show ?case by (simp add: resting_def Engine_new_def Book_new_def stream_def VecSink_new_def)
next
  case (command n e msg e')
  note inv = reachable_inv [OF command(1)]
  have i: "engine_inv queue level_ok e" "arrivals e < 2 ^ 64 - 1" using inv command.prems by auto
  have n: "resting e \<le> n" "list_all (fit n) (stream e)" using command by auto
  obtain out where out: "stream e' = stream e @ out" "list_all (fit (resting e)) out"
    using fit_step(1) [OF i(1) command(2) i(2) command(3)] by blast
  have "list_all (fit (Suc n)) (stream e')"
    using n out fit_mono by (force simp: list_all_iff)
  then show ?case using fit_step(2) [OF i(1) command(2) i(2) command(3)] n(1) by simp
next
  case (drain n e out sink')
  then show ?case by (auto simp: resting_def stream_def VecSink_take_def)
next
  case (set_clock n e t)
  then show ?case by (simp add: resting_def stream_def)
qed

lemma reachable_sendable:
  "reachable api ids n e \<Longrightarrow> n < 2 ^ 27 \<Longrightarrow> list_all sendable (stream e)"
  using reachable_fit [of ids n e] fit_sendable by (force simp: list_all_iff)

end

lemma partial_event_Nil: "partial_event []"
proof -
  let ?m = "Out_TradePrint \<lparr>tp_engine_seq = EngineSeq 1, tp_trade_id = TradeId 1, tp_price = Price 1, tp_qty = Qty 1,
    tp_aggressor_side = Bid, tp_emit_ts = RecvTs 0\<rparr>"
  have "sendable ?m" by (rule fit_sendable [of 0]) (simp_all add: fit_def trade_print_ok_def ok_defs)
  then show ?thesis using event_bytes_long [of ?m] by (auto simp: partial_event_def strict_prefix_def)
qed

end
