(* ===== verification/Server.thy ===== *)
theory Server
  imports Outbound_Sound
begin

text \<open>
  The engine process (\<^verbatim>\<open>engine/src/bin/engine.rs\<close> with \<^verbatim>\<open>run\<close> of \<^verbatim>\<open>gateway/src/listener.rs\<close>): the
  command line, the engine thread and the tokio tasks around it. The tasks interleave; a turn of the
  server is one accept, one read of one connection with the frames it completes, one message carried
  by the forwarder, one command stepped by the engine thread, one event it publishes, or one frame a
  writer copies to its socket.
\<close>

section \<open>Command line\<close>

definition DEFAULT_ADDR :: string where "DEFAULT_ADDR = ''0.0.0.0:9000''"
definition OUTBOUND_BROADCAST_CAPACITY :: nat where "OUTBOUND_BROADCAST_CAPACITY = 1024"
definition INBOUND_CHANNEL_CAPACITY :: nat where "INBOUND_CHANNEL_CAPACITY = 8192"

definition engine_addr :: "string list \<Rightarrow> string" where
  "engine_addr args = unwrap_or (List.find (\<lambda>a. \<not> prefix ''--'' a) (drop 1 args)) DEFAULT_ADDR"

text \<open>\<^verbatim>\<open>str::parse::<usize>\<close>: an optional plus sign, then decimal digits, with checked arithmetic.\<close>

fun parse_digits :: "u64 \<Rightarrow> string \<Rightarrow> u64 option" where
  "parse_digits acc [] = Some acc"
| "parse_digits acc (c # cs) =
     (let d = (of_char c :: nat)
      in if 48 \<le> d \<and> d \<le> 57
         then Option.bind (checked_mul acc 10) (\<lambda>m.
              Option.bind (checked_add m (of_nat (d - 48))) (\<lambda>acc'. parse_digits acc' cs))
         else None)"

definition parse_usize :: "string \<Rightarrow> u64 option" where
  "parse_usize s =
     (case s of
        [] \<Rightarrow> None
      | c # cs \<Rightarrow> parse_digits 0 (if c = CHR ''+'' \<and> cs \<noteq> [] then cs else s))"

fun parse_engine_core :: "string list \<Rightarrow> u64 option" where
  "parse_engine_core [] = None"
| "parse_engine_core (arg # args) =
     (if arg = ''--engine-core''
      then (case args of [] \<Rightarrow> None | v # _ \<Rightarrow> parse_usize v)
      else parse_engine_core args)"

text \<open>\<^verbatim>\<open>pin_to_core\<close>, which only logs: with the feature \<open>pinned\<close> it asks the crate \<^verbatim>\<open>core_affinity\<close> for the
  cores (\<open>get_core_ids\<close>) and pins the thread (\<open>set_for_current\<close>).\<close>

datatype pin_log =
    Not_Requested | Pinned u64 | Pin_Failed u64 | Core_Out_Of_Range u64 nat | No_Core_Ids | Not_Built

definition pin_to_core :: "bool \<Rightarrow> 'c list option \<Rightarrow> ('c \<Rightarrow> bool) \<Rightarrow> u64 option \<Rightarrow> pin_log" where
  "pin_to_core pinned get_core_ids set_for_current core =
     (case core of
        None \<Rightarrow> Not_Requested
      | Some core_idx \<Rightarrow>
          if \<not> pinned then Not_Built
          else (case get_core_ids of
              None \<Rightarrow> No_Core_Ids
            | Some ids \<Rightarrow>
                if unat core_idx < length ids
                then (if set_for_current (ids ! unat core_idx) then Pinned core_idx else Pin_Failed core_idx)
                else Core_Out_Of_Range core_idx (length ids)))"

section \<open>The engine thread\<close>

text \<open>The variables of \<^verbatim>\<open>engine_loop\<close> and the progress lines it has printed.\<close>

record 'l engine_thread =
  th_engine :: "'l engine"
  th_count :: u64
  th_last_log :: u64
  th_log :: "u64 list"

definition engine_thread_new :: "clock \<Rightarrow> 'l engine_thread" where
  "engine_thread_new c =
     \<lparr>th_engine = Engine_new c CounterIdGenerator_new VecSink_new, th_count = 0, th_last_log = 0, th_log = []\<rparr>"

definition engine_iter :: "'l pl_api \<Rightarrow> inbound \<Rightarrow> 'l engine_thread \<Rightarrow> 'l engine_thread option" where
  "engine_iter api msg th =
     (case step api msg (th_engine th) of
        None \<Rightarrow> None
      | Some e \<Rightarrow>
          (let count = th_count th + 1;
               th1 = th\<lparr>th_engine := e, th_count := count\<rparr>
           in Some (if count mod 10000 = 0 \<and> count \<noteq> th_last_log th
                    then th1\<lparr>th_last_log := count, th_log := th_log th @ [count]\<rparr>
                    else th1)))"

fun engine_loop :: "'l pl_api \<Rightarrow> inbound list \<Rightarrow> 'l engine_thread \<Rightarrow> 'l engine_thread option" where
  "engine_loop api [] th = Some th"
| "engine_loop api (m # ms) th = Option.bind (engine_iter api m th) (engine_loop api ms)"

section \<open>The server\<close>

text \<open>The bounded tokio channel and the broadcast channel, as the sources use them.\<close>

record ('q, 'b, 'r) net_api =
  nt_channel :: "nat \<Rightarrow> 'q"
  nt_try_send :: "'q \<Rightarrow> inbound \<Rightarrow> 'q option"
  nt_recv :: "'q \<Rightarrow> (inbound \<times> 'q) option"
  nt_bcast :: "('b, 'r) broadcast_api"

text \<open>A session: its reader, its subscription, what its writer has put on the socket, whether the
  writer runs. The last two fields are history: the bytes read, and how many events had been
  published when it subscribed.\<close>

record 'r session =
  se_conn :: conn
  se_rx :: 'r
  se_out :: "u8 list"
  se_writing :: bool
  se_in :: "u8 list"
  se_from :: nat

text \<open>\<open>sv_pending\<close> are the events of the current step that have not reached the broadcast channel.
  \<open>sv_log\<close> (who handed over which command), \<open>sv_done\<close> and \<open>sv_published\<close> are history.\<close>

record ('l, 'q, 'b, 'r) server =
  sv_thread :: "'l engine_thread"
  sv_bridge :: "inbound list"
  sv_ring :: 'q
  sv_sink :: "'b channel_sink"
  sv_pending :: "outbound list"
  sv_conns :: "nat \<rightharpoonup> 'r session"
  sv_log :: "(nat \<times> inbound) list"
  sv_done :: "inbound list"
  sv_published :: "outbound list"

definition server_new :: "('q, 'b, 'r) net_api \<Rightarrow> clock \<Rightarrow> ('l, 'q, 'b, 'r) server" where
  "server_new net c =
     \<lparr>sv_thread = engine_thread_new c, sv_bridge = [], sv_ring = nt_channel net INBOUND_CHANNEL_CAPACITY,
      sv_sink = ChannelSink_new (nt_bcast net) OUTBOUND_BROADCAST_CAPACITY, sv_pending = [],
      sv_conns = Map.empty, sv_log = [], sv_done = [], sv_published = []\<rparr>"

definition accept_conn ::
  "('q, 'b, 'r) net_api \<Rightarrow> nat \<Rightarrow> ('l, 'q, 'b, 'r) server \<Rightarrow> ('l, 'q, 'b, 'r) server" where
  "accept_conn net c s =
     s\<lparr>sv_conns := (sv_conns s)(c \<mapsto>
        \<lparr>se_conn = Open [], se_rx = ChannelSink_subscribe (nt_bcast net) (sv_sink s), se_out = [],
         se_writing = True, se_in = [], se_from = length (sv_published s)\<rparr>)\<rparr>"

text \<open>The channel with the history of who sent what.\<close>

definition tagged ::
  "nat \<Rightarrow> ('q \<Rightarrow> inbound \<Rightarrow> 'q option) \<Rightarrow> 'q \<times> (nat \<times> inbound) list \<Rightarrow> inbound \<Rightarrow>
   ('q \<times> (nat \<times> inbound) list) option" where
  "tagged c try_send ql m = map_option (\<lambda>q'. (q', snd ql @ [(c, m)])) (try_send (fst ql) m)"

definition read_bytes :: "read_event \<Rightarrow> u8 list" where
  "read_bytes ev = (case ev of Rd bs \<Rightarrow> bs | RdErr \<Rightarrow> [])"

text \<open>Every exit of the read loop aborts the writer.\<close>

definition on_read ::
  "('q, 'b, 'r) net_api \<Rightarrow> nat \<Rightarrow> read_event \<Rightarrow> ('l, 'q, 'b, 'r) server \<Rightarrow> ('l, 'q, 'b, 'r) server" where
  "on_read net c ev s =
     (case sv_conns s c of
        None \<Rightarrow> s
      | Some ss \<Rightarrow>
          (case se_conn ss of
             Closed _ \<Rightarrow> s
           | Open buf \<Rightarrow>
               (case handle_reads (tagged c (nt_try_send net)) [ev] buf (sv_ring s, sv_log s) of
                  (cn, q, log) \<Rightarrow>
                    s\<lparr>sv_ring := q, sv_log := log, sv_conns := (sv_conns s)(c \<mapsto>
                       ss\<lparr>se_conn := cn,
                          se_writing := (se_writing ss \<and> (case cn of Open _ \<Rightarrow> True | Closed _ \<Rightarrow> False)),
                          se_in := se_in ss @ read_bytes ev\<rparr>)\<rparr>)))"

definition forward ::
  "('q, 'b, 'r) net_api \<Rightarrow> ('l, 'q, 'b, 'r) server \<Rightarrow> ('l, 'q, 'b, 'r) server" where
  "forward net s =
     (case nt_recv net (sv_ring s) of
        None \<Rightarrow> s
      | Some (m, q) \<Rightarrow> s\<lparr>sv_ring := q, sv_bridge := sv_bridge s @ [m]\<rparr>)"

text \<open>\<open>None\<close> is a panic of the engine thread. A command is taken once the events of the last one are
  out.\<close>

definition engine_turn ::
  "'l pl_api \<Rightarrow> ('l, 'q, 'b, 'r) server \<Rightarrow> ('l, 'q, 'b, 'r) server option" where
  "engine_turn api s =
     (case sv_bridge s of
        [] \<Rightarrow> Some s
      | m # rest \<Rightarrow>
          if sv_pending s \<noteq> [] then Some s
          else (case engine_iter api m (sv_thread s) of
              None \<Rightarrow> None
            | Some th \<Rightarrow>
                Some (s\<lparr>sv_thread := th, sv_bridge := rest,
                  sv_pending := drop (length (sv_published s)) (events (eng_sink (th_engine th))),
                  sv_done := sv_done s @ [m]\<rparr>)))"

definition publish_turn ::
  "('q, 'b, 'r) net_api \<Rightarrow> ('l, 'q, 'b, 'r) server \<Rightarrow> ('l, 'q, 'b, 'r) server option" where
  "publish_turn net s =
     (case sv_pending s of
        [] \<Rightarrow> Some s
      | ev # evs \<Rightarrow>
          (case ChannelSink_emit (nt_bcast net) ev (sv_sink s) of
             None \<Rightarrow> None
           | Some sink \<Rightarrow>
               Some (s\<lparr>sv_sink := sink, sv_pending := evs, sv_published := sv_published s @ [ev]\<rparr>)))"

definition on_write ::
  "('q, 'b, 'r) net_api \<Rightarrow> nat \<Rightarrow> write_result \<Rightarrow> ('l, 'q, 'b, 'r) server \<Rightarrow> ('l, 'q, 'b, 'r) server" where
  "on_write net c w s =
     (case sv_conns s c of
        None \<Rightarrow> s
      | Some ss \<Rightarrow>
          if se_writing ss then
            (case writer_task (nt_bcast net) [(cs_tx (sv_sink s), w)] (se_rx ss) (se_out ss) of
               (running, rx, out) \<Rightarrow>
                 s\<lparr>sv_conns := (sv_conns s)(c \<mapsto> ss\<lparr>se_rx := rx, se_out := out, se_writing := running\<rparr>)\<rparr>)
          else s)"

datatype turn = Accept nat | Read nat read_event | Forward | Engine_Turn | Publish_Turn | Write nat write_result

fun server_turn ::
  "'l pl_api \<Rightarrow> ('q, 'b, 'r) net_api \<Rightarrow> turn \<Rightarrow> ('l, 'q, 'b, 'r) server \<Rightarrow> ('l, 'q, 'b, 'r) server option" where
  "server_turn api net (Accept c) s = Some (if sv_conns s c = None then accept_conn net c s else s)"
| "server_turn api net (Read c ev) s = Some (on_read net c ev s)"
| "server_turn api net Forward s = Some (forward net s)"
| "server_turn api net Engine_Turn s = engine_turn api s"
| "server_turn api net Publish_Turn s = publish_turn net s"
| "server_turn api net (Write c w) s = Some (on_write net c w s)"

fun server_turns ::
  "'l pl_api \<Rightarrow> ('q, 'b, 'r) net_api \<Rightarrow> turn list \<Rightarrow> ('l, 'q, 'b, 'r) server \<Rightarrow> ('l, 'q, 'b, 'r) server option" where
  "server_turns api net [] s = Some s"
| "server_turns api net (t # ts) s = Option.bind (server_turn api net t s) (server_turns api net ts)"

text \<open>The states of a running server, under any schedule, any clients and any wall clock.\<close>

inductive serving :: "'l pl_api \<Rightarrow> ('q, 'b, 'r) net_api \<Rightarrow> ('l, 'q, 'b, 'r) server \<Rightarrow> bool"
  for api :: "'l pl_api" and net :: "('q, 'b, 'r) net_api" where
  boot: "serving api net (server_new net (WallClock readings))"
| turn: "serving api net s \<Longrightarrow> server_turn api net t s = Some s' \<Longrightarrow> serving api net s'"

lemma server_turns_serving:
  "server_turns api net ts s = Some s' \<Longrightarrow> serving api net s \<Longrightarrow> serving api net s'"
  by (induction ts arbitrary: s) (auto simp: Option.bind_eq_Some_conv intro: serving.turn)

end
