(* ===== verification/Server_Inv.thy ===== *)
theory Server_Inv
  imports Server
begin

text \<open>
  What holds in every state of a running server, whatever the schedule and the clients: no command is
  lost, invented or reordered between a socket and the engine, the engine is in a state of its own
  transition system, and each socket carries the published stream from the subscription on.
\<close>

section \<open>What the server relies on of tokio\<close>

locale network = ring "nt_try_send net" contents cap + broadcast "nt_bcast net" sent pos
  for net :: "('q, 'b, 'r) net_api" and contents :: "'q \<Rightarrow> inbound list" and cap :: "'q \<Rightarrow> nat"
    and sent :: "'b \<Rightarrow> u8 list list" and pos :: "'r \<Rightarrow> nat" +
  assumes channel_new: "contents (nt_channel net n) = [] \<and> cap (nt_channel net n) = n"
    and recv_None: "nt_recv net q = None \<longleftrightarrow> contents q = []"
    and recv_Some: "nt_recv net q = Some (m, q') \<Longrightarrow> contents q = m # contents q' \<and> cap q' = cap q"

definition list_net :: "(nat \<times> inbound list, list_channel, nat) net_api" where
  "list_net =
     \<lparr>nt_channel = (\<lambda>n. (n, [])), nt_try_send = list_ring,
      nt_recv = (\<lambda>q. case snd q of [] \<Rightarrow> None | m # ms \<Rightarrow> Some (m, (fst q, ms))), nt_bcast = list_broadcast\<rparr>"

interpretation ln: network list_net snd fst lc_sent "\<lambda>r. r"
  by unfold_locales
    (auto simp: list_net_def list_ring_def list_broadcast_def Let_def split: if_splits list.splits)

section \<open>From the sockets to the engine\<close>

definition sent_by :: "nat \<Rightarrow> (nat \<times> inbound) list \<Rightarrow> inbound list" where
  "sent_by c log = map snd (filter (\<lambda>x. fst x = c) log)"

text \<open>The commands a session handed over are the first ones in the bytes it read, all of them while
  the session is open.\<close>

definition session_reads :: "(nat \<times> inbound) list \<Rightarrow> nat \<Rightarrow> 'r session \<Rightarrow> bool" where
  "session_reads log c ss \<longleftrightarrow>
     (\<exists>outs rest. reads gateway_scan (se_in ss) (map Inr (sent_by c log) @ outs) rest \<and>
        (\<forall>buf. se_conn ss = Open buf \<longrightarrow> outs = [] \<and> rest = buf))"

definition inbound_inv :: "('q \<Rightarrow> inbound list) \<Rightarrow> ('q \<Rightarrow> nat) \<Rightarrow> ('l, 'q, 'b, 'r) server \<Rightarrow> bool" where
  "inbound_inv contents cap s \<longleftrightarrow>
     map snd (sv_log s) = sv_done s @ sv_bridge s @ contents (sv_ring s) \<and>
     cap (sv_ring s) = INBOUND_CHANNEL_CAPACITY \<and> length (contents (sv_ring s)) \<le> INBOUND_CHANNEL_CAPACITY \<and>
     (\<forall>x \<in> set (sv_log s). inbound_ok (snd x) \<and> sv_conns s (fst x) \<noteq> None) \<and>
     (\<forall>c ss. sv_conns s c = Some ss \<longrightarrow> session_reads (sv_log s) c ss)"

lemma sent_by_append [simp]: "sent_by c (log @ log') = sent_by c log @ sent_by c log'"
  by (simp add: sent_by_def)

lemma sent_by_Pair [simp]: "sent_by c (map (Pair c') ms) = (if c = c' then ms else [])"
  by (auto simp: sent_by_def comp_def filter_map)

lemma session_reads_other: "c \<noteq> c' \<Longrightarrow> session_reads (log @ map (Pair c') ms) c ss \<longleftrightarrow> session_reads log c ss"
  by (simp add: session_reads_def)

lemma gateway_scan_None: "gateway_scan buf = None \<longleftrightarrow> try_decode buf = NeedMore"
  by (auto simp: gateway_scan_def split: decode_step.splits)

lemma gateway_scan_Nil [simp]: "gateway_scan [] = None"
  by (simp add: gateway_scan_None try_decode_def frame_consts)

lemma drain_stop: "gateway_scan buf = None \<Longrightarrow> drain ts buf q = (Open buf, q)"
  using drain_deliver [OF reads_stop, of buf ts q] by simp

lemma tagged_eq: "tagged c ts (q, log) m = map_option (\<lambda>q'. (q', log @ [(c, m)])) (ts q m)"
  by (simp add: tagged_def)

context ring
begin

lemma deliver_tagged:
  assumes "deliver (tagged c try_send) outs (q, log) = (r, q', log')" "length (contents q) \<le> cap q"
  shows "\<exists>ms outs'. outs = map Inr ms @ outs' \<and> contents q' = contents q @ ms \<and> log' = log @ map (Pair c) ms \<and>
    cap q' = cap q \<and> length (contents q') \<le> cap q \<and> (r = None \<longrightarrow> outs' = [])"
  using assms
proof (induction outs arbitrary: q log)
  case (Cons out outs)
  show ?case
  proof (cases out)
    case (Inl cl)
    then show ?thesis using Cons.prems by (intro exI [of _ "[]"] exI [of _ "out # outs"]) auto
  next
    case (Inr m)
    show ?thesis
    proof (cases "try_send q m")
      case None
      then show ?thesis
        using Cons.prems Inr by (intro exI [of _ "[]"] exI [of _ "out # outs"]) (auto simp: tagged_eq)
    next
      case (Some q1)
      then have q1: "contents q1 = contents q @ [m]" "cap q1 = cap q" "length (contents q) < cap q"
        using try_send_Some [OF Some] try_send_None [of q m] by auto
      have "deliver (tagged c try_send) outs (q1, log @ [(c, m)]) = (r, q', log')"
        using Cons.prems(1) Inr Some by (simp add: tagged_eq)
      then obtain ms outs' where "outs = map Inr ms @ outs'" "contents q' = contents q1 @ ms"
          "log' = (log @ [(c, m)]) @ map (Pair c) ms" "cap q' = cap q1" "length (contents q') \<le> cap q1"
          "r = None \<longrightarrow> outs' = []"
        using Cons.IH [of q1 "log @ [(c, m)]"] q1 by auto
      then show ?thesis using Inr q1 by (intro exI [of _ "m # ms"] exI [of _ outs']) simp
    qed
  qed
qed simp

text \<open>One round of a reader.\<close>

lemma handle_read_tagged:
  assumes "handle_reads (tagged c try_send) [ev] buf (q, log) = (cn, q', log')" "gateway_scan buf = None"
    and "length (contents q) \<le> cap q"
  shows "\<exists>ms outs rest. reads gateway_scan (buf @ read_bytes ev) (map Inr ms @ outs) rest \<and>
    contents q' = contents q @ ms \<and> log' = log @ map (Pair c) ms \<and> cap q' = cap q \<and>
    length (contents q') \<le> cap q \<and> (\<forall>b. cn = Open b \<longrightarrow> outs = [] \<and> rest = b)"
proof -
  have first: "drain (tagged c try_send) buf (q, log) = (Open buf, q, log)" by (rule drain_stop [OF assms(2)])
  consider (data) bs where "ev = Rd bs" "bs \<noteq> []" | (closing) "ev = Rd [] \<or> ev = RdErr" by (cases ev) auto
  then show ?thesis
  proof cases
    case data
    obtain outs rest where r: "reads gateway_scan (buf @ bs) outs rest" using gw.reads_total by blast
    have "drain (tagged c try_send) (buf @ bs) (q, log) = (cn, q', log')"
      using assms(1) first data
      by (simp add: handle_reads.simps [of _ _ buf] handle_reads.simps [of _ "[]"] split: prod.splits conn.splits)
    then obtain r' where d: "deliver (tagged c try_send) outs (q, log) = (r', q', log')"
        "cn = (case r' of None \<Rightarrow> Open rest | Some cl \<Rightarrow> Closed cl)"
      using drain_deliver [OF r, of "tagged c try_send" "(q, log)"]
      by (auto split: prod.splits option.splits)
    obtain ms outs' where "outs = map Inr ms @ outs'" "contents q' = contents q @ ms" "log' = log @ map (Pair c) ms"
        "cap q' = cap q" "length (contents q') \<le> cap q" "r' = None \<longrightarrow> outs' = []"
      using deliver_tagged [OF d(1) assms(3)] by blast
    then show ?thesis
      using r d(2) data by (intro exI [of _ ms] exI [of _ outs'] exI [of _ rest]) (auto simp: read_bytes_def split: option.splits)
  next
    case closing
    then have "cn \<noteq> Open b" "q' = q" "log' = log" for b
      using assms(1) first by (auto simp: handle_reads.simps [of _ _ buf])
    moreover have "read_bytes ev = []" using closing by (auto simp: read_bytes_def)
    ultimately show ?thesis
      using reads_stop [of gateway_scan, OF assms(2)] assms(3)
      by (intro exI [of _ "[]"] exI [of _ "[]"] exI [of _ buf]) auto
  qed
qed

end

lemma inbound_inv_cong:
  assumes "inbound_inv contents cap s" "sv_log s' = sv_log s" "sv_ring s' = sv_ring s"
    and "sv_done s' @ sv_bridge s' = sv_done s @ sv_bridge s"
    and "\<And>c. (sv_conns s' c = None) = (sv_conns s c = None)"
    and "\<And>c ss'. sv_conns s' c = Some ss' \<Longrightarrow> \<exists>ss. sv_conns s c = Some ss \<and> se_in ss' = se_in ss \<and> se_conn ss' = se_conn ss"
  shows "inbound_inv contents cap s'"
proof -
  have "session_reads (sv_log s') c ss'" if ss': "sv_conns s' c = Some ss'" for c ss'
  proof -
    obtain ss where ss: "sv_conns s c = Some ss" "se_in ss' = se_in ss" "se_conn ss' = se_conn ss"
      using assms(6) [OF ss'] by blast
    then have "session_reads (sv_log s) c ss" using assms(1) by (auto simp: inbound_inv_def)
    then show ?thesis using ss by (simp add: session_reads_def assms(2))
  qed
  moreover have "sv_done s' @ sv_bridge s' @ x = sv_done s @ sv_bridge s @ x" for x
    using assms(4) by (metis append.assoc)
  ultimately show ?thesis using assms(1-3,5) by (simp add: inbound_inv_def)
qed

context network
begin

lemma inbound_new: "inbound_inv contents cap (server_new net c)"
  by (simp add: inbound_inv_def server_new_def channel_new)

lemma inbound_accept:
  assumes "inbound_inv contents cap s" "sv_conns s c = None"
  shows "inbound_inv contents cap (accept_conn net c s)"
proof -
  have "sent_by c (sv_log s) = []"
    using assms by (auto simp: inbound_inv_def sent_by_def filter_empty_conv)
  then have "session_reads (sv_log s) c \<lparr>se_conn = Open [], se_rx = rx, se_out = [], se_writing = True, se_in = [], se_from = k\<rparr>" for rx k
    using reads_stop [of gateway_scan "[]"] by (auto simp: session_reads_def intro!: exI [of _ "[]"])
  then show ?thesis
    using assms(1) by (auto simp: inbound_inv_def accept_conn_def)
qed

lemma inbound_read:
  assumes inv: "inbound_inv contents cap s"
  shows "inbound_inv contents cap (on_read net c ev s)"
proof (cases "\<exists>ss buf. sv_conns s c = Some ss \<and> se_conn ss = Open buf")
  case False
  then show ?thesis using inv by (auto simp: on_read_def split: option.split conn.split)
next
  case True
  then obtain ss buf where ss: "sv_conns s c = Some ss" "se_conn ss = Open buf" by blast
  have before: "reads gateway_scan (se_in ss) (map Inr (sent_by c (sv_log s))) buf"
    using inv ss by (fastforce simp: inbound_inv_def session_reads_def)
  obtain cn q log where h: "handle_reads (tagged c (nt_try_send net)) [ev] buf (sv_ring s, sv_log s) = (cn, q, log)"
    by (metis prod_cases3)
  obtain ms outs rest where r: "reads gateway_scan (buf @ read_bytes ev) (map Inr ms @ outs) rest"
      "contents q = contents (sv_ring s) @ ms" "log = sv_log s @ map (Pair c) ms" "cap q = cap (sv_ring s)"
      "length (contents q) \<le> cap (sv_ring s)" "\<forall>b. cn = Open b \<longrightarrow> outs = [] \<and> rest = b"
    using handle_read_tagged [OF h reads_rest [OF before]] inv by (auto simp: inbound_inv_def)
  let ?ss = "ss\<lparr>se_conn := cn, se_writing := (se_writing ss \<and> (case cn of Open _ \<Rightarrow> True | Closed _ \<Rightarrow> False)),
    se_in := se_in ss @ read_bytes ev\<rparr>"
  have s': "on_read net c ev s = s\<lparr>sv_ring := q, sv_log := log, sv_conns := (sv_conns s)(c \<mapsto> ?ss)\<rparr>"
    by (simp add: on_read_def ss h)
  have "list_all inbound_ok ms" using reads_sound [OF r(1)] by blast
  moreover have "session_reads log c ?ss"
    using gw.reads_append [OF before r(1)] r(3,6)
    by (auto simp: session_reads_def intro!: exI [of _ outs] exI [of _ rest])
  moreover have "session_reads log c' ss'" if "sv_conns s c' = Some ss'" "c' \<noteq> c" for c' ss'
    using that inv by (auto simp: inbound_inv_def r(3) session_reads_other)
  ultimately show ?thesis
    using inv ss r(2-5) by (auto simp: inbound_inv_def s' list_all_iff comp_def)
qed

lemma inbound_forward: "inbound_inv contents cap s \<Longrightarrow> inbound_inv contents cap (forward net s)"
  by (cases "nt_recv net (sv_ring s)") (auto simp: forward_def inbound_inv_def dest: recv_Some bspec)

lemma inbound_engine:
  assumes "inbound_inv contents cap s" "engine_turn api s = Some s'"
  shows "inbound_inv contents cap s'"
  by (rule inbound_inv_cong [OF assms(1)])
    (use assms(2) in \<open>auto simp: engine_turn_def split: list.splits if_splits option.splits\<close>)

lemma inbound_publish:
  assumes "inbound_inv contents cap s" "publish_turn net s = Some s'"
  shows "inbound_inv contents cap s'"
  by (rule inbound_inv_cong [OF assms(1)])
    (use assms(2) in \<open>auto simp: publish_turn_def split: list.splits option.splits\<close>)

lemma inbound_write:
  assumes "inbound_inv contents cap s"
  shows "inbound_inv contents cap (on_write net c w s)"
  by (rule inbound_inv_cong [OF assms])
    (auto simp: on_write_def simp del: writer_task.simps split: option.splits prod.splits if_splits)

lemma serving_inbound: "serving api net s \<Longrightarrow> inbound_inv contents cap s"
proof (induction rule: serving.induct)
  case (boot readings)
  show ?case by (rule inbound_new)
next
  case (turn s t s')
  then show ?case
    by (cases t) (auto intro: inbound_accept inbound_read inbound_forward inbound_engine inbound_publish inbound_write)
qed

end

section \<open>The engine thread\<close>

lemma engine_iter_step:
  "engine_iter api m th = Some th' \<Longrightarrow> step api m (th_engine th) = Some (th_engine th')"
  by (auto simp: engine_iter_def Let_def split: option.splits if_splits)

lemma engine_loop_runs:
  "engine_loop api ms th = Some th' \<Longrightarrow> run_steps api ms (th_engine th) = Some (th_engine th')"
  by (induction ms arbitrary: th) (auto simp: Option.bind_eq_Some_conv dest: engine_iter_step)

text \<open>The thread reports its progress at every ten thousandth command.\<close>

definition progress_lines :: "nat \<Rightarrow> u64 list" where
  "progress_lines n = map (\<lambda>k. of_nat (10000 * Suc k)) [0 ..< n div 10000]"

definition counted :: "nat \<Rightarrow> 'l engine_thread \<Rightarrow> bool" where
  "counted n th \<longleftrightarrow> th_count th = of_nat n \<and> th_last_log th = of_nat (10000 * (n div 10000)) \<and> th_log th = progress_lines n"

lemma engine_iter_counts:
  assumes "engine_iter api m th = Some th'" "counted n th" "Suc n < 2 ^ 64"
  shows "counted (Suc n) th'"
proof -
  have u: "unat (of_nat n + 1 :: u64) = Suc n" using assms(3) by (simp add: unat_of_nat unat_word_ariths)
  have div: "Suc n div 10000 = (if Suc n mod 10000 = 0 then Suc (n div 10000) else n div 10000)" by (rule div_Suc)
  have "((of_nat n + 1 :: u64) mod 10000 = 0) = (Suc n mod 10000 = 0)"
    using u by (simp add: word_unat_eq_iff unat_mod_distrib)
  moreover have "(of_nat n + 1 :: u64) \<noteq> of_nat (10000 * (n div 10000))"
  proof
    assume "(of_nat n + 1 :: u64) = of_nat (10000 * (n div 10000))"
    then have "unat (of_nat n + 1 :: u64) = unat (of_nat (10000 * (n div 10000)) :: u64)" by simp
    moreover have "10000 * (n div 10000) \<le> n" by (rule times_div_less_eq_dividend)
    moreover have "unat (of_nat (10000 * (n div 10000)) :: u64) \<le> 10000 * (n div 10000)"
      unfolding unat_of_nat by (rule mod_less_eq_dividend)
    ultimately show False using u by simp
  qed
  moreover have "(of_nat n :: u64) = 9999 + 10000 * of_nat (n div 10000)" if "Suc n mod 10000 = 0"
  proof -
    have "n = 9999 + 10000 * (n div 10000)" using that div div_mult_mod_eq [of "Suc n" 10000] by simp
    from arg_cong [OF this, of "of_nat :: nat \<Rightarrow> u64"] show ?thesis by simp
  qed
  ultimately show ?thesis
    using assms(1,2) div
    by (auto simp: counted_def engine_iter_def progress_lines_def Let_def split: option.splits if_splits)
qed

lemma engine_loop_counts:
  "engine_loop api ms th = Some th' \<Longrightarrow> counted n th \<Longrightarrow> n + length ms < 2 ^ 64 \<Longrightarrow> counted (n + length ms) th'"
proof (induction ms arbitrary: th n)
  case (Cons m ms)
  then obtain th1 where "engine_iter api m th = Some th1" "engine_loop api ms th1 = Some th'"
    by (auto simp: Option.bind_eq_Some_conv)
  then show ?case using Cons.IH [of th1 "Suc n"] engine_iter_counts [of api m th th1 n] Cons.prems by simp
qed simp

definition engine_inv_of :: "'l pl_api \<Rightarrow> ('l, 'q, 'b, 'r) server \<Rightarrow> bool" where
  "engine_inv_of api s \<longleftrightarrow>
     (\<exists>c. run_steps api (sv_done s) (Engine_new c CounterIdGenerator_new VecSink_new) = Some (th_engine (sv_thread s))) \<and>
     stream (th_engine (sv_thread s)) = sv_published s @ sv_pending s"

lemma engine_inv_of_turn:
  assumes "engine_inv_of api s" "engine_turn api s = Some s'"
  shows "engine_inv_of api s'"
proof (cases "sv_bridge s = [] \<or> sv_pending s \<noteq> []")
  case True
  then show ?thesis using assms by (auto simp: engine_turn_def split: list.splits)
next
  case False
  then obtain m rest where br: "sv_bridge s = m # rest" "sv_pending s = []" by (cases "sv_bridge s") auto
  then obtain th where th: "engine_iter api m (sv_thread s) = Some th"
    and s': "s' = s\<lparr>sv_thread := th, sv_bridge := rest,
      sv_pending := drop (length (sv_published s)) (events (eng_sink (th_engine th))), sv_done := sv_done s @ [m]\<rparr>"
    using assms(2) by (auto simp: engine_turn_def split: option.splits)
  note step = engine_iter_step [OF th]
  obtain out where "stream (th_engine th) = stream (th_engine (sv_thread s)) @ out"
    using step_emits [OF step] by (auto simp: emits_def)
  moreover obtain c where c: "run_steps api (sv_done s) (Engine_new c CounterIdGenerator_new VecSink_new) = Some (th_engine (sv_thread s))"
    using assms(1) by (auto simp: engine_inv_of_def)
  then have "run_steps api (sv_done s @ [m]) (Engine_new c CounterIdGenerator_new VecSink_new) = Some (th_engine th)"
    using step by (simp add: run_steps_append)
  ultimately show ?thesis
    using assms(1) br by (auto simp: engine_inv_of_def s' stream_def)
qed

lemma serving_engine: "serving api net s \<Longrightarrow> engine_inv_of api s"
proof (induction rule: serving.induct)
  case (boot readings)
  show ?case
    by (auto simp: engine_inv_of_def server_new_def engine_thread_new_def Engine_new_def VecSink_new_def stream_def)
next
  case (turn s t s')
  show ?case
  proof (cases t)
    case Engine_Turn
    then show ?thesis using turn engine_inv_of_turn by auto
  next
    case Publish_Turn
    then show ?thesis
      using turn by (auto simp: publish_turn_def engine_inv_of_def split: list.splits option.splits)
  qed (use turn in \<open>auto simp: accept_conn_def on_read_def forward_def on_write_def engine_inv_of_def
      simp del: writer_task.simps split: if_splits option.splits conn.splits prod.splits\<close>)
qed

context network
begin

lemma serving_reachable:
  assumes "serving api net s"
  shows "reachable api CounterIdGenerator_new (length (sv_done s)) (th_engine (sv_thread s))"
proof -
  obtain c where run: "run_steps api (sv_done s) (Engine_new c CounterIdGenerator_new VecSink_new) = Some (th_engine (sv_thread s))"
    using serving_engine [OF assms] by (auto simp: engine_inv_of_def)
  have inv: "map snd (sv_log s) = sv_done s @ sv_bridge s @ contents (sv_ring s)" "\<forall>x \<in> set (sv_log s). inbound_ok (snd x)"
    using serving_inbound [OF assms] by (auto simp: inbound_inv_def)
  have "list_all inbound_ok (map snd (sv_log s))" using inv(2) by (simp add: list_all_iff)
  then have "list_all inbound_ok (sv_done s)" unfolding inv(1) by simp
  then show ?thesis using run_steps_reachable [OF run reachable.start] by simp
qed

end

section \<open>From the engine to the sockets\<close>

text \<open>A session's socket carries a prefix of the frames published since it subscribed; while its
  writer runs, whole frames up to the position of its receiver.\<close>

definition session_writes :: "('r \<Rightarrow> nat) \<Rightarrow> u8 list list \<Rightarrow> 'r session \<Rightarrow> bool" where
  "session_writes pos frames ss \<longleftrightarrow>
     se_from ss \<le> length frames \<and> prefix (se_out ss) (concat (drop (se_from ss) frames)) \<and>
     (se_writing ss \<longrightarrow> se_from ss \<le> pos (se_rx ss) \<and> pos (se_rx ss) \<le> length frames \<and>
        se_out ss = concat (take (pos (se_rx ss) - se_from ss) (drop (se_from ss) frames)))"

definition outbound_inv :: "('b \<Rightarrow> u8 list list) \<Rightarrow> ('r \<Rightarrow> nat) \<Rightarrow> ('l, 'q, 'b, 'r) server \<Rightarrow> bool" where
  "outbound_inv sent pos s \<longleftrightarrow>
     sent (cs_tx (sv_sink s)) = map event_bytes (sv_published s) \<and>
     (\<forall>c ss. sv_conns s c = Some ss \<longrightarrow> session_writes pos (map event_bytes (sv_published s)) ss)"

lemma session_writes_more: "session_writes pos frames ss \<Longrightarrow> session_writes pos (frames @ more_frames) ss"
  by (auto simp: session_writes_def)

lemma outbound_inv_cong:
  assumes "outbound_inv sent pos s" "sv_sink s' = sv_sink s" "sv_published s' = sv_published s"
    and "\<And>c ss'. sv_conns s' c = Some ss' \<Longrightarrow> \<exists>ss. sv_conns s c = Some ss \<and> se_from ss' = se_from ss \<and>
      se_out ss' = se_out ss \<and> se_rx ss' = se_rx ss \<and> (se_writing ss' \<longrightarrow> se_writing ss)"
  shows "outbound_inv sent pos s'"
proof -
  have "session_writes pos (map event_bytes (sv_published s)) ss'" if "sv_conns s' c = Some ss'" for c ss'
  proof -
    obtain ss where ss: "sv_conns s c = Some ss" "se_from ss' = se_from ss" "se_out ss' = se_out ss"
        "se_rx ss' = se_rx ss" "se_writing ss' \<longrightarrow> se_writing ss"
      using assms(4) [OF \<open>sv_conns s' c = Some ss'\<close>] by blast
    then have "session_writes pos (map event_bytes (sv_published s)) ss" using assms(1) by (auto simp: outbound_inv_def)
    then show ?thesis using ss by (auto simp: session_writes_def)
  qed
  then show ?thesis using assms(1-3) by (simp add: outbound_inv_def)
qed

context network
begin

lemma session_write_one:
  assumes inv: "session_writes pos (sent b) ss" and "se_writing ss"
    and run: "writer_task (nt_bcast net) [(b, w)] (se_rx ss) (se_out ss) = (running, rx, out)"
  shows "session_writes pos (sent b) (ss\<lparr>se_rx := rx, se_out := out, se_writing := running\<rparr>)"
proof -
  let ?f = "se_from ss" and ?p = "pos (se_rx ss)"
  have w: "?f \<le> ?p" "?p \<le> length (sent b)" "se_out ss = concat (take (?p - ?f) (drop ?f (sent b)))"
    using inv assms(2) by (auto simp: session_writes_def)
  obtain res r' where recv: "bc_recv (nt_bcast net) b (se_rx ss) = (res, r')" by fastforce
  show ?thesis
  proof (cases res)
    case (Frame_Ready frame)
    then have f: "?p < length (sent b)" "frame = sent b ! ?p" "pos r' = Suc ?p" using recv_ready recv by auto
    have "take (Suc ?p - ?f) (drop ?f (sent b)) = take (?p - ?f) (drop ?f (sent b)) @ [frame]"
      using w(1) f(1,2) by (simp add: Suc_diff_le take_Suc_conv_app_nth)
    then have full: "concat (take (Suc ?p - ?f) (drop ?f (sent b))) = se_out ss @ frame" using w(3) by simp
    have pre: "prefix (se_out ss @ frame) (concat (drop ?f (sent b)))"
      unfolding full [symmetric] by (metis append_take_drop_id concat_append prefixI)
    show ?thesis
    proof (cases w)
      case Written
      then show ?thesis
        using run recv Frame_Ready w f full pre by (auto simp: session_writes_def)
    next
      case (Write_Failed k)
      have "prefix (se_out ss @ take k frame) (se_out ss @ frame)" by (simp add: take_is_prefix)
      then have "prefix (se_out ss @ take k frame) (concat (drop ?f (sent b)))" using pre by (rule prefix_order.trans)
      then show ?thesis using run recv Frame_Ready Write_Failed w by (auto simp: session_writes_def)
    qed
  next
    case Pending
    then show ?thesis using run recv inv assms(2) recv_pending [of b "se_rx ss" r'] by (auto simp: session_writes_def)
  qed (use run recv inv in \<open>auto simp: session_writes_def\<close>)
qed

lemma outbound_write:
  assumes "outbound_inv sent pos s"
  shows "outbound_inv sent pos (on_write net c w s)"
proof (cases "\<exists>ss. sv_conns s c = Some ss \<and> se_writing ss")
  case False
  then show ?thesis using assms by (auto simp: on_write_def split: option.split)
next
  case True
  then obtain ss where ss: "sv_conns s c = Some ss" "se_writing ss" by blast
  obtain running rx out where run: "writer_task (nt_bcast net) [(cs_tx (sv_sink s), w)] (se_rx ss) (se_out ss) = (running, rx, out)"
    by (metis prod_cases3)
  have "session_writes pos (sent (cs_tx (sv_sink s))) ss" using assms ss by (auto simp: outbound_inv_def)
  from session_write_one [OF this ss(2) run] show ?thesis
    using assms ss run by (auto simp: outbound_inv_def on_write_def simp del: writer_task.simps)
qed

lemma outbound_publish:
  assumes inv: "outbound_inv sent pos s" and ok: "list_all sendable (sv_pending s)" and run: "publish_turn net s = Some s'"
  shows "outbound_inv sent pos s'"
proof (cases "sv_pending s")
  case Nil
  then show ?thesis using inv run by (simp add: publish_turn_def)
next
  case (Cons ev evs)
  then have "md_encode ev [] = Some (Inr (event_bytes ev))" using ok sendable_bytes by simp
  then have "s' = s\<lparr>sv_sink := (sv_sink s)\<lparr>cs_tx := bc_send (nt_bcast net) (cs_tx (sv_sink s)) (event_bytes ev)\<rparr>,
      sv_pending := evs, sv_published := sv_published s @ [ev]\<rparr>"
    using run Cons by (simp add: publish_turn_def ChannelSink_emit_def)
  then show ?thesis using inv by (auto simp: outbound_inv_def send_sent session_writes_more)
qed

lemma outbound_accept:
  "outbound_inv sent pos s \<Longrightarrow> outbound_inv sent pos (accept_conn net c s)"
  by (auto simp: outbound_inv_def accept_conn_def session_writes_def ChannelSink_subscribe_def subscribe_pos)

lemma outbound_read:
  assumes "outbound_inv sent pos s"
  shows "outbound_inv sent pos (on_read net c ev s)"
  by (rule outbound_inv_cong [OF assms])
    (auto simp: on_read_def split: option.splits conn.splits prod.splits if_splits)

lemma outbound_engine:
  assumes "outbound_inv sent pos s" "engine_turn api s = Some s'"
  shows "outbound_inv sent pos s'"
  by (rule outbound_inv_cong [OF assms(1)])
    (use assms(2) in \<open>auto simp: engine_turn_def split: list.splits if_splits option.splits\<close>)

lemma outbound_forward:
  assumes "outbound_inv sent pos s"
  shows "outbound_inv sent pos (forward net s)"
  by (rule outbound_inv_cong [OF assms]) (auto simp: forward_def split: option.splits)

lemma done_grows: "server_turn api net t s = Some s' \<Longrightarrow> length (sv_done s) \<le> length (sv_done s')"
  by (cases t)
    (auto simp: accept_conn_def on_read_def forward_def engine_turn_def publish_turn_def on_write_def
      simp del: writer_task.simps split: if_splits option.splits conn.splits prod.splits list.splits)

end

locale live_server = network net contents cap sent pos + price_level_total api queue level_ok
  for net :: "('q, 'b, 'r) net_api" and contents cap sent pos
    and api :: "'l pl_api" and queue level_ok
begin

lemma serving_sendable:
  assumes "serving api net s" "length (sv_done s) < 2 ^ 27"
  shows "list_all sendable (sv_published s @ sv_pending s)"
proof -
  have "list_all sendable (stream (th_engine (sv_thread s)))"
    by (rule reachable_sendable [OF serving_reachable [OF assms(1)] assms(2)])
  then show ?thesis using serving_engine [OF assms(1)] by (simp add: engine_inv_of_def)
qed

lemma serving_outbound:
  "serving api net s \<Longrightarrow> length (sv_done s) < 2 ^ 27 \<Longrightarrow> outbound_inv sent pos s"
proof (induction rule: serving.induct)
  case (boot readings)
  show ?case by (simp add: outbound_inv_def server_new_def ChannelSink_new_def channel_sent)
next
  case (turn s t s')
  have small: "length (sv_done s) < 2 ^ 27" using done_grows [OF turn.hyps(2)] turn.prems by simp
  then have inv: "outbound_inv sent pos s" by (rule turn.IH)
  have ok: "list_all sendable (sv_pending s)" using serving_sendable [OF turn.hyps(1) small] by simp
  show ?case
    using turn.hyps(2) inv ok
    by (cases t) (auto intro: outbound_accept outbound_read outbound_forward outbound_engine outbound_publish outbound_write)
qed

text \<open>Neither the engine thread nor the encoder panics.\<close>

lemma serving_returns:
  assumes "serving api net s" "length (sv_done s) < 2 ^ 27"
  shows "\<exists>s'. server_turn api net t s = Some s'"
proof (cases t)
  case Engine_Turn
  let ?n = "length (sv_done s)" and ?e = "th_engine (sv_thread s)"
  have inv: "map snd (sv_log s) = sv_done s @ sv_bridge s @ contents (sv_ring s)" "\<forall>x \<in> set (sv_log s). inbound_ok (snd x)"
    using serving_inbound [OF assms(1)] by (auto simp: inbound_inv_def)
  obtain c where run: "run_steps api (sv_done s) (Engine_new c CounterIdGenerator_new VecSink_new) = Some ?e"
    using serving_engine [OF assms(1)] by (auto simp: engine_inv_of_def)
  have "\<exists>e'. step api m ?e = Some e'" if br: "sv_bridge s = m # rest" for m rest
  proof -
    let ?e0 = "Engine_new c CounterIdGenerator_new VecSink_new :: 'l engine"
    have "list_all inbound_ok (map snd (sv_log s))" using inv(2) by (simp add: list_all_iff)
    then have ok: "list_all inbound_ok (sv_done s @ [m])" unfolding inv(1) br by simp
    have "length (sv_done s @ [m]) \<le> 2 ^ 30" using assms(2) by simp
    from fresh_run_returns [OF ok this] have "\<exists>e'. run_steps api (sv_done s @ [m]) ?e0 = Some e'" by blast
    then show ?thesis using run by (auto simp: run_steps_append Option.bind_eq_Some_conv)
  qed
  then show ?thesis
    using Engine_Turn by (cases "sv_bridge s") (auto simp: engine_turn_def engine_iter_def Let_def split: option.split)
next
  case Publish_Turn
  have "ChannelSink_emit (nt_bcast net) ev (sv_sink s) \<noteq> None" if "sv_pending s = ev # evs" for ev evs
    using serving_sendable [OF assms] sendable_bytes [of ev] that by (simp add: ChannelSink_emit_def)
  then show ?thesis
    using Publish_Turn by (cases "sv_pending s") (auto simp: publish_turn_def)
qed simp_all

text \<open>Backlog never gets stuck: publishing, stepping and forwarding, in this order of preference,
  empties the pipeline. The turn that is taken next, and what it makes smaller.\<close>

lemma drain_turn:
  assumes "serving api net s" "length (sv_log s) < 2 ^ 27" "sv_pending s \<noteq> [] \<or> sv_bridge s \<noteq> [] \<or> contents (sv_ring s) \<noteq> []"
  shows "\<exists>t s'. server_turn api net t s = Some s' \<and> sv_log s' = sv_log s \<and> sv_conns s' = sv_conns s \<and>
    (s', s) \<in> measures [\<lambda>s. length (contents (sv_ring s)), \<lambda>s. length (sv_bridge s), \<lambda>s. length (sv_pending s)]"
proof -
  have log: "map snd (sv_log s) = sv_done s @ sv_bridge s @ contents (sv_ring s)"
    using serving_inbound [OF assms(1)] by (simp add: inbound_inv_def)
  have "length (sv_done s) \<le> length (sv_log s)" using arg_cong [OF log, of length] by simp
  then have ret: "\<exists>s'. server_turn api net t s = Some s'" for t
    using serving_returns [OF assms(1)] assms(2) by simp
  consider (publish) "sv_pending s \<noteq> []" | (engine) "sv_pending s = []" "sv_bridge s \<noteq> []"
    | (forward) "sv_pending s = []" "sv_bridge s = []" "contents (sv_ring s) \<noteq> []" using assms(3) by blast
  then show ?thesis
  proof cases
    case publish
    then show ?thesis using ret [of Publish_Turn]
      by (intro exI [of _ Publish_Turn]) (auto simp: publish_turn_def split: list.splits option.splits)
  next
    case engine
    then show ?thesis using ret [of Engine_Turn]
      by (intro exI [of _ Engine_Turn]) (auto simp: engine_turn_def split: list.splits option.splits)
  next
    case forward
    then obtain m q where r: "nt_recv net (sv_ring s) = Some (m, q)" using recv_None by fastforce
    then have "length (contents q) < length (contents (sv_ring s))" using recv_Some by simp
    then show ?thesis using r by (intro exI [of _ Forward]) (simp add: forward_def)
  qed
qed

lemma serving_drains:
  assumes "serving api net s" "length (sv_log s) < 2 ^ 27"
  shows "\<exists>ts s'. server_turns api net ts s = Some s' \<and> sv_log s' = sv_log s \<and> sv_conns s' = sv_conns s \<and>
    sv_done s' = map snd (sv_log s) \<and> sv_published s' = stream (th_engine (sv_thread s'))"
  using assms
proof (induction s rule: wf_induct_rule [OF wf_measures [of
      "[\<lambda>s. length (contents (sv_ring s)), \<lambda>s. length (sv_bridge s), \<lambda>s. length (sv_pending s)]"]])
  case (1 s)
  show ?case
  proof (cases "sv_pending s \<noteq> [] \<or> sv_bridge s \<noteq> [] \<or> contents (sv_ring s) \<noteq> []")
    case True
    then obtain t s1 where t: "server_turn api net t s = Some s1" "sv_log s1 = sv_log s" "sv_conns s1 = sv_conns s"
        "(s1, s) \<in> measures [\<lambda>s. length (contents (sv_ring s)), \<lambda>s. length (sv_bridge s), \<lambda>s. length (sv_pending s)]"
      using drain_turn [OF "1.prems"] by blast
    have "serving api net s1" by (rule serving.turn [OF "1.prems"(1) t(1)])
    then obtain ts s' where "server_turns api net ts s1 = Some s'" "sv_log s' = sv_log s1" "sv_conns s' = sv_conns s1"
        "sv_done s' = map snd (sv_log s1)" "sv_published s' = stream (th_engine (sv_thread s'))"
      using "1.IH" [OF t(4)] "1.prems"(2) t(2) by auto
    then show ?thesis using t(1-3) by (intro exI [of _ "t # ts"] exI [of _ s']) simp
  next
    case False
    then have "sv_done s = map snd (sv_log s)" "sv_published s = stream (th_engine (sv_thread s))"
      using serving_inbound [OF "1.prems"(1)] serving_engine [OF "1.prems"(1)]
      by (simp_all add: inbound_inv_def engine_inv_of_def)
    then show ?thesis by (intro exI [of _ "[]"] exI [of _ s]) simp
  qed
qed

end

end
