(* ===== verification/Commands.thy ===== *)
theory Commands
  imports Liveness
begin

text \<open>
  What each command does, read at the level of one \<^verbatim>\<open>step\<close>: the refusals, the cancel by the owner,
  the mass cancel, the kill switch and the snapshot, with the messages they publish.
\<close>

section \<open>Reports\<close>

lemma emit_rejected_emits:
  assumes "emit_rejected oid a reason recv e = Some e'"
  shows "\<exists>r. emits [Out_ExecReport r] e e' \<and> er_state r = Rejected \<and> er_reject_reason r = Some reason \<and>
    er_order_id r = oid \<and> er_account_id r = a"
proof -
  define mk where "mk s now = \<lparr>er_engine_seq = s, er_order_id = oid, er_account_id = a, er_state = Rejected,
    er_fill_price = None, er_fill_qty = None, er_leaves_qty = None, er_reject_reason = Some reason,
    er_cancel_reason = None, er_recv_ts = recv, er_emit_ts = now\<rparr>" for s now
  have "publish (\<lambda>s now. Out_ExecReport (mk s now)) e = Some e'"
    using assms by (simp add: emit_rejected_def mk_def)
  from publish_spec(1) [OF this] obtain s now where "emits [Out_ExecReport (mk s now)] e e'"
    by (auto simp: mk_def)
  then show ?thesis by (intro exI [of _ "mk s now"]) (simp add: mk_def)
qed

lemma emit_cancelled_emits:
  assumes "emit_exec_report_cancelled oid a cr recv e = Some e'"
  shows "\<exists>r. emits [Out_ExecReport r] e e' \<and> er_state r = Cancelled \<and> er_cancel_reason r = Some cr \<and>
    er_order_id r = oid \<and> er_account_id r = a"
proof -
  define mk where "mk s now = \<lparr>er_engine_seq = s, er_order_id = oid, er_account_id = a, er_state = Cancelled,
    er_fill_price = None, er_fill_qty = None, er_leaves_qty = None, er_reject_reason = None,
    er_cancel_reason = Some cr, er_recv_ts = recv, er_emit_ts = now\<rparr>" for s now
  have "publish (\<lambda>s now. Out_ExecReport (mk s now)) e = Some e'"
    using assms by (simp add: emit_exec_report_cancelled_def mk_def)
  from publish_spec(1) [OF this] obtain s now where "emits [Out_ExecReport (mk s now)] e e'"
    by (auto simp: mk_def)
  then show ?thesis by (intro exI [of _ "mk s now"]) (simp add: mk_def)
qed

section \<open>Refusals\<close>

text \<open>The command changes nothing and is answered by one rejection and the unchanged quote.\<close>

definition refused :: "account_id \<Rightarrow> reject_reason \<Rightarrow> 'l engine \<Rightarrow> 'l engine \<Rightarrow> bool" where
  "refused a reason e e' \<longleftrightarrow>
     eng_book e' = eng_book e \<and> eng_risk e' = eng_risk e \<and> registry e' = registry e \<and>
     (\<exists>r quote. emits [Out_ExecReport r, Out_BookUpdateTop quote] e e' \<and> er_state r = Rejected \<and>
        er_reject_reason r = Some reason \<and> er_account_id r = a)"

lemma step_refused:
  assumes run: "step api msg e = Some e'" and ch: "emit_book_changes msg"
    and h: "\<And>recv e1. entered e e1 \<Longrightarrow> dispatch api msg recv e1 = emit_rejected oid a reason recv e1"
  shows "refused a reason e e'"
proof -
  obtain recv e1 e2 where e1: "entered e e1" and d: "dispatch api msg recv e1 = Some e2"
    and e': "eng_book e' = eng_book e2" "eng_risk e' = eng_risk e2" "registry e' = registry e2"
    and t: "\<And>rs. emits rs e1 e2 \<Longrightarrow> \<exists>feed. emits (rs @ feed) e e' \<and> tail_of api (eng_book e) (eng_book e') feed"
    using step_parts [OF run ch] by metis
  have rej: "emit_rejected oid a reason recv e1 = Some e2" using h [OF e1, of recv] d by simp
  obtain r where r: "emits [Out_ExecReport r] e1 e2" "er_state r = Rejected" "er_reject_reason r = Some reason"
    "er_account_id r = a" using emit_rejected_emits [OF rej] by blast
  have same: "eng_book e2 = eng_book e" "eng_risk e2 = eng_risk e" "registry e2 = registry e"
    using emit_emission(1) [OF rej] e1 by (simp_all add: emission_def same_core_def entered_def)
  obtain feed where "emits ([Out_ExecReport r] @ feed) e e'" "tail_of api (eng_book e) (eng_book e') feed"
    using t [OF r(1)] by blast
  moreover from this obtain quote where "feed = [Out_BookUpdateTop quote]"
    using tail_of_same e'(1) same(1) by metis
  ultimately show ?thesis
    using e' same r unfolding refused_def by (intro conjI exI [of _ r] exI [of _ quote]) simp_all
qed

fun account_of :: "inbound \<Rightarrow> account_id" where
  "account_of (In_NewOrder m) = no_account_id m"
| "account_of (In_CancelOrder m) = co_account_id m"
| "account_of (In_CancelReplace m) = cr_account_id m"
| "account_of (In_MassCancel m) = mx_account_id m"
| "account_of (In_KillSwitchSet m) = AccountId 0"
| "account_of (In_SnapshotRequest m) = AccountId 0"

lemma halted_refuses:
  assumes "step api msg e = Some e'" "emit_book_changes msg" "kill_switch (eng_risk e)"
  shows "refused (account_of msg) KillSwitched e e'"
proof (cases msg)
  case (In_NewOrder m)
  show ?thesis
    unfolding In_NewOrder account_of.simps
    by (rule step_refused [OF assms(1) [unfolded In_NewOrder], of "no_order_id m"])
      (use assms(3) in \<open>simp_all add: entered_def handle_new_order_def check_new_order_def\<close>)
next
  case (In_CancelOrder m)
  show ?thesis
    unfolding In_CancelOrder account_of.simps
    by (rule step_refused [OF assms(1) [unfolded In_CancelOrder], of "co_order_id m"])
      (use assms(3) in \<open>simp_all add: entered_def handle_cancel_order_def check_cancel_def\<close>)
next
  case (In_CancelReplace m)
  show ?thesis
    unfolding In_CancelReplace account_of.simps
    by (rule step_refused [OF assms(1) [unfolded In_CancelReplace], of "cr_order_id m"])
      (use assms(3) in \<open>simp_all add: entered_def handle_cancel_replace_def check_cancel_replace_def\<close>)
next
  case (In_MassCancel m)
  show ?thesis
    unfolding In_MassCancel account_of.simps
    by (rule step_refused [OF assms(1) [unfolded In_MassCancel], of "OrderId 1"])
      (use assms(3) in \<open>simp_all add: entered_def handle_mass_cancel_def check_mass_cancel_def emit_rejected_mass_eq\<close>)
qed (use assms(2) in auto)

lemma cancel_foreign_refused:
  assumes run: "step api (In_CancelOrder m) e = Some e'" and live: "\<not> kill_switch (eng_risk e)"
    and en: "registry e (co_order_id m) = Some en" "re_account_id en \<noteq> co_account_id m"
  shows "refused (co_account_id m) UnknownOrderId e e'"
  by (rule step_refused [OF run, of "co_order_id m"])
    (use live en in \<open>simp_all add: entered_def handle_cancel_order_def check_cancel_def\<close>)

lemma replace_foreign_refused:
  assumes run: "step api (In_CancelReplace m) e = Some e'" and live: "\<not> kill_switch (eng_risk e)"
    and en: "registry e (cr_order_id m) = Some en" "re_account_id en \<noteq> cr_account_id m"
  shows "\<exists>reason. reason \<in> {UnknownOrderId, PriceBand, MaxNotional} \<and> refused (cr_account_id m) reason e e'"
proof -
  define reason where "reason = (case check_cancel_replace (eng_risk e) m of Inl r \<Rightarrow> r | Inr _ \<Rightarrow> UnknownOrderId)"
  have "check_price_band p r = Inl x \<Longrightarrow> x = PriceBand" for p r x
    by (auto simp: check_price_band_def Let_def ok_or_def split: option.splits if_splits)
  then have "reason \<in> {UnknownOrderId, PriceBand, MaxNotional}"
    using live by (auto simp: reason_def check_cancel_replace_def rbind_def Let_def split: sum.split)
  moreover have "refused (cr_account_id m) reason e e'"
    by (rule step_refused [OF run, of "cr_order_id m"])
      (use live en in \<open>auto simp: entered_def handle_cancel_replace_def reason_def Let_def split: sum.split\<close>)
  ultimately show ?thesis by blast
qed

text \<open>A new order that fails a pre-trade check.\<close>

lemma risk_refused:
  assumes run: "step api (In_NewOrder m) e = Some e'"
    and bad: "check_new_order (eng_risk e) m (best_opposite (no_side m) (eng_book e)) = Inl reason"
  shows "refused (no_account_id m) reason e e'"
  by (rule step_refused [OF run, of "no_order_id m"])
    (use bad in \<open>simp_all add: entered_def handle_new_order_def\<close>)

section \<open>Cancels\<close>

lemma emit_mass_loop_emits:
  "emit_mass_loop recv cs e = Some e' \<Longrightarrow>
   \<exists>rs. emits (map Out_ExecReport rs) e e' \<and> map er_order_id rs = map mc_order_id cs \<and>
     list_all (\<lambda>r. er_state r = Cancelled \<and> er_cancel_reason r = Some CR_MassCancel) rs"
proof (induction cs arbitrary: e)
  case Nil
  then show ?case using emits_nil [of e] by (intro exI [of _ "[]"]) simp
next
  case (Cons c cs)
  let ?e = "unregister (mc_order_id c) e"
  obtain e1 where e1: "emit_exec_report_cancelled (mc_order_id c) (mc_account_id c) CR_MassCancel recv ?e = Some e1"
    "emit_mass_loop recv cs e1 = Some e'" using Cons.prems by (auto simp: Option.bind_eq_Some_conv)
  obtain r where r: "emits [Out_ExecReport r] ?e e1" "er_state r = Cancelled" "er_cancel_reason r = Some CR_MassCancel"
    "er_order_id r = mc_order_id c" using emit_cancelled_emits [OF e1(1)] by blast
  obtain rs where rs: "emits (map Out_ExecReport rs) e1 e'" "map er_order_id rs = map mc_order_id cs"
    "list_all (\<lambda>r. er_state r = Cancelled \<and> er_cancel_reason r = Some CR_MassCancel) rs"
    using Cons.IH [OF e1(2)] by blast
  have "emits [Out_ExecReport r] e e1"
    using r(1) by (simp add: emits_def stream_def seq_no_def unregister_def split: option.splits)
  from emits_trans [OF this rs(1)] show ?case using r rs by (intro exI [of _ "r # rs"]) simp
qed

lemma entered_inv: "entered e e1 \<Longrightarrow> engine_inv queue level_ok e1 = engine_inv queue level_ok e"
  by (simp add: entered_def engine_inv_def)

context price_level_total
begin

lemma cancel_owned:
  assumes inv: "engine_inv queue level_ok e" and run: "step api (In_CancelOrder m) e = Some e'"
    and live: "\<not> kill_switch (eng_risk e)"
    and en: "registry e (co_order_id m) = Some en" "re_account_id en = co_account_id m"
  shows "index (eng_book e') = (index (eng_book e))(co_order_id m := None)"
    "registry e' = (registry e)(co_order_id m := None)"
    "eng_risk e' = on_order_removed (co_account_id m) (re_notional en) (eng_risk e)"
    "queue_at queue (eng_book e') s p =
       filter (\<lambda>x. pl_id x \<noteq> Sequential (order_id_raw (co_order_id m))) (queue_at queue (eng_book e) s p)"
    "\<exists>r feed. emits (Out_ExecReport r # feed) e e' \<and> tail_of api (eng_book e) (eng_book e') feed \<and>
       er_state r = Cancelled \<and> er_cancel_reason r = Some CR_UserRequested \<and> er_order_id r = co_order_id m"
proof -
  let ?oid = "co_order_id m"
  have ch: "emit_book_changes (In_CancelOrder m)" by simp
  obtain recv e1 e2 where e1: "entered e e1" and d: "dispatch api (In_CancelOrder m) recv e1 = Some e2"
    and e': "eng_book e' = eng_book e2" "eng_risk e' = eng_risk e2" "registry e' = registry e2"
    and t: "\<And>rs. emits rs e1 e2 \<Longrightarrow> \<exists>feed. emits (rs @ feed) e e' \<and> tail_of api (eng_book e) (eng_book e') feed"
    using step_parts [OF run ch] by metis
  have wf: "book_wf queue level_ok (eng_book e)" and reg: "registry e = reg_of queue (eng_book e)"
    using inv by (auto simp: engine_inv_def good_book_def book_inv_def)
  obtain om where om: "index (eng_book e) ?oid = Some om"
    using en(1) reg reg_of_dom [OF wf, of ?oid] by (metis not_None_eq option.distinct(1))
  let ?b = "prune_level api (om_side om) (om_price om) (removed api ?oid om (eng_book e))"
  let ?e = "unregister ?oid (e1\<lparr>eng_book := ?b\<rparr>)"
  have c: "emit_exec_report_cancelled ?oid (co_account_id m) CR_UserRequested recv ?e = Some e2"
    using d e1 live en cancel_known [OF wf om] by (simp add: handle_cancel_order_def check_cancel_def entered_def)
  have e2: "eng_book e2 = ?b" "registry e2 = (registry e)(?oid := None)"
      "eng_risk e2 = on_order_removed (co_account_id m) (re_notional en) (eng_risk e)"
    using emit_emission(4) [OF c] e1 en by (simp_all add: emission_def same_core_def unregister_def entered_def)
  then show "index (eng_book e') = (index (eng_book e))(?oid := None)" "registry e' = (registry e)(?oid := None)"
    "eng_risk e' = on_order_removed (co_account_id m) (re_notional en) (eng_risk e)"
    using e' by simp_all
  show "queue_at queue (eng_book e') s p =
       filter (\<lambda>x. pl_id x \<noteq> Sequential (order_id_raw (co_order_id m))) (queue_at queue (eng_book e) s p)"
    using e'(1) e2(1) filter_everywhere [OF wf om] by simp
  obtain r where r: "emits [Out_ExecReport r] ?e e2" "er_state r = Cancelled"
      "er_cancel_reason r = Some CR_UserRequested" "er_order_id r = ?oid"
    using emit_cancelled_emits [OF c] by blast
  have "emits [Out_ExecReport r] e1 e2"
    using r(1) by (simp add: emits_def stream_def seq_no_def unregister_def split: option.splits)
  from t [OF this] show "\<exists>r feed. emits (Out_ExecReport r # feed) e e' \<and> tail_of api (eng_book e) (eng_book e') feed \<and>
       er_state r = Cancelled \<and> er_cancel_reason r = Some CR_UserRequested \<and> er_order_id r = ?oid"
    using r by auto
qed

lemma mass_cancelled:
  assumes inv: "engine_inv queue level_ok e" and run: "step api (In_MassCancel m) e = Some e'"
    and live: "\<not> kill_switch (eng_risk e)"
  defines "gone \<equiv> {oid. owned_by (index (eng_book e)) (mx_account_id m) oid}"
  shows "index (eng_book e') = index (eng_book e) |` (- gone)"
    "registry e' = registry e |` (- gone)"
    "queue_at queue (eng_book e') s p = filter (\<lambda>x. \<not> (\<exists>oid. owned_by (index (eng_book e)) (mx_account_id m) oid \<and>
       pl_id x = Sequential (order_id_raw oid))) (queue_at queue (eng_book e) s p)"
    "\<exists>rs feed. emits (map Out_ExecReport rs @ feed) e e' \<and> tail_of api (eng_book e) (eng_book e') feed \<and>
       sorted_wrt (<) (map er_order_id rs) \<and> set (map er_order_id rs) = gone \<and>
       list_all (\<lambda>r. er_state r = Cancelled \<and> er_cancel_reason r = Some CR_MassCancel) rs"
proof -
  let ?a = "mx_account_id m" and ?b = "eng_book e"
  let ?ids = "account_orders (by_account ?b) ?a"
  have ch: "emit_book_changes (In_MassCancel m)" by simp
  obtain recv e1 e2 where e1: "entered e e1" and d: "dispatch api (In_MassCancel m) recv e1 = Some e2"
    and e': "eng_book e' = eng_book e2" "eng_risk e' = eng_risk e2" "registry e' = registry e2"
    and t: "\<And>rs. emits rs e1 e2 \<Longrightarrow> \<exists>feed. emits (rs @ feed) e e' \<and> tail_of api (eng_book e) (eng_book e') feed"
    using step_parts [OF run ch] by metis
  have b: "book_inv queue level_ok ?b" and wf: "book_wf queue level_ok ?b" and l: "ledger_ok (registry e) (eng_risk e)"
    using inv by (auto simp: engine_inv_def good_book_def book_inv_def)
  obtain n b' out where mc: "mass_cancel api ?b ?a [] = (n, b', out)" by (metis prod_cases3)
  note spec = mass_cancel_spec [OF b mc]
  have gone: "set ?ids = gone" using account_orders_owned [OF wf] by (simp add: gone_def)
  let ?e = "e1\<lparr>eng_book := b', mass_buf := out\<rparr>"
  have loop: "emit_mass_loop recv out ?e = Some e2"
    using d e1 live mc by (simp add: handle_mass_cancel_def check_mass_cancel_def entered_def)
  have ids: "map mc_order_id out = ?ids" by (simp add: spec(2) mass_record_def Let_def comp_def)
  have eff: "eng_book e2 = b'" "ledger e2 = fold ledger_drop ?ids (registry e, eng_risk e)"
    using emit_mass_loop_effect [OF loop] ids [symmetric] e1
    by (simp_all add: same_frame_def ledger_def fold_map comp_def entered_def)
  show "index (eng_book e') = index ?b |` (- gone)" using e'(1) eff(1) spec(4) by (simp add: gone_def Compl_eq)
  show "registry e' = registry e |` (- gone)"
    using ledger_drop_fold [OF l, of ?ids "registry e2" "eng_risk e2"] eff(2) e'(3) gone by (simp add: ledger_def)
  show "queue_at queue (eng_book e') s p = filter (\<lambda>x. \<not> (\<exists>oid. owned_by (index ?b) ?a oid \<and>
       pl_id x = Sequential (order_id_raw oid))) (queue_at queue ?b s p)"
    using e'(1) eff(1) spec(5) by simp
  obtain rs where rs: "emits (map Out_ExecReport rs) ?e e2" "map er_order_id rs = ?ids"
      "list_all (\<lambda>r. er_state r = Cancelled \<and> er_cancel_reason r = Some CR_MassCancel) rs"
    using emit_mass_loop_emits [OF loop] unfolding ids by blast
  have "emits (map Out_ExecReport rs) e1 e2" using rs(1) by (simp add: emits_def stream_def seq_no_def)
  from t [OF this] obtain feed where feed: "emits (map Out_ExecReport rs @ feed) e e'"
    "tail_of api ?b (eng_book e') feed" by blast
  have "sorted_wrt (<) ?ids"
    using wf by (simp add: book_wf_def view_wf_def accounts_wf_def bts_ok_def)
  then show "\<exists>rs feed. emits (map Out_ExecReport rs @ feed) e e' \<and> tail_of api ?b (eng_book e') feed \<and>
       sorted_wrt (<) (map er_order_id rs) \<and> set (map er_order_id rs) = gone \<and>
       list_all (\<lambda>r. er_state r = Cancelled \<and> er_cancel_reason r = Some CR_MassCancel) rs"
    using feed rs(2,3) gone by (intro exI [of _ rs] exI [of _ feed] conjI) simp_all
qed

end

section \<open>Snapshots\<close>

lemma emit_snapshot_emits:
  assumes "handle_snapshot_request api msg recv e = Some e'"
  shows "\<exists>r. emits [Out_SnapshotResponse r] e e' \<and> same_core e e' \<and> sp_request_id r = sr_request_id msg \<and>
    sp_recv_ts r = recv \<and> sp_bids r = snapshot_levels (bid_levels api (eng_book e)) \<and>
    sp_asks r = snapshot_levels (ask_levels api (eng_book e))"
proof -
  define mk where "mk s now = \<lparr>sp_engine_seq = s, sp_request_id = sr_request_id msg, sp_recv_ts = recv,
    sp_emit_ts = now, sp_bids = snapshot_levels (bid_levels api (eng_book e)),
    sp_asks = snapshot_levels (ask_levels api (eng_book e))\<rparr>" for s now
  have p: "publish (\<lambda>s now. Out_SnapshotResponse (mk s now)) e = Some e'"
    using assms by (simp add: handle_snapshot_request_def Let_def mk_def)
  have "\<And>s now. outbound_seq (Out_SnapshotResponse (mk s now)) = s" by (simp add: mk_def)
  from publish_spec [OF p this] obtain s now where "emits [Out_SnapshotResponse (mk s now)] e e'" "same_core e e'"
    by blast
  then show ?thesis by (intro exI [of _ "mk s now"]) (simp add: mk_def)
qed

lemma snapshot_levels_mem:
  "\<lparr>lv_price = p, lv_qty = q\<rparr> \<in> set (snapshot_levels ls) \<longleftrightarrow> (p, as_lots q) \<in> set ls \<and> as_lots q \<noteq> 0"
  by (cases q) (auto simp: snapshot_levels_def List.map_filter_def Qty_new_ok word_neq_0_conv image_iff split: if_splits)

lemma snapshot_levels_prices:
  "sorted_wrt R (map fst ls) \<Longrightarrow> sorted_wrt R (map lv_price (snapshot_levels ls))"
  by (induction ls) (auto simp: snapshot_levels_def List.map_filter_def Qty_new_ok word_neq_0_conv split: if_splits)

lemma step_snapshot:
  assumes "step api (In_SnapshotRequest m) e = Some e'"
  shows "\<exists>r. events (eng_sink e') = events (eng_sink e) @ [Out_SnapshotResponse r] \<and>
    eng_book e' = eng_book e \<and> eng_risk e' = eng_risk e \<and> registry e' = registry e \<and>
    sp_request_id r = sr_request_id m \<and> sp_bids r = snapshot_levels (bid_levels api (eng_book e)) \<and>
    sp_asks r = snapshot_levels (ask_levels api (eng_book e))"
proof -
  have "handle_snapshot_request api m (eng_clock e (eng_clock_reads e))
      (e\<lparr>eng_clock_reads := Suc (eng_clock_reads e)\<rparr>) = Some e'"
    using assms by (simp add: step_def clock_now_def Let_def)
  from emit_snapshot_emits [OF this] show ?thesis by (auto simp: emits_def stream_def same_core_def)
qed

text \<open>The two iterators of the book list the levels in price order, with the depth shown.\<close>

lemma depth_lists:
  assumes "levels_wf level_ok b"
  shows "sorted_wrt (>) (map fst (bid_levels api b))" "sorted_wrt (<) (map fst (ask_levels api b))"
    "(p, q) \<in> set (bid_levels api b) \<and> q \<noteq> 0 \<longleftrightarrow> shown api b (Bid, p) = Some q"
    "(p, q) \<in> set (ask_levels api b) \<and> q \<noteq> 0 \<longleftrightarrow> shown api b (Ask, p) = Some q"
proof -
  have ok: "btm_ok (bids b)" "btm_ok (asks b)"
    using levels_wfD(1) [OF assms, of Bid] levels_wfD(1) [OF assms, of Ask] by simp_all
  show "sorted_wrt (>) (map fst (bid_levels api b))" "sorted_wrt (<) (map fst (ask_levels api b))"
    using ok by (simp_all add: bid_levels_def ask_levels_def btm_ok_def comp_def split_def rev_map [symmetric] sorted_wrt_rev)
  have "(p, q) \<in> set (map (\<lambda>(p, l). (p, f l)) m) \<longleftrightarrow> (\<exists>l. btm_get m p = Some l \<and> q = f l)"
    if "btm_ok m" for m :: "(price, 'a) btm" and f
    unfolding btm_get_eq_Some [OF that] by force
  note mem = this [where f = "\<lambda>l. unwrap_or (pl_total_quantity api l) 0"]
  show "(p, q) \<in> set (bid_levels api b) \<and> q \<noteq> 0 \<longleftrightarrow> shown api b (Bid, p) = Some q"
    using mem [OF ok(1)] by (cases "btm_get (bids b) p") (auto simp: bid_levels_def shown_def qty_at_level_def Let_def)
  show "(p, q) \<in> set (ask_levels api b) \<and> q \<noteq> 0 \<longleftrightarrow> shown api b (Ask, p) = Some q"
    using mem [OF ok(2)] by (cases "btm_get (asks b) p") (auto simp: ask_levels_def shown_def qty_at_level_def Let_def)
qed

end
