(* ===== verification/Trades.thy ===== *)
theory Trades
  imports Commands
begin

text \<open>
  Trade ids on the public tape. Every trade id that the matching core draws is published by exactly
  one \<^verbatim>\<open>TradePrint\<close>, in the order drawn: from one state of the engine to a later one the prints
  carry exactly the ids between the two values of the counter.
\<close>

section \<open>Prints\<close>

fun silent :: "outbound \<Rightarrow> bool" where
  "silent (Out_TradePrint _) = False"
| "silent _ = True"

fun print_id :: "outbound \<Rightarrow> nat option" where
  "print_id (Out_TradePrint t) = Some (unat (trade_id_raw (tp_trade_id t)))"
| "print_id _ = None"

definition print_ids :: "outbound list \<Rightarrow> nat list" where
  "print_ids msgs = List.map_filter print_id msgs"

definition traded :: "'l engine \<Rightarrow> 'l engine \<Rightarrow> bool" where
  "traded e e' \<longleftrightarrow>
     (\<exists>msgs. emits msgs e e' \<and> print_ids msgs = [trade_no e ..< trade_no e']) \<and> trade_no e \<le> trade_no e'"

lemma print_ids_append [simp]: "print_ids (xs @ ys) = print_ids xs @ print_ids ys"
  by (simp add: print_ids_def List.map_filter_def)

lemma print_ids_silent: "list_all silent msgs \<Longrightarrow> print_ids msgs = []"
proof (induction msgs)
  case (Cons m ms)
  then show ?case by (cases m) (simp_all add: print_ids_def List.map_filter_def)
qed (simp add: print_ids_def List.map_filter_def)

lemma traded_trans:
  assumes "traded e1 e2" "traded e2 e3"
  shows "traded e1 e3"
proof -
  obtain ms1 ms2 where ms: "emits ms1 e1 e2" "print_ids ms1 = [trade_no e1 ..< trade_no e2]"
      "emits ms2 e2 e3" "print_ids ms2 = [trade_no e2 ..< trade_no e3]"
    and le: "trade_no e1 \<le> trade_no e2" "trade_no e2 \<le> trade_no e3"
    using assms unfolding traded_def by blast
  have "print_ids (ms1 @ ms2) = [trade_no e1 ..< trade_no e3]"
    using ms le upt_add_eq_append [of "trade_no e1" "trade_no e2" "trade_no e3 - trade_no e2"] by simp
  then show ?thesis
    unfolding traded_def using emits_trans [OF ms(1,3)] le by (meson order_trans)
qed

lemma silent_traded: "emits_some silent e e' \<Longrightarrow> trade_no e' = trade_no e \<Longrightarrow> traded e e'"
  unfolding traded_def emits_some_def using print_ids_silent by fastforce

section \<open>The emission helpers\<close>

lemma emit_silent:
  "emit_rejected oid a reason recv e = Some e' \<Longrightarrow> emits_some silent e e'"
  "emit_rejected_mass a reason recv e = Some e' \<Longrightarrow> emits_some silent e e'"
  "emit_exec_report_accepted oid a q recv e = Some e' \<Longrightarrow> emits_some silent e e'"
  "emit_exec_report_cancelled oid a cr recv e = Some e' \<Longrightarrow> emits_some silent e e'"
  "emit_exec_report_replaced oid a q recv e = Some e' \<Longrightarrow> emits_some silent e e'"
  "emit_exec_report_fill oid a st p q leaves recv e = Some e' \<Longrightarrow> emits_some silent e e'"
  "emit_l2_delta s p n recv e = Some e' \<Longrightarrow> emits_some silent e e'"
  "emit_book_update_top api recv e = Some e' \<Longrightarrow> emits_some silent e e'"
  "handle_snapshot_request api sr recv e = Some e' \<Longrightarrow> emits_some silent e e'"
  by (auto simp: emit_defs emit_rejected_mass_eq elim!: publish_some)

lemma emission_trade_no: "emission e e' \<Longrightarrow> trade_no e' = trade_no e"
  by (simp add: emission_def same_core_def trade_no_def)

lemma emit_trade_no:
  "emit_rejected oid a reason recv e = Some e' \<Longrightarrow> trade_no e' = trade_no e"
  "emit_rejected_mass a reason recv e = Some e' \<Longrightarrow> trade_no e' = trade_no e"
  "emit_exec_report_accepted oid a q recv e = Some e' \<Longrightarrow> trade_no e' = trade_no e"
  "emit_exec_report_cancelled oid a cr recv e = Some e' \<Longrightarrow> trade_no e' = trade_no e"
  "emit_exec_report_replaced oid a q recv e = Some e' \<Longrightarrow> trade_no e' = trade_no e"
  "emit_exec_report_fill oid a st p q leaves recv e = Some e' \<Longrightarrow> trade_no e' = trade_no e"
  "emit_trade_print_for_fill f s recv e = Some e' \<Longrightarrow> trade_no e' = trade_no e"
  "handle_snapshot_request api sr recv e = Some e' \<Longrightarrow> trade_no e' = trade_no e"
  by (rule emit_emission [THEN emission_trade_no], assumption)+

text \<open>\<open>prints ids e e'\<close>: the stretch prints exactly \<open>ids\<close> and draws nothing.\<close>

definition prints :: "nat list \<Rightarrow> 'l engine \<Rightarrow> 'l engine \<Rightarrow> bool" where
  "prints ids e e' \<longleftrightarrow> (\<exists>msgs. emits msgs e e' \<and> print_ids msgs = ids) \<and> trade_no e' = trade_no e"

lemma prints_trans: "prints xs e1 e2 \<Longrightarrow> prints ys e2 e3 \<Longrightarrow> prints (xs @ ys) e1 e3"
  unfolding prints_def using emits_trans by (metis print_ids_append)

lemma silent_prints: "emits_some silent e e' \<Longrightarrow> trade_no e' = trade_no e \<Longrightarrow> prints [] e e'"
  unfolding prints_def emits_some_def using print_ids_silent by fastforce

lemma prints_frame [simp]:
  "prints ids e (unregister oid e') = prints ids e e'" "prints ids (unregister oid e) e' = prints ids e e'"
  "prints ids e (settle_maker f e') = prints ids e e'" 
  "prints ids (e\<lparr>eng_book := b\<rparr>) e' = prints ids e e'" "prints ids (e\<lparr>eng_risk := r\<rparr>) e' = prints ids e e'"
  "prints ids e (e'\<lparr>eng_risk := r\<rparr>) = prints ids e e'"
  "prints ids (e\<lparr>registry := reg\<rparr>) e' = prints ids e e'" "prints ids e (e'\<lparr>registry := reg\<rparr>) = prints ids e e'"
  "prints ids (e\<lparr>mass_buf := mb\<rparr>) e' = prints ids e e'"
  by (simp_all add: prints_def emits_def stream_def seq_no_def trade_no_def unregister_def settle_maker_def Let_def
      split: option.split)

lemma emit_prints:
  "emit_rejected oid a reason recv e = Some e' \<Longrightarrow> prints [] e e'"
  "emit_rejected_mass a reason recv e = Some e' \<Longrightarrow> prints [] e e'"
  "emit_exec_report_accepted oid a q recv e = Some e' \<Longrightarrow> prints [] e e'"
  "emit_exec_report_cancelled oid a cr recv e = Some e' \<Longrightarrow> prints [] e e'"
  "emit_exec_report_replaced oid a q recv e = Some e' \<Longrightarrow> prints [] e e'"
  "emit_exec_report_fill oid a st p q leaves recv e = Some e' \<Longrightarrow> prints [] e e'"
  "handle_snapshot_request api sr recv e = Some e' \<Longrightarrow> prints [] e e'"
  by (rule silent_prints, rule emit_silent, assumption, rule emit_trade_no, assumption)+

lemma emit_trade_print_prints:
  assumes "emit_trade_print_for_fill f s recv e = Some e'"
  shows "prints [unat (trade_id_raw (f_trade_id f))] e e'"
proof -
  let ?mk = "\<lambda>sq now. Out_TradePrint \<lparr>tp_engine_seq = sq, tp_trade_id = f_trade_id f, tp_price = f_price f,
    tp_qty = f_qty f, tp_aggressor_side = s, tp_emit_ts = now\<rparr>"
  have "publish ?mk e = Some e'" using assms by (simp add: emit_trade_print_for_fill_def)
  from publish_spec(1) [OF this] obtain sq now where "emits [?mk sq now] e e'" by auto
  then show ?thesis
    unfolding prints_def using emit_trade_no(7) [OF assms]
    by (intro conjI exI [of _ "[?mk sq now]"]) (simp_all add: print_ids_def List.map_filter_def)
qed

lemma emit_fill_prints:
  "emit_fill t a recv r f e = Some e' \<Longrightarrow> prints [unat (trade_id_raw (f_trade_id f))] e e'"
  unfolding emit_fill_def
  by (auto simp: Option.bind_eq_Some_conv Let_def dest!: emit_trade_print_prints emit_prints)
    (metis append_Nil2 prints_trans)

lemma emit_fills_loop_prints:
  "emit_fills_loop t a recv r fs e = Some e' \<Longrightarrow> prints (map (\<lambda>f. unat (trade_id_raw (f_trade_id f))) fs) e e'"
proof (induction fs arbitrary: r e)
  case Nil
  then show ?case by (simp add: silent_prints)
next
  case (Cons f fs)
  then show ?case
    using emit_fill_prints prints_trans by (fastforce simp: Option.bind_eq_Some_conv Let_def)
qed

lemma emit_stp_loop_prints: "emit_stp_loop recv cs e = Some e' \<Longrightarrow> prints [] e e'"
proof (induction cs arbitrary: e)
  case Nil
  then show ?case by (simp add: silent_prints)
next
  case (Cons c cs)
  then show ?case
    using emit_prints(4) prints_trans [of "[]" _ _ "[]"] by (fastforce simp: Option.bind_eq_Some_conv)
qed

lemma emit_mass_loop_prints: "emit_mass_loop recv cs e = Some e' \<Longrightarrow> prints [] e e'"
proof (induction cs arbitrary: e)
  case Nil
  then show ?case by (simp add: silent_prints)
next
  case (Cons c cs)
  then obtain e1 where e1: "emit_exec_report_cancelled (mc_order_id c) (mc_account_id c) CR_MassCancel recv
      (unregister (mc_order_id c) e) = Some e1" "emit_mass_loop recv cs e1 = Some e'"
    by (auto simp: Option.bind_eq_Some_conv)
  show ?case using prints_trans [OF emit_prints(4) [OF e1(1)] Cons.IH [OF e1(2)]] by simp
qed

section \<open>The handlers\<close>

lemma dispose_new_order_prints: "dispose_new_order api msg res recv e = Some e' \<Longrightarrow> prints [] e e'"
  by (auto simp: dispose_new_order_def rest_new_order_def Let_def silent_prints
      split: if_splits option.splits tif.splits prod.splits sum.splits dest!: emit_prints)

lemma dispose_replace_prints: "dispose_replace api msg old mr recv e = Some e' \<Longrightarrow> prints [] e e'"
  by (auto simp: dispose_replace_def Let_def silent_prints
      split: if_splits option.splits prod.splits sum.splits dest!: emit_prints)

abbreviation fill_ids :: "fill list \<Rightarrow> nat list" where
  "fill_ids fs \<equiv> map (\<lambda>f. unat (trade_id_raw (f_trade_id f))) fs"

lemma report_prints:
  assumes "emit_fills_for_taker t a q recv e = Some e1" "emit_stp_cancels recv e1 = Some e2" "prints [] e2 e'"
  shows "prints (fill_ids (fills_buf e)) e e'"
  using prints_trans [OF prints_trans [OF emit_fills_loop_prints emit_stp_loop_prints] assms(3)] assms(1,2)
  unfolding emit_fills_for_taker_def emit_stp_cancels_def by fastforce

lemma commit_replace_prints:
  assumes "commit_replace api msg old mr recv e = Some e'"
  shows "prints (fill_ids (fills_buf e)) e e'"
proof -
  define e1 where "e1 = (case old of
      Some entry \<Rightarrow> e\<lparr>eng_risk := on_order_removed (re_account_id entry) (re_notional entry) (eng_risk e)\<rparr> | None \<Rightarrow> e)"
  define e2 where "e2 = e1\<lparr>registry := (registry e1)(cr_order_id msg := None)\<rparr>"
  obtain e3 e4 e5 where
    s: "emit_exec_report_replaced (cr_order_id msg) (cr_account_id msg) (cr_new_qty msg) recv e2 = Some e3"
    "emit_fills_for_taker (cr_order_id msg) (cr_account_id msg) (cr_new_qty msg) recv e3 = Some e4"
    "emit_stp_cancels recv e4 = Some e5" "dispose_replace api msg old mr recv e5 = Some e'"
    using assms by (auto simp: commit_replace_def Let_def Option.bind_eq_Some_conv e1_def e2_def)
  have "fills_buf e3 = fills_buf e"
    using emit_emission(5) [OF s(1)] by (simp add: emission_def same_core_def e2_def e1_def split: option.split)
  moreover have "prints ids e2 e' = prints ids e e'" for ids by (simp add: e2_def e1_def split: option.split)
  ultimately show ?thesis
    using prints_trans [OF emit_prints(5) [OF s(1)] report_prints [OF s(2,3) dispose_replace_prints [OF s(4)]]] by simp
qed

text \<open>A walk that drew the ids of its fills, followed by the reports of those fills.\<close>

lemma drawn_traded:
  assumes "draws next_trade_id (eng_ids e) [] ids' F"
    and "prints (fill_ids F) (e\<lparr>eng_book := b, eng_ids := ids', fills_buf := F, stp_buf := S\<rparr>) e'"
  shows "traded e e'"
proof -
  let ?e = "e\<lparr>eng_book := b, eng_ids := ids', fills_buf := F, stp_buf := S\<rparr>"
  have run: "ids_run next_trade_id (length F) (eng_ids e) = Some (map f_trade_id F, ids')"
    using assms(1) by (simp add: draws_def)
  from trade_ids.run_consecutive [OF this]
  have ids: "fill_ids F = [trade_no e ..< trade_no e + length F]" "trade_no ?e = trade_no e + length F"
      "next_seq_raw ids' = next_seq_raw (eng_ids e)"
    by (simp_all add: trade_no_def comp_def)
  obtain msgs where "emits msgs ?e e'" "print_ids msgs = fill_ids F" "trade_no e' = trade_no ?e"
    using assms(2) unfolding prints_def by blast
  then show ?thesis
    unfolding traded_def using ids by (intro conjI exI [of _ msgs]) (auto simp: emits_def stream_def seq_no_def)
qed

lemma prints_traded: "prints [] e e' \<Longrightarrow> traded e e'"
  by (auto simp: prints_def traded_def)

lemma post_only_rejected_draws:
  "match_aggressive api nti b taker ids [] [] = Some (res, b', ids', F, S) \<Longrightarrow> mr_taker_post_only_rejected res \<Longrightarrow> F = []"
  by (auto simp: match_aggressive_def split: if_splits option.splits)

lemma handle_new_order_traded:
  assumes "handle_new_order api msg recv e = Some e'"
  shows "traded e e'"
proof (cases "\<exists>reason. emit_rejected (no_order_id msg) (no_account_id msg) reason recv e = Some e'")
  case True
  then show ?thesis using prints_traded [OF emit_prints(1)] by blast
next
  case False
  then obtain res b' ids' F S where m: "match_aggressive api next_trade_id (eng_book e)
        \<lparr>ao_order_id = no_order_id msg, ao_account_id = no_account_id msg, ao_side = no_side msg,
         ao_price = no_price msg, ao_qty = no_qty msg, ao_tif = no_tif msg\<rparr> (eng_ids e) [] [] = Some (res, b', ids', F, S)"
    and rest: "(if mr_taker_post_only_rejected res
       then emit_rejected (no_order_id msg) (no_account_id msg) PostOnlyWouldCross recv
              (e\<lparr>eng_book := b', eng_ids := ids', fills_buf := F, stp_buf := S\<rparr>)
       else do { e \<leftarrow> emit_fills_for_taker (no_order_id msg) (no_account_id msg) (no_qty msg) recv
                   (e\<lparr>eng_book := b', eng_ids := ids', fills_buf := F, stp_buf := S\<rparr>);
                 e \<leftarrow> emit_stp_cancels recv e; dispose_new_order api msg res recv e }) = Some e'"
    using assms by (auto simp: handle_new_order_def Let_def Option.bind_eq_Some_conv split: sum.splits if_splits)
  let ?e = "e\<lparr>eng_book := b', eng_ids := ids', fills_buf := F, stp_buf := S\<rparr>"
  have "prints (fill_ids F) ?e e'"
  proof (cases "mr_taker_post_only_rejected res")
    case True
    then show ?thesis using rest post_only_rejected_draws [OF m True] emit_prints(1) by simp
  next
    case False
    then obtain e1 e2 where "emit_fills_for_taker (no_order_id msg) (no_account_id msg) (no_qty msg) recv ?e = Some e1"
      "emit_stp_cancels recv e1 = Some e2" "dispose_new_order api msg res recv e2 = Some e'"
      using rest by (auto simp: Option.bind_eq_Some_conv)
    from report_prints [OF this(1,2) dispose_new_order_prints [OF this(3)]] show ?thesis by simp
  qed
  then show ?thesis by (rule drawn_traded [OF match_aggressive_draws [OF m]])
qed

lemma replace_rejected_draws:
  assumes "replace api nti b oid p q ids [] [] = Some (Inr out, b', ids', F, S)"
    and "rp_match_result out = Some r" "mr_taker_post_only_rejected r"
  shows "F = []"
  using assms
  by (auto simp: replace_def Let_def dest!: post_only_rejected_draws
      split: option.splits if_splits prod.splits sum.splits bool.splits)

lemma emit_tail_prints:
  assumes "emit_tail api recv e = Some e'"
  shows "prints [] e e'"
proof -
  let ?e = "capture_post_step_levels api e"
  have "emits_some silent ?e e'"
  proof -
    obtain e1 where e1: "emit_l2_merge (pre_step_levels ?e) (post_step_levels ?e) recv ?e = Some e1"
      "emit_book_update_top api recv e1 = Some e'"
      using assms by (auto simp: emit_tail_def emit_l2_deltas_def Option.bind_eq_Some_conv)
    from emit_l2_merge_feeds [OF e1(1)] obtain ds where "emits (map Out_BookUpdateL2Delta ds) ?e e1" "same_core ?e e1"
      unfolding feeds_def by blast
    then have "emits_some silent ?e e1" by (intro emits_someI) (auto simp: list_all_iff same_core_def)
    then show ?thesis using emit_silent(8) [OF e1(2)] emits_some_trans by blast
  qed
  moreover have "trade_no e' = trade_no ?e" using emission_trade_no [OF emit_tail_emission [OF assms]] .
  ultimately have "prints [] ?e e'" by (rule silent_prints)
  then show ?thesis by (simp add: prints_def emits_def stream_def seq_no_def trade_no_def capture_post_step_levels_def)
qed

context price_level_total
begin

lemma handle_cancel_replace_traded:
  assumes inv: "engine_inv queue level_ok e" and ok: "cancel_replace_ok msg"
    and room: "arrivals e < 2 ^ 64 - 1" and run: "handle_cancel_replace api msg recv e = Some e'"
  shows "traded e e'"
proof (cases "\<exists>reason. emit_rejected (cr_order_id msg) (cr_account_id msg) reason recv e = Some e'")
  case True
  then show ?thesis using prints_traded [OF emit_prints(1)] by blast
next
  case False
  let ?oid = "cr_order_id msg"
  obtain out b' ids' F S where rep: "replace api next_trade_id (eng_book e) ?oid (cr_new_price msg) (cr_new_qty msg)
        (eng_ids e) [] [] = Some (out, b', ids', F, S)"
    and c: "conclude_replace api msg (registry e ?oid) out recv
        (e\<lparr>eng_book := b', eng_ids := ids', fills_buf := F, stp_buf := S\<rparr>) = Some e'"
    by (rule handle_cancel_replace_cases [OF run]) (use False in blast)+
  have b: "book_inv queue level_ok (eng_book e)" using inv by (simp add: engine_inv_def good_book_def)
  have q: "qty_ok (cr_new_qty msg)" using ok by (simp add: cancel_replace_ok_def)
  have r: "unat (book_seq (eng_book e)) < 2 ^ 64 - 1" using room by (simp add: arrivals_def)
  have refused: "F = []" if "out = Inl x" for x
  proof (cases "index (eng_book e) ?oid")
    case None
    then show ?thesis using rep by (simp add: replace_def)
  next
    case (Some m)
    from b Some q r rep show ?thesis by (cases rule: replace_outcomes) (use that in auto)
  qed
  have "prints (fill_ids F) (e\<lparr>eng_book := b', eng_ids := ids', fills_buf := F, stp_buf := S\<rparr>) e'"
  proof (cases out)
    case (Inl x)
    then show ?thesis using c refused [OF Inl] emit_prints(1) by (simp add: conclude_replace_def)
  next
    case (Inr rp)
    show ?thesis
    proof (cases "case rp_match_result rp of Some r \<Rightarrow> mr_taker_post_only_rejected r | None \<Rightarrow> False")
      case True
      then have "F = []" using replace_rejected_draws [OF rep [unfolded Inr]] by (auto split: option.splits)
      then show ?thesis using c Inr True emit_prints(1) by (simp add: conclude_replace_def)
    next
      case False
      then show ?thesis using c Inr commit_replace_prints by (fastforce simp: conclude_replace_def)
    qed
  qed
  then show ?thesis by (rule drawn_traded [OF replace_draws [OF rep]])
qed

lemma dispatch_traded:
  assumes "engine_inv queue level_ok e" "inbound_ok msg" "arrivals e < 2 ^ 64 - 1"
    and "dispatch api msg recv e = Some e'"
  shows "traded e e'"
proof (cases msg)
  case (In_CancelOrder m)
  then show ?thesis
    using assms(4) by (auto simp: handle_cancel_order_def split: sum.splits if_splits prod.splits
        dest!: emit_prints intro: prints_traded)
next
  case (In_MassCancel m)
  then show ?thesis
    using assms(4) by (auto simp: handle_mass_cancel_def split: sum.splits if_splits prod.splits
        dest!: emit_prints emit_mass_loop_prints intro: prints_traded)
next
  case (In_KillSwitchSet m)
  then show ?thesis
    using assms(4) by (auto simp: handle_kill_switch_def Let_def silent_prints intro!: prints_traded)
next
  case (In_SnapshotRequest m)
  then show ?thesis using assms(4) prints_traded [OF emit_prints(7)] by auto
qed (use assms handle_new_order_traded handle_cancel_replace_traded in auto)

lemma step_traded:
  assumes inv: "engine_inv queue level_ok e" and ok: "inbound_ok msg" and room: "arrivals e < 2 ^ 64 - 1"
    and run: "step api msg e = Some e'"
  shows "traded e e'"
proof -
  obtain recv e1 where c: "clock_now e = (recv, e1)" by fastforce
  define e2 where "e2 = (if emit_book_changes msg then capture_pre_step_levels api e1 else e1)"
  have e2: "engine_inv queue level_ok e2" "arrivals e2 = arrivals e"
    using inv clock_now_frame(1) [of queue level_ok e] clock_now_frame(2) [of e] c by (simp_all add: e2_def)
  have e2e: "traded e2 x = traded e x" for x
    using c by (auto simp: e2_def clock_now_def traded_def emits_def stream_def seq_no_def trade_no_def
        capture_pre_step_levels_def split: if_splits)
  obtain e3 where d: "dispatch api msg recv e2 = Some e3"
    and t: "(if emit_book_changes msg then emit_tail api recv e3 else Some e3) = Some e'"
    using run c by (auto simp: step_def Let_def e2_def Option.bind_eq_Some_conv)
  have "traded e e3" using dispatch_traded [OF e2(1) ok _ d] e2(2) room e2e by simp
  then show ?thesis
    using t traded_trans [OF _ prints_traded [OF emit_tail_prints], of e e3] by (auto split: if_splits)
qed

lemma run_steps_traded:
  assumes "engine_inv queue level_ok e" "list_all inbound_ok msgs" "arrivals e + length msgs < 2 ^ 64"
    and "run_steps api msgs e = Some e'"
  shows "traded e e'"
  using assms
proof (induction msgs arbitrary: e)
  case Nil
  then show ?case by (simp add: prints_traded silent_prints)
next
  case (Cons m ms)
  then obtain e1 where s: "step api m e = Some e1" "run_steps api ms e1 = Some e'"
    by (auto simp: Option.bind_eq_Some_conv)
  have k: "keeps_inv queue level_ok e e1" "traded e e1"
    using step_inv [OF Cons.prems(1) _ _ s(1)] step_traded [OF Cons.prems(1) _ _ s(1)] Cons.prems by simp_all
  then have "traded e1 e'" using Cons.IH [OF _ _ _ s(2)] Cons.prems by (simp add: keeps_inv_def)
  with k(2) show ?case by (rule traded_trans)
qed

end

end
