(* ===== verification/Demo_Run.thy ===== *)
theory Demo_Run
  imports Demo Trades
begin

text \<open>
  A short session over the reference queue: four orders rest, then a buyer takes the first ask whole
  and part of the second. The states along it are the concrete inputs of the engine's theorems.
\<close>

definition new_msg :: "u64 \<Rightarrow> u32 \<Rightarrow> side \<Rightarrow> i64 \<Rightarrow> u64 \<Rightarrow> tif \<Rightarrow> inbound" where
  "new_msg i a s p q t = In_NewOrder
     \<lparr>no_client_ts = ClientTs 0, no_order_id = OrderId i, no_account_id = AccountId a, no_side = s,
      no_order_type = Limit, no_tif = t, no_price = Some (Price p), no_qty = Qty q\<rparr>"

definition cancel_msg :: "u64 \<Rightarrow> u32 \<Rightarrow> inbound" where
  "cancel_msg i a = In_CancelOrder \<lparr>co_client_ts = ClientTs 0, co_order_id = OrderId i, co_account_id = AccountId a\<rparr>"

definition replace_msg :: "u64 \<Rightarrow> u32 \<Rightarrow> i64 \<Rightarrow> u64 \<Rightarrow> inbound" where
  "replace_msg i a p q = In_CancelReplace
     \<lparr>cr_client_ts = ClientTs 0, cr_order_id = OrderId i, cr_account_id = AccountId a,
      cr_new_price = Price p, cr_new_qty = Qty q\<rparr>"

definition halt_msg :: inbound where
  "halt_msg = In_KillSwitchSet \<lparr>ks_client_ts = ClientTs 0, ks_admin_token = 0, ks_state = Halt\<rparr>"

definition demo_msgs :: "inbound list" where
  "demo_msgs = [new_msg 1 7 Ask 101 5 Gtc, new_msg 2 8 Ask 101 3 Gtc, new_msg 3 9 Ask 102 4 PostOnly,
     new_msg 4 8 Bid 99 6 Gtc, new_msg 5 10 Bid 101 6 Gtc]"

definition demo_engine :: "pl_order list engine" where
  "demo_engine = Engine_new (StubClock_new 1000) CounterIdGenerator_new VecSink_new"

definition demo_state :: "pl_order list engine" where
  "demo_state = the (run_steps fifo_api demo_msgs demo_engine)"

lemma demo_engine_facts:
  "engine_inv (\<lambda>l. l) (\<lambda>_. True) demo_engine" "arrivals demo_engine = 0" "seq_no demo_engine = 1"
  "trade_no demo_engine = 1" "resting demo_engine = 0" "stream demo_engine = []"
  by (simp_all add: demo_engine_def engine_inv_new)
    (simp_all add: Engine_new_def arrivals_def seq_no_def trade_no_def resting_def CounterIdGenerator_new_def
      stream_def VecSink_new_def)

lemma demo_msgs_ok: "list_all inbound_ok demo_msgs" "length demo_msgs = 5"
  by (simp_all add: demo_msgs_def new_msg_def new_order_ok_def ok_defs)

text \<open>Any short session runs to its end in a state that satisfies the invariant.\<close>

lemma demo_runs:
  assumes "list_all inbound_ok msgs" "length msgs \<le> 100"
  shows "\<exists>e. run_steps fifo_api msgs demo_engine = Some e \<and> engine_inv (\<lambda>l. l) (\<lambda>_. True) e"
  unfolding demo_engine_def by (rule fifo.fresh_run_returns) (use assms in simp_all)

lemma demo_run: "run_steps fifo_api demo_msgs demo_engine = Some demo_state" "engine_inv (\<lambda>l. l) (\<lambda>_. True) demo_state"
  using demo_runs [OF demo_msgs_ok(1)] demo_msgs_ok(2) by (auto simp: demo_state_def)

lemma demo_reachable: "reachable fifo_api CounterIdGenerator_new 5 demo_state"
  using run_steps_reachable [OF demo_run(1), of CounterIdGenerator_new 0] demo_msgs_ok
  by (simp add: demo_engine_def reachable.start)

text \<open>What the session leaves behind: order 1 is gone, 2 of the 3 lots of order 2 are left.\<close>

definition digest where
  "digest e =
     (length (events (eng_sink e)), map (\<lambda>i. registry e (OrderId i)) [1, 2, 3, 4, 5],
      eng_ids e, map (\<lambda>a. per_account (eng_risk e) (AccountId a)) [7, 8, 9, 10],
      capture_levels fifo_api (eng_book e), kill_switch (eng_risk e),
      account_orders (by_account (eng_book e)) (AccountId 8))"

lemma demo_digest:
  "digest demo_state =
   (20, [None, Some \<lparr>re_account_id = AccountId 8, re_side = Ask, re_qty = Qty 2, re_notional = 202\<rparr>,
      Some \<lparr>re_account_id = AccountId 9, re_side = Ask, re_qty = Qty 4, re_notional = 408\<rparr>,
      Some \<lparr>re_account_id = AccountId 8, re_side = Bid, re_qty = Qty 6, re_notional = 594\<rparr>, None],
    \<lparr>next_trade = 3, next_seq_raw = 21\<rparr>,
    [None, Some \<lparr>open_orders = 1, notional = 796\<rparr>, Some \<lparr>open_orders = 1, notional = 408\<rparr>, None],
    [(Bid, Price 99, 6), (Ask, Price 101, 2), (Ask, Price 102, 4)], False, [OrderId 2, OrderId 4])"
  by code_simp

lemma demo_values:
  "length (stream demo_state) = 20" "registry demo_state (OrderId 1) = None"
  "registry demo_state (OrderId 2) = Some \<lparr>re_account_id = AccountId 8, re_side = Ask, re_qty = Qty 2, re_notional = 202\<rparr>"
  "registry demo_state (OrderId 3) = Some \<lparr>re_account_id = AccountId 9, re_side = Ask, re_qty = Qty 4, re_notional = 408\<rparr>"
  "registry demo_state (OrderId 4) = Some \<lparr>re_account_id = AccountId 8, re_side = Bid, re_qty = Qty 6, re_notional = 594\<rparr>"
  "seq_no demo_state = 21" "trade_no demo_state = 3" "\<not> kill_switch (eng_risk demo_state)"
  "per_account (eng_risk demo_state) (AccountId 8) = Some \<lparr>open_orders = 1, notional = 796\<rparr>"
  "per_account (eng_risk demo_state) (AccountId 9) = Some \<lparr>open_orders = 1, notional = 408\<rparr>"
  "capture_levels fifo_api (eng_book demo_state) = [(Bid, Price 99, 6), (Ask, Price 101, 2), (Ask, Price 102, 4)]"
  "account_orders (by_account (eng_book demo_state)) (AccountId 8) = [OrderId 2, OrderId 4]"
  using demo_digest by (simp_all add: digest_def seq_no_def trade_no_def stream_def)

lemma demo_last_price: "last_trade_price (eng_risk demo_state) = Some (Price 101)"
  by code_simp

lemma demo_arrivals: "arrivals demo_state \<le> 5"
  using fifo.reachable_inv [OF demo_reachable] by simp

text \<open>One more command after the session.\<close>

lemma demo_next:
  assumes "inbound_ok msg"
  shows "\<exists>e. step fifo_api msg demo_state = Some e \<and> engine_inv (\<lambda>l. l) (\<lambda>_. True) e"
proof -
  have "\<exists>e. run_steps fifo_api (demo_msgs @ [msg]) demo_engine = Some e \<and> engine_inv (\<lambda>l. l) (\<lambda>_. True) e"
    by (rule demo_runs) (use assms demo_msgs_ok in simp_all)
  then show ?thesis using demo_run(1) by (auto simp: run_steps_append Option.bind_eq_Some_conv)
qed

text \<open>The last message of the session, and the session continued by an \<^verbatim>\<open>Ioc\<close> buyer that reuses the
  id of order 3, which still rests.\<close>

definition top_quote where
  "top_quote e =
     (case last (events (eng_sink e)) of Out_BookUpdateTop t \<Rightarrow> (bt_bid t, bt_ask t) | _ \<Rightarrow> (None, None))"

definition reject_reasons where
  "reject_reasons e =
     List.map_filter (\<lambda>m. case m of Out_ExecReport r \<Rightarrow> er_reject_reason r | _ \<Rightarrow> None) (events (eng_sink e))"

lemma demo_quote:
  "(top_quote demo_state, qty_at_level fifo_api (eng_book demo_state) Ask (Price 101)) =
     ((Some (Price 99, Qty 6), Some (Price 101, Qty 6)), 2)"
  by code_simp

lemma demo_duplicate:
  "map_option (\<lambda>e. (reject_reasons e, next_trade (eng_ids e), registry e (OrderId 3)))
     (run_steps fifo_api (demo_msgs @ [new_msg 3 11 Bid 101 1 Ioc]) demo_engine) =
   Some ([], 4, Some \<lparr>re_account_id = AccountId 9, re_side = Ask, re_qty = Qty 4, re_notional = 408\<rparr>)"
  by code_simp

end
