(* ===== verification/Demo_Server.thy ===== *)
theory Demo_Server
  imports Server_Inv Demo_Run
begin

text \<open>
  A short session of the server over reference channels and the reference queue, as the concrete
  input of the theorems about the process.
\<close>

interpretation live: live_server list_net snd fst lc_sent "\<lambda>r. r" fifo_api "\<lambda>l. l" "\<lambda>_. True"
  by (intro live_server.intro ln.network_axioms fifo.price_level_total_axioms)

section \<open>A short session of the server\<close>

text \<open>One client connects and sends an order and the beginning of the next command; the engine
  steps it, publishes its events, and the writer copies two of them.\<close>

definition demo_turns :: "turn list" where
  "demo_turns =
     [Accept 0, Read 0 (Rd (inbound_frame (new_msg 1 7 Ask 101 5 Gtc) @ [37, 0])), Forward, Engine_Turn,
      Publish_Turn, Publish_Turn, Publish_Turn, Write 0 Written, Write 0 Written]"

type_synonym demo_server_state = "(pl_order list, nat \<times> inbound list, list_channel, nat) server"

definition demo_boot :: demo_server_state where
  "demo_boot = server_new list_net (WallClock (\<lambda>n. 1000 + int n))"

definition demo_server :: demo_server_state where
  "demo_server = the (server_turns fifo_api list_net demo_turns demo_boot)"

definition demo_session :: "nat session" where
  "demo_session = the (sv_conns demo_server 0)"

definition server_digest where
  "server_digest s =
     (sv_done s, length (sv_log s), length (sv_published s),
      map_option (\<lambda>ss. (se_conn ss, se_from ss, length (se_out ss))) (sv_conns s 0))"

lemma demo_server_digest:
  "map_option server_digest (server_turns fifo_api list_net demo_turns demo_boot) =
     Some ([new_msg 1 7 Ask 101 5 Gtc], 1, 3, Some (Open [37, 0], 0, 114))"
  by code_simp

lemma demo_server_runs: "server_turns fifo_api list_net demo_turns demo_boot = Some demo_server"
  using demo_server_digest by (auto simp: demo_server_def)

lemma demo_serving: "serving fifo_api list_net demo_server"
  by (rule server_turns_serving [OF demo_server_runs]) (simp add: demo_boot_def serving.boot)

lemma demo_server_values:
  "sv_done demo_server = [new_msg 1 7 Ask 101 5 Gtc]" "length (sv_published demo_server) = 3"
  "sv_conns demo_server 0 = Some demo_session" "se_conn demo_session = Open [37, 0]"
  "se_from demo_session = 0" "length (se_out demo_session) = 114" "length (sv_log demo_server) = 1"
  using demo_server_digest by (auto simp: demo_server_runs server_digest_def demo_session_def)

end
