(* ===== verification/Timeless.thy ===== *)
theory Timeless
  imports Engine_Run
begin

text \<open>
  The engine does not look at the clock. Two engines that agree on everything but the clock and the
  timestamps of what they published stay so whatever command they step, which is what makes a replay
  meaningful: timestamps are the only thing a recording cannot reproduce.
\<close>

section \<open>Timestamps of events\<close>

fun zero_timestamps :: "outbound \<Rightarrow> outbound" where
  "zero_timestamps (Out_ExecReport r) = Out_ExecReport (r\<lparr>er_recv_ts := RecvTs 0, er_emit_ts := RecvTs 0\<rparr>)"
| "zero_timestamps (Out_TradePrint t) = Out_TradePrint (t\<lparr>tp_emit_ts := RecvTs 0\<rparr>)"
| "zero_timestamps (Out_BookUpdateTop b) = Out_BookUpdateTop (b\<lparr>bt_emit_ts := RecvTs 0\<rparr>)"
| "zero_timestamps (Out_BookUpdateL2Delta d) = Out_BookUpdateL2Delta (d\<lparr>bd_emit_ts := RecvTs 0\<rparr>)"
| "zero_timestamps (Out_SnapshotResponse s) =
     Out_SnapshotResponse (s\<lparr>sp_recv_ts := RecvTs 0, sp_emit_ts := RecvTs 0\<rparr>)"

lemma zero_timestamps_idem [simp]: "zero_timestamps (zero_timestamps m) = zero_timestamps m"
  by (cases m) simp_all

lemma outbound_seq_zero [simp]: "outbound_seq (zero_timestamps m) = outbound_seq m"
  by (cases m) simp_all

section \<open>Agreement up to time\<close>

definition timeless :: "'l engine \<Rightarrow> 'l engine \<Rightarrow> bool" where
  "timeless e e' \<longleftrightarrow>
     eng_book e' = eng_book e \<and> eng_risk e' = eng_risk e \<and> eng_ids e' = eng_ids e \<and>
     registry e' = registry e \<and> fills_buf e' = fills_buf e \<and> stp_buf e' = stp_buf e \<and>
     mass_buf e' = mass_buf e \<and> pre_step_levels e' = pre_step_levels e \<and>
     post_step_levels e' = post_step_levels e \<and>
     map zero_timestamps (stream e') = map zero_timestamps (stream e)"

abbreviation both :: "'l engine option \<Rightarrow> 'l engine option \<Rightarrow> bool" where
  "both \<equiv> rel_option timeless"

named_theorems timeless_intros \<open>how agreement up to time is kept\<close>

lemma timeless_refl [simp]: "timeless e e"
  by (simp add: timeless_def)

lemma timelessD:
  assumes "timeless e e'"
  shows "eng_book e' = eng_book e" "eng_risk e' = eng_risk e" "eng_ids e' = eng_ids e"
    "registry e' = registry e" "fills_buf e' = fills_buf e" "stp_buf e' = stp_buf e"
    "pre_step_levels e' = pre_step_levels e" "post_step_levels e' = post_step_levels e"
  using assms by (simp_all add: timeless_def)

lemma timeless_update [timeless_intros]:
  "timeless e e' \<Longrightarrow> timeless (e\<lparr>eng_book := b\<rparr>) (e'\<lparr>eng_book := b\<rparr>)"
  "timeless e e' \<Longrightarrow> timeless (e\<lparr>eng_risk := r\<rparr>) (e'\<lparr>eng_risk := r\<rparr>)"
  "timeless e e' \<Longrightarrow> timeless (e\<lparr>eng_ids := i\<rparr>) (e'\<lparr>eng_ids := i\<rparr>)"
  "timeless e e' \<Longrightarrow> timeless (e\<lparr>registry := g\<rparr>) (e'\<lparr>registry := g\<rparr>)"
  "timeless e e' \<Longrightarrow> timeless (e\<lparr>fills_buf := fs\<rparr>) (e'\<lparr>fills_buf := fs\<rparr>)"
  "timeless e e' \<Longrightarrow> timeless (e\<lparr>stp_buf := ss\<rparr>) (e'\<lparr>stp_buf := ss\<rparr>)"
  "timeless e e' \<Longrightarrow> timeless (e\<lparr>mass_buf := ms\<rparr>) (e'\<lparr>mass_buf := ms\<rparr>)"
  "timeless e e' \<Longrightarrow> timeless (e\<lparr>pre_step_levels := ls\<rparr>) (e'\<lparr>pre_step_levels := ls\<rparr>)"
  "timeless e e' \<Longrightarrow> timeless (e\<lparr>post_step_levels := ls\<rparr>) (e'\<lparr>post_step_levels := ls\<rparr>)"
  by (simp_all add: timeless_def stream_def)

lemma timeless_clock:
  "timeless (e\<lparr>eng_clock := c\<rparr>) e' = timeless e e'" "timeless e (e'\<lparr>eng_clock := c\<rparr>) = timeless e e'"
  "timeless (e\<lparr>eng_clock_reads := n\<rparr>) e' = timeless e e'" "timeless e (e'\<lparr>eng_clock_reads := n\<rparr>) = timeless e e'"
  by (simp_all add: timeless_def stream_def)

lemma both_bind [timeless_intros]:
  "both x y \<Longrightarrow> (\<And>e e'. x = Some e \<Longrightarrow> timeless e e' \<Longrightarrow> both (f e) (g e')) \<Longrightarrow>
   both (Option.bind x f) (Option.bind y g)"
  by (cases x; cases y) auto

text \<open>A computation that does not involve the engine, the matching core above all.\<close>

lemma both_core: "(\<And>x. both (f x) (g x)) \<Longrightarrow> both (Option.bind m f) (Option.bind m g)"
  by (cases m) auto

lemma both_Some [timeless_intros]: "timeless e e' \<Longrightarrow> both (Some e) (Some e')"
  by simp

lemma timeless_unregister [timeless_intros]: "timeless e e' \<Longrightarrow> timeless (unregister oid e) (unregister oid e')"
  by (simp add: unregister_def timelessD timeless_intros split: option.split)

lemma timeless_settle [timeless_intros]: "timeless e e' \<Longrightarrow> timeless (settle_maker f e) (settle_maker f e')"
  by (simp add: settle_maker_def timelessD timeless_intros Let_def split: option.split)

section \<open>Publishing\<close>

lemma publish_both:
  assumes "timeless e e'" "\<And>s n n'. zero_timestamps (mk s n) = zero_timestamps (mk' s n')"
  shows "both (publish mk e) (publish mk' e')"
proof (cases "next_engine_seq (eng_ids e)")
  case None
  then show ?thesis using timelessD(3) [OF assms(1)] by (simp add: publish_def next_seq_def)
next
  case (Some r)
  obtain s ids' where r: "r = (s, ids')" by (cases r)
  show ?thesis
    using Some r assms(1) assms(2) [of s "eng_clock e (eng_clock_reads e)" "eng_clock e' (eng_clock_reads e')"]
    by (simp add: publish_def next_seq_def clock_now_def timeless_def stream_def VecSink_emit_def)
qed

lemma emit_both [timeless_intros]:
  assumes "timeless e e'"
  shows "both (emit_rejected oid a reason recv e) (emit_rejected oid a reason recv' e')"
    "both (emit_rejected_mass a reason recv e) (emit_rejected_mass a reason recv' e')"
    "both (emit_exec_report_accepted oid a q recv e) (emit_exec_report_accepted oid a q recv' e')"
    "both (emit_exec_report_cancelled oid a cr recv e) (emit_exec_report_cancelled oid a cr recv' e')"
    "both (emit_exec_report_replaced oid a q recv e) (emit_exec_report_replaced oid a q recv' e')"
    "both (emit_exec_report_fill oid a st p q leaves recv e) (emit_exec_report_fill oid a st p q leaves recv' e')"
    "both (emit_trade_print_for_fill f s recv e) (emit_trade_print_for_fill f s recv' e')"
    "both (emit_l2_delta s p n recv e) (emit_l2_delta s p n recv' e')"
    "both (emit_book_update_top api recv e) (emit_book_update_top api recv' e')"
    "both (handle_snapshot_request api sr recv e) (handle_snapshot_request api sr recv' e')"
  using assms
  by (auto simp: emit_defs emit_rejected_mass_eq timelessD intro!: publish_both)

section \<open>Handlers\<close>

lemma emit_l2_merge_both [timeless_intros]:
  "timeless e e' \<Longrightarrow> both (emit_l2_merge pre post recv e) (emit_l2_merge pre post recv' e')"
  by (induction pre post recv e arbitrary: e' rule: emit_l2_merge.induct)
    (auto intro!: timeless_intros)

lemma emit_fill_both [timeless_intros]:
  assumes "timeless e e'"
  shows "both (emit_fill t a recv r f e) (emit_fill t a recv' r f e')"
  unfolding emit_fill_def Let_def
  by (intro both_bind emit_both assms; simp add: timelessD timeless_intros; intro both_bind emit_both;
      auto intro!: timeless_intros)

lemma emit_fills_loop_both [timeless_intros]:
  "timeless e e' \<Longrightarrow> both (emit_fills_loop t a recv r fs e) (emit_fills_loop t a recv' r fs e')"
  by (induction fs arbitrary: r e e') (auto simp: Let_def intro!: timeless_intros)

lemma emit_stp_loop_both [timeless_intros]:
  "timeless e e' \<Longrightarrow> both (emit_stp_loop recv cs e) (emit_stp_loop recv' cs e')"
  by (induction cs arbitrary: e e') (auto intro!: timeless_intros)

lemma emit_mass_loop_both [timeless_intros]:
  "timeless e e' \<Longrightarrow> both (emit_mass_loop recv cs e) (emit_mass_loop recv' cs e')"
  by (induction cs arbitrary: e e') (auto intro!: timeless_intros)

lemma emit_buffers_both [timeless_intros]:
  "timeless e e' \<Longrightarrow> both (emit_fills_for_taker t a q recv e) (emit_fills_for_taker t a q recv' e')"
  "timeless e e' \<Longrightarrow> both (emit_stp_cancels recv e) (emit_stp_cancels recv' e')"
  by (simp_all add: emit_fills_for_taker_def emit_stp_cancels_def timelessD timeless_intros)

lemma rest_new_order_both [timeless_intros]:
  "timeless e e' \<Longrightarrow> both (rest_new_order api msg p q recv e) (rest_new_order api msg p q recv' e')"
  by (auto simp: rest_new_order_def timelessD Let_def split: prod.split sum.split intro!: timeless_intros)

lemma dispose_new_order_both [timeless_intros]:
  "timeless e e' \<Longrightarrow> both (dispose_new_order api msg res recv e) (dispose_new_order api msg res recv' e')"
  by (auto simp: dispose_new_order_def split: option.split tif.split intro!: timeless_intros)

lemma dispose_replace_both [timeless_intros]:
  "timeless e e' \<Longrightarrow> both (dispose_replace api msg old mr recv e) (dispose_replace api msg old mr recv' e')"
  by (auto simp: dispose_replace_def timelessD Let_def split: prod.split sum.split option.split
      intro!: timeless_intros)

lemma commit_replace_both [timeless_intros]:
  "timeless e e' \<Longrightarrow> both (commit_replace api msg old mr recv e) (commit_replace api msg old mr recv' e')"
  unfolding commit_replace_def Let_def
  by (cases old) (auto simp: timelessD intro!: timeless_intros)

lemma handle_new_order_both [timeless_intros]:
  "timeless e e' \<Longrightarrow> both (handle_new_order api msg recv e) (handle_new_order api msg recv' e')"
  unfolding handle_new_order_def Let_def
  by (auto simp: timelessD split: sum.split intro!: both_core timeless_intros)

lemma handle_cancel_order_both [timeless_intros]:
  "timeless e e' \<Longrightarrow> both (handle_cancel_order api msg recv e) (handle_cancel_order api msg recv' e')"
  by (auto simp: handle_cancel_order_def timelessD split: sum.split prod.split option.split intro!: timeless_intros)

lemma conclude_replace_both [timeless_intros]:
  "timeless e e' \<Longrightarrow> both (conclude_replace api msg old res recv e) (conclude_replace api msg old res recv' e')"
  by (auto simp: conclude_replace_def split: sum.split intro!: timeless_intros)

lemma handle_cancel_replace_both [timeless_intros]:
  "timeless e e' \<Longrightarrow> both (handle_cancel_replace api msg recv e) (handle_cancel_replace api msg recv' e')"
  unfolding handle_cancel_replace_def Let_def
  by (auto simp: timelessD split: sum.split intro!: both_core timeless_intros)

lemma handle_mass_cancel_both [timeless_intros]:
  "timeless e e' \<Longrightarrow> both (handle_mass_cancel api msg recv e) (handle_mass_cancel api msg recv' e')"
  by (auto simp: handle_mass_cancel_def timelessD split: sum.split prod.split intro!: timeless_intros)

lemma dispatch_both [timeless_intros]:
  "timeless e e' \<Longrightarrow> both (dispatch api msg recv e) (dispatch api msg recv' e')"
  by (cases msg)
    (auto simp: handle_kill_switch_def timelessD Let_def intro!: timeless_intros)

lemma emit_tail_both [timeless_intros]:
  "timeless e e' \<Longrightarrow> both (emit_tail api recv e) (emit_tail api recv' e')"
  by (auto simp: emit_tail_def emit_l2_deltas_def capture_post_step_levels_def timelessD intro!: timeless_intros)

section \<open>Steps and runs\<close>

lemma step_both [timeless_intros]:
  assumes "timeless e e'"
  shows "both (step api msg e) (step api msg e')"
  using assms
  by (auto simp: step_def clock_now_def capture_pre_step_levels_def timelessD timeless_clock Let_def
      intro!: timeless_intros)

lemma run_steps_both: "timeless e e' \<Longrightarrow> both (run_steps api msgs e) (run_steps api msgs e')"
  by (induction msgs arbitrary: e e') (auto intro!: timeless_intros)

end
