(* ===== verification/Recorder.thy ===== *)
theory Recorder
  imports Wire
begin

text \<open>
  The ingress recorder (\<^verbatim>\<open>gateway/src/recorder.rs\<close>). \<^verbatim>\<open>Recorder\<close> appends records to a file through
  \<^verbatim>\<open>std::io::BufWriter\<close>, whose buffering is written out; the file behind it is the argument
  \<open>os_write\<close> with the law of locale \<open>append_file\<close>. \<^verbatim>\<open>read_records\<close> is the loop over a cursor.
\<close>

section \<open>Files and buffered writers\<close>

datatype io_error = IO_InvalidData | IO_Os nat

text \<open>\<^verbatim>\<open>write_all\<close> on a file opened for appending: the outcome and the content afterwards.\<close>

type_synonym os_write = "u8 list \<Rightarrow> u8 list \<Rightarrow> (io_error + unit) \<times> u8 list"

record recorder =
  on_disk :: "u8 list"
  buffered :: "u8 list"

definition DEFAULT_BUF_SIZE :: nat where "DEFAULT_BUF_SIZE = 8192"

definition flush_buf :: "os_write \<Rightarrow> recorder \<Rightarrow> (io_error + unit) \<times> recorder" where
  "flush_buf os_write r =
     (case os_write (on_disk r) (buffered r) of
        (res, disk') \<Rightarrow>
          (res, r\<lparr>on_disk := disk', buffered := drop (length disk' - length (on_disk r)) (buffered r)\<rparr>))"

definition buf_write_all :: "os_write \<Rightarrow> u8 list \<Rightarrow> recorder \<Rightarrow> (io_error + unit) \<times> recorder" where
  "buf_write_all os_write bs r =
     (if length bs < DEFAULT_BUF_SIZE - length (buffered r)
      then (Inr (), r\<lparr>buffered := buffered r @ bs\<rparr>)
      else case (if length bs > DEFAULT_BUF_SIZE - length (buffered r) then flush_buf os_write r
                 else (Inr (), r)) of
        (Inl e, r1) \<Rightarrow> (Inl e, r1)
      | (Inr _, r1) \<Rightarrow>
          if length bs \<ge> DEFAULT_BUF_SIZE
          then (case os_write (on_disk r1) bs of (res, disk') \<Rightarrow> (res, r1\<lparr>on_disk := disk'\<rparr>))
          else (Inr (), r1\<lparr>buffered := buffered r1 @ bs\<rparr>))"

section \<open>Recording\<close>

definition RECV_TS_BYTES :: nat where "RECV_TS_BYTES = 8"

definition Recorder_open :: "u8 list \<Rightarrow> recorder" where
  "Recorder_open content = \<lparr>on_disk = content, buffered = []\<rparr>"

definition Recorder_record ::
  "os_write \<Rightarrow> u8 list \<Rightarrow> recv_ts \<Rightarrow> recorder \<Rightarrow> (io_error + unit) \<times> recorder" where
  "Recorder_record os_write frame ts r =
     (case buf_write_all os_write frame r of
        (Inl e, r1) \<Rightarrow> (Inl e, r1)
      | (Inr _, r1) \<Rightarrow> buf_write_all os_write (to_le_bytes (recv_nanos ts)) r1)"

definition Recorder_flush :: "os_write \<Rightarrow> recorder \<Rightarrow> (io_error + unit) \<times> recorder" where
  "Recorder_flush os_write r = flush_buf os_write r"

definition Recorder_drop :: "os_write \<Rightarrow> recorder \<Rightarrow> recorder" where
  "Recorder_drop os_write r = snd (Recorder_flush os_write r)"

section \<open>Reading back\<close>

record rec_entry =
  rc_frame :: "u8 list"
  rc_recv_ts :: recv_ts

function read_loop ::
  "u8 list \<Rightarrow> nat \<Rightarrow> rec_entry list \<Rightarrow> io_error + rec_entry list \<times> nat" where
  "read_loop bytes cursor records =
     (if cursor < length bytes then
        if length bytes - cursor < 4 then Inr (records, cursor)
        else let frame_len = unat (from_le_bytes (take 4 (drop cursor bytes)) :: u32) in
          if frame_len < 1 then Inl IO_InvalidData
          else let total = 4 + frame_len + RECV_TS_BYTES in
            if length bytes - cursor < total then Inr (records, cursor)
            else read_loop bytes (cursor + total)
                   (records @ [\<lparr>rc_frame = take (4 + frame_len) (drop cursor bytes),
                                rc_recv_ts = RecvTs (from_le_bytes
                                  (take 8 (drop (cursor + 4 + frame_len) bytes)))\<rparr>])
      else Inr (records, cursor))"
  by pat_completeness auto
termination
  by (relation "measure (\<lambda>(bytes, cursor, _). length bytes - cursor)") (auto simp: RECV_TS_BYTES_def)

declare read_loop.simps [simp del]

definition read_records :: "u8 list \<Rightarrow> io_error + rec_entry list \<times> nat" where
  "read_records bytes =
     rmap (\<lambda>(records, cursor). (records, length bytes - cursor)) (read_loop bytes 0 [])"

section \<open>What a record looks like\<close>

text \<open>The frame bytes as they arrived: a length prefix that counts the rest, which is not empty.\<close>

definition framed :: "u8 list \<Rightarrow> bool" where
  "framed f \<longleftrightarrow> 5 \<le> length f \<and> length f = 4 + unat (from_le_bytes (take 4 f) :: u32)"

definition rec_bytes :: "rec_entry \<Rightarrow> u8 list" where
  "rec_bytes r = rc_frame r @ to_le_bytes (recv_nanos (rc_recv_ts r))"

definition recording :: "rec_entry list \<Rightarrow> u8 list" where
  "recording rs = concat (map rec_bytes rs)"

lemma recording_simps [simp]:
  "recording [] = []" "recording (r # rs) = rec_bytes r @ recording rs"
  "recording (rs @ rs') = recording rs @ recording rs'"
  by (simp_all add: recording_def)

lemma length_rec_bytes [simp]: "length (rec_bytes r) = length (rc_frame r) + 8"
  by (simp add: rec_bytes_def)

text \<open>The loop reads one record and goes on behind it.\<close>

lemma read_loop_record:
  assumes "framed (rc_frame r)"
  shows "read_loop (pre @ rec_bytes r @ rest) (length pre) acc =
    read_loop (pre @ rec_bytes r @ rest) (length (pre @ rec_bytes r)) (acc @ [r])"
proof -
  let ?f = "rc_frame r" and ?ts = "to_le_bytes (recv_nanos (rc_recv_ts r))"
  have len: "unat (from_le_bytes (take 4 ?f) :: u32) = length ?f - 4" "5 \<le> length ?f"
    using assms by (simp_all add: framed_def)
  have entry: "\<lparr>rc_frame = ?f, rc_recv_ts = rc_recv_ts r\<rparr> = r" by simp
  show ?thesis
    using len
    by (subst read_loop.simps)
      (simp add: rec_bytes_def RECV_TS_BYTES_def Let_def entry)
qed

lemma read_loop_records:
  assumes "list_all (\<lambda>r. framed (rc_frame r)) rs"
  shows "read_loop (pre @ recording rs @ rest) (length pre) acc =
    read_loop (pre @ recording rs @ rest) (length (pre @ recording rs)) (acc @ rs)"
  using assms
proof (induction rs arbitrary: pre acc)
  case (Cons r rs)
  then show ?case
    using read_loop_record [of r pre "recording rs @ rest" acc] Cons.IH [of "pre @ rec_bytes r" "acc @ [r]"]
    by simp
qed simp

text \<open>A record cut short by the end of the file stops the loop in front of it.\<close>

lemma read_loop_cut:
  assumes "framed (rc_frame r)" "strict_prefix part (rec_bytes r)"
  shows "read_loop (pre @ part) (length pre) acc = Inr (acc, length pre)"
proof (cases "length part < 4")
  case True
  then show ?thesis by (subst read_loop.simps) simp
next
  case False
  obtain more where more: "rec_bytes r = part @ more" "more \<noteq> []"
    using assms(2) by (auto elim: strict_prefixE')
  have "take 4 part = take 4 (rec_bytes r)" using False by (simp add: more)
  also have "\<dots> = take 4 (rc_frame r)" using assms(1) by (simp add: rec_bytes_def framed_def)
  finally have len: "unat (from_le_bytes (take 4 part) :: u32) = length (rc_frame r) - 4"
    "5 \<le> length (rc_frame r)" using assms(1) by (simp_all add: framed_def)
  have "length part < length (rc_frame r) + 8"
    using prefix_length_less [OF assms(2)] by simp
  then show ?thesis
    using False len by (subst read_loop.simps) (simp add: RECV_TS_BYTES_def Let_def)
qed

lemma read_records_prefix:
  assumes "list_all (\<lambda>r. framed (rc_frame r)) rs" "prefix bs (recording rs)"
  shows "\<exists>k part. k \<le> length rs \<and> bs = recording (take k rs) @ part \<and>
    (if k < length rs then strict_prefix part (rec_bytes (rs ! k)) else part = []) \<and>
    read_records bs = Inr (take k rs, length part) \<and> (bs = recording rs \<longrightarrow> k = length rs)"
proof -
  obtain k part where k: "k \<le> length rs" "bs = recording (take k rs) @ part"
      "if k < length rs then strict_prefix part (rec_bytes (rs ! k)) else part = []"
    using concat_map_prefix [OF assms(2) [unfolded recording_def]] by (auto simp: recording_def)
  have fr: "list_all (\<lambda>r. framed (rc_frame r)) (take k rs)"
    using assms(1) by (auto simp: list_all_iff dest: in_set_takeD)
  have "read_loop bs 0 [] = read_loop bs (length (recording (take k rs))) (take k rs)"
    using read_loop_records [OF fr, of "[]" part "[]"] by (simp add: k(2))
  also have "\<dots> = Inr (take k rs, length (recording (take k rs)))"
  proof (cases "k < length rs")
    case True
    then have "framed (rc_frame (rs ! k))" "strict_prefix part (rec_bytes (rs ! k))"
      using assms(1) k(3) by (auto simp: list_all_length)
    then show ?thesis using read_loop_cut [of "rs ! k" part "recording (take k rs)"] by (simp add: k(2))
  next
    case False
    then show ?thesis using k by (subst read_loop.simps) simp
  qed
  finally have "read_records bs = Inr (take k rs, length part)" by (simp add: read_records_def k(2))
  moreover have "k = length rs" if "bs = recording rs"
  proof (rule ccontr)
    assume "k \<noteq> length rs"
    then have "k < length rs" using k(1) by simp
    then have "recording rs = recording (take k rs) @ rec_bytes (rs ! k) @ recording (drop (Suc k) rs)"
      by (metis id_take_nth_drop recording_simps(2,3))
    moreover have "length part < length (rec_bytes (rs ! k))"
      by (rule prefix_length_less) (use k(3) \<open>k < length rs\<close> in simp)
    ultimately show False using that k(2) by simp
  qed
  ultimately show ?thesis using k by (intro exI [of _ k] exI [of _ part]) blast
qed

lemma read_records_recording:
  assumes "list_all (\<lambda>r. framed (rc_frame r)) rs"
  shows "read_records (recording rs) = Inr (rs, 0)"
proof -
  obtain k part where k: "if k < length rs then strict_prefix part (rec_bytes (rs ! k)) else part = []"
      "read_records (recording rs) = Inr (take k rs, length part)" "recording rs = recording rs \<longrightarrow> k = length rs"
    using read_records_prefix [OF assms prefix_order.refl] by metis
  then have "k = length rs" by (simp only: refl)
  then show ?thesis using k(1,2) by (simp only: less_irrefl if_False take_all order_refl list.size)
qed

section \<open>The file behind the writer\<close>

text \<open>What was accepted is on disk or in the buffer, in order.\<close>

definition accepted :: "recorder \<Rightarrow> u8 list" where
  "accepted r = on_disk r @ buffered r"

text \<open>What the recorder relies on of a file opened with \<^verbatim>\<open>append(true)\<close>: a write appends a prefix of
  the data, all of it when it succeeds, and never touches what is there.\<close>

locale append_file =
  fixes os_write :: os_write
  assumes os_write_appends:
    "os_write disk bs = (res, disk') \<Longrightarrow>
       \<exists>k \<le> length bs. disk' = disk @ take k bs \<and> (res = Inr () \<longrightarrow> k = length bs)"
begin

lemma flush_buf_accepted:
  assumes "flush_buf os_write r = (res, r')"
  shows "accepted r' = accepted r" "res = Inr () \<Longrightarrow> buffered r' = []"
proof -
  obtain disk' where w: "os_write (on_disk r) (buffered r) = (res, disk')"
    using assms by (auto simp: flush_buf_def split: prod.splits)
  obtain k where k: "k \<le> length (buffered r)" "disk' = on_disk r @ take k (buffered r)"
      "res = Inr () \<longrightarrow> k = length (buffered r)"
    using os_write_appends [OF w] by blast
  have r': "r' = r\<lparr>on_disk := disk', buffered := drop (length disk' - length (on_disk r)) (buffered r)\<rparr>"
    using assms w by (simp add: flush_buf_def)
  show "accepted r' = accepted r" "res = Inr () \<Longrightarrow> buffered r' = []"
    using k by (auto simp: accepted_def r' min_def)
qed

lemma buf_write_all_accepted:
  assumes "buf_write_all os_write bs r = (Inr u, r')"
  shows "accepted r' = accepted r @ bs"
proof (cases "length bs < DEFAULT_BUF_SIZE - length (buffered r)")
  case True
  then show ?thesis using assms by (auto simp: buf_write_all_def accepted_def)
next
  case False
  define r1 where "r1 = (if length bs > DEFAULT_BUF_SIZE - length (buffered r) then snd (flush_buf os_write r) else r)"
  have acc: "accepted r1 = accepted r" "length bs > DEFAULT_BUF_SIZE - length (buffered r) \<Longrightarrow> buffered r1 = []"
    using assms False flush_buf_accepted [of r]
    by (auto simp: r1_def buf_write_all_def split: if_splits prod.splits sum.splits)
  show ?thesis
  proof (cases "length bs \<ge> DEFAULT_BUF_SIZE")
    case True
    then have big: "os_write (on_disk r1) bs = (Inr u, on_disk r')" "buffered r' = buffered r1"
      using assms False by (auto simp: r1_def buf_write_all_def split: if_splits prod.splits sum.splits)
    have "buffered r1 = []"
      using acc(2) False True
      by (cases "buffered r") (auto simp: r1_def DEFAULT_BUF_SIZE_def split: if_splits)
    then show ?thesis using os_write_appends [OF big(1)] big(2) acc(1) by (auto simp: accepted_def)
  next
    case small: False
    then have "r' = r1\<lparr>buffered := buffered r1 @ bs\<rparr>"
      using assms False by (auto simp: r1_def buf_write_all_def split: if_splits prod.splits sum.splits)
    then show ?thesis using acc(1) by (simp add: accepted_def)
  qed
qed

lemma record_accepted:
  assumes "Recorder_record os_write (rc_frame x) (rc_recv_ts x) r = (Inr u, r')"
  shows "accepted r' = accepted r @ rec_bytes x"
proof -
  obtain u1 r1 where "buf_write_all os_write (rc_frame x) r = (Inr u1, r1)"
      "buf_write_all os_write (to_le_bytes (recv_nanos (rc_recv_ts x))) r1 = (Inr u, r')"
    using assms by (auto simp: Recorder_record_def split: prod.splits sum.splits)
  then show ?thesis using buf_write_all_accepted by (simp add: rec_bytes_def)
qed

end

text \<open>Recording a list of entries one after the other, stopping at the first I/O error.\<close>

fun record_all :: "os_write \<Rightarrow> rec_entry list \<Rightarrow> recorder \<Rightarrow> (io_error + unit) \<times> recorder" where
  "record_all os_write [] r = (Inr (), r)"
| "record_all os_write (x # xs) r =
     (case Recorder_record os_write (rc_frame x) (rc_recv_ts x) r of
        (Inl e, r1) \<Rightarrow> (Inl e, r1)
      | (Inr _, r1) \<Rightarrow> record_all os_write xs r1)"

context append_file
begin

lemma record_all_accepted:
  "record_all os_write xs r = (Inr u, r') \<Longrightarrow> accepted r' = accepted r @ recording xs"
proof (induction xs arbitrary: r)
  case (Cons x xs)
  then obtain u1 r1 where "Recorder_record os_write (rc_frame x) (rc_recv_ts x) r = (Inr u1, r1)"
      "record_all os_write xs r1 = (Inr u, r')"
    by (auto split: prod.splits sum.splits)
  then show ?case using record_accepted Cons.IH by simp
qed simp

text \<open>At any moment after successful appends the file holds a prefix of the recording.\<close>

lemma crash_prefix:
  assumes "record_all os_write xs (Recorder_open []) = (Inr u, r')"
  shows "prefix (on_disk r') (recording xs)"
proof -
  have "on_disk r' @ buffered r' = recording xs"
    using record_all_accepted [OF assms] by (simp add: accepted_def Recorder_open_def)
  then show ?thesis by (metis prefixI)
qed

lemma flush_complete:
  assumes "record_all os_write xs (Recorder_open []) = (Inr u, r1)" "Recorder_flush os_write r1 = (Inr v, r')"
  shows "on_disk r' = recording xs"
  using record_all_accepted [OF assms(1)] flush_buf_accepted [of r1 "Inr v" r'] assms(2)
  by (simp add: accepted_def Recorder_open_def Recorder_flush_def)

end

text \<open>A disk that never fails satisfies the contract.\<close>

definition plain_file :: os_write where
  "plain_file disk bs = (Inr (), disk @ bs)"

interpretation plain: append_file plain_file
  by unfold_locales (auto simp: plain_file_def)

end
