(* ===== verification/Replay.thy ===== *)
theory Replay
  imports Timeless Recorder Session
begin

text \<open>
  Deterministic replay (\<^verbatim>\<open>engine/src/bin/replay.rs\<close>): read a recording, step a fresh engine under a
  \<^verbatim>\<open>StubClock\<close> set to each recorded time, encode what it published. The file system is the pair of
  arguments \<open>fs_read\<close> and \<open>fs_write\<close>. Outer \<open>None\<close> is a panic of the engine or of the snapshot encoder.
\<close>

section \<open>\<^verbatim>\<open>replay_bytes\<close>\<close>

datatype replay_failure = RF_Io io_error | RF_Wire wire_error

fun replay_loop :: "'l pl_api \<Rightarrow> rec_entry list \<Rightarrow> 'l engine \<Rightarrow> (replay_failure + 'l engine) option" where
  "replay_loop api [] e = Some (Inr e)"
| "replay_loop api (rc # recs) e0 =
     (let e = e0\<lparr>eng_clock := StubClock_set (recv_nanos (rc_recv_ts rc)) (eng_clock e0)\<rparr>
      in case frame_parse (rc_frame rc) of
           Inl err \<Rightarrow> Some (Inl (RF_Wire err))
         | Inr (frame, consumed) \<Rightarrow>
             (case inbound_parse_frame frame of
                Inl err \<Rightarrow> Some (Inl (RF_Wire err))
              | Inr inbound \<Rightarrow>
                  (case step api inbound e of
                     None \<Rightarrow> None
                   | Some e' \<Rightarrow> replay_loop api recs e')))"

fun encode_events :: "bool \<Rightarrow> outbound list \<Rightarrow> u8 list \<Rightarrow> (replay_failure + u8 list) option" where
  "encode_events no_timestamps [] out = Some (Inr out)"
| "encode_events no_timestamps (ev # evs) out =
     (case md_encode (if no_timestamps then zero_timestamps ev else ev) out of
        None \<Rightarrow> None
      | Some (Inl err) \<Rightarrow> Some (Inl (RF_Wire err))
      | Some (Inr out') \<Rightarrow> encode_events no_timestamps evs out')"

definition replay_bytes :: "'l pl_api \<Rightarrow> u8 list \<Rightarrow> bool \<Rightarrow> (replay_failure + u8 list) option" where
  "replay_bytes api bytes no_timestamps =
     (case read_records bytes of
        Inl e \<Rightarrow> Some (Inl (RF_Io e))
      | Inr (records, trailing) \<Rightarrow>
          (case replay_loop api records (Engine_new (StubClock_new 0) CounterIdGenerator_new VecSink_new) of
             None \<Rightarrow> None
           | Some (Inl err) \<Rightarrow> Some (Inl err)
           | Some (Inr e) \<Rightarrow> encode_events no_timestamps (fst (VecSink_take (eng_sink e))) []))"

section \<open>The command line\<close>

datatype replay_error = RE_Usage | RE_Io io_error | RE_Decode replay_failure

definition replay_run ::
  "'l pl_api \<Rightarrow> ('fs \<Rightarrow> string \<Rightarrow> io_error + u8 list) \<Rightarrow> ('fs \<Rightarrow> string \<Rightarrow> u8 list \<Rightarrow> io_error + 'fs) \<Rightarrow>
   string list \<Rightarrow> 'fs \<Rightarrow> (replay_error + 'fs) option" where
  "replay_run api fs_read fs_write args fs =
     (if length args < 3 then Some (Inl RE_Usage)
      else let inbound_path = args ! 1; outbound_path = args ! 2;
               no_timestamps = list_ex (\<lambda>a. a = ''--no-timestamps'') args
        in case fs_read fs inbound_path of
             Inl e \<Rightarrow> Some (Inl (RE_Io e))
           | Inr bytes \<Rightarrow>
               (case replay_bytes api bytes no_timestamps of
                  None \<Rightarrow> None
                | Some (Inl err) \<Rightarrow> Some (Inl (RE_Decode err))
                | Some (Inr outbound_bytes) \<Rightarrow>
                    Some (map_err RE_Io (fs_write fs outbound_path outbound_bytes))))"

fun replay_exit :: "replay_error + 'fs \<Rightarrow> nat" where
  "replay_exit (Inr _) = 0"
| "replay_exit (Inl RE_Usage) = 2"
| "replay_exit (Inl (RE_Io _)) = 2"
| "replay_exit (Inl (RE_Decode _)) = 3"

section \<open>Recordings of commands\<close>

text \<open>A recording made of the frames of valid commands, with whatever times.\<close>

definition records_of :: "inbound list \<Rightarrow> rec_entry list \<Rightarrow> bool" where
  "records_of msgs recs \<longleftrightarrow> map rc_frame recs = map inbound_frame msgs \<and> list_all inbound_ok msgs"

lemma records_of_Nil [simp]: "records_of [] recs \<longleftrightarrow> recs = []"
  by (auto simp: records_of_def)

lemma records_of_Cons:
  "records_of (m # msgs) recs \<longleftrightarrow>
   (\<exists>rc recs'. recs = rc # recs' \<and> rc_frame rc = inbound_frame m \<and> inbound_ok m \<and> records_of msgs recs')"
  by (cases recs) (auto simp: records_of_def)

lemma records_of_take: "records_of msgs recs \<Longrightarrow> records_of (take k msgs) (take k recs)"
  by (auto simp: records_of_def list_all_iff simp flip: take_map dest: in_set_takeD)

lemma inbound_frame_framed: "framed (inbound_frame m)"
proof -
  have "unat (from_le_bytes (take 4 (inbound_frame m)) :: u32) = 1 + length (inbound_payload m)"
    by (rule frame_prefix_len [of _ _ "inbound_kind m"])
      (use inbound_payload_short [of m] in \<open>simp_all add: inbound_frame_def u32_max_def\<close>)
  then show ?thesis by (simp add: framed_def inbound_frame_def)
qed

lemma records_of_framed: "records_of msgs recs \<Longrightarrow> list_all (\<lambda>r. framed (rc_frame r)) recs"
proof (induction msgs arbitrary: recs)
  case (Cons m msgs)
  then show ?case by (auto simp: records_of_Cons inbound_frame_framed)
qed simp

lemma frame_parse_inbound:
  assumes "inbound_ok m"
  shows "\<exists>frame. frame_parse (inbound_frame m) = Inr (frame, length (inbound_frame m)) \<and> inbound_parse_frame frame = Inr m"
proof -
  have len: "1 + length (inbound_payload m) \<le> u32_max" using inbound_payload_short [of m] by (simp add: u32_max_def)
  have "frame_parse (inbound_frame m) =
      Inr (\<lparr>fr_kind = inbound_kind m, fr_payload = inbound_payload m\<rparr>, length (inbound_frame m))"
    using parse_or_skip_framed [OF len, of "kind_as_u8 (inbound_kind m)" "[]"]
    by (simp add: frame_parse_def inbound_frame_def frame_bytes_def kind_enum.try_from_as_u8)
  then show ?thesis using inbound_parse_frame_encode [OF assms] by blast
qed

section \<open>The replayed engine\<close>

text \<open>The loop steps the recorded commands; the clock settings in between do not show.\<close>

lemma replay_loop_run:
  assumes "records_of msgs recs" "timeless e e0" "run_steps api msgs e = Some e'"
  shows "\<exists>e1. replay_loop api recs e0 = Some (Inr e1) \<and> timeless e' e1"
  using assms
proof (induction msgs arbitrary: recs e e0)
  case (Cons m msgs)
  obtain rc recs' where rc: "recs = rc # recs'" "rc_frame rc = inbound_frame m" "inbound_ok m" "records_of msgs recs'"
    using Cons.prems(1) by (auto simp: records_of_Cons)
  obtain frame where fr: "frame_parse (rc_frame rc) = Inr (frame, length (inbound_frame m))"
      "inbound_parse_frame frame = Inr m"
    using frame_parse_inbound [OF rc(3)] rc(2) by auto
  obtain e2 where e2: "step api m e = Some e2" "run_steps api msgs e2 = Some e'"
    using Cons.prems(3) by (auto simp: Option.bind_eq_Some_conv)
  let ?e0 = "e0\<lparr>eng_clock := StubClock_set (recv_nanos (rc_recv_ts rc)) (eng_clock e0)\<rparr>"
  have "timeless e ?e0" using Cons.prems(2) by (simp add: timeless_clock)
  then have "both (Some e2) (step api m ?e0)" using step_both e2(1) by metis
  then obtain e3 where e3: "step api m ?e0 = Some e3" "timeless e2 e3" by (cases "step api m ?e0") auto
  show ?case using Cons.IH [OF rc(4) e3(2) e2(2)] fr e3(1) by (simp add: rc(1) Let_def)
qed simp

lemma md_encode_app:
  assumes "md_encode m [] = Some (Inr bs)"
  shows "md_encode m out = Some (Inr (out @ bs))"
proof -
  obtain payload kind where p: "outbound_payload m = Some (payload, kind)" "frame_write kind payload [] = Inr bs"
    using assms by (auto simp: md_encode_def split: option.splits)
  then show ?thesis
    using frame_write_Inr [OF p(2)] frame_write_bytes [of payload kind out] by (simp add: md_encode_def)
qed

lemma encode_events_bytes:
  assumes "list_all (\<lambda>ev. \<exists>bs. md_encode (zero_timestamps ev) [] = Some (Inr bs)) evs"
  shows "encode_events True evs out = Some (Inr (out @ concat (map (event_bytes \<circ> zero_timestamps) evs)))"
  using assms
proof (induction evs arbitrary: out)
  case (Cons ev evs)
  then obtain bs where bs: "md_encode (zero_timestamps ev) [] = Some (Inr bs)" by auto
  then show ?case using Cons md_encode_app [OF bs] by (simp add: event_bytes_def)
qed simp

lemma replay_recording:
  assumes "records_of msgs recs" "prefix bytes (recording recs)"
    and "run_steps api msgs (Engine_new c CounterIdGenerator_new VecSink_new) = Some e"
    and "list_all (\<lambda>ev. \<exists>bs. md_encode (zero_timestamps ev) [] = Some (Inr bs)) (stream e)"
  shows "\<exists>k live. k \<le> length msgs \<and> (bytes = recording recs \<longrightarrow> k = length msgs) \<and>
    run_steps api (take k msgs) (Engine_new c CounterIdGenerator_new VecSink_new) = Some live \<and>
    prefix (stream live) (stream e) \<and>
    replay_bytes api bytes True = Some (Inr (concat (map (event_bytes \<circ> zero_timestamps) (stream live))))"
proof -
  let ?e0 = "Engine_new c CounterIdGenerator_new VecSink_new"
  have len: "length recs = length msgs" using assms(1) by (auto simp: records_of_def dest: map_eq_imp_length_eq)
  obtain k part where k: "k \<le> length recs" "bytes = recording (take k recs) @ part"
      "if k < length recs then strict_prefix part (rec_bytes (recs ! k)) else part = []"
      "read_records bytes = Inr (take k recs, length part)" "bytes = recording recs \<longrightarrow> k = length recs"
    using read_records_prefix [OF records_of_framed [OF assms(1)] assms(2)] by blast
  have split: "run_steps api (take k msgs @ drop k msgs) ?e0 = Some e" using assms(3) by simp
  then obtain live where live: "run_steps api (take k msgs) ?e0 = Some live" "run_steps api (drop k msgs) live = Some e"
    by (auto simp: run_steps_append Option.bind_eq_Some_conv simp del: append_take_drop_id)
  have pre: "prefix (stream live) (stream e)"
    using run_steps_emits [OF live(2)] by (auto simp: emits_def)
  have "timeless ?e0 (Engine_new (StubClock_new 0) CounterIdGenerator_new VecSink_new)"
    by (simp add: timeless_def Engine_new_def stream_def)
  then obtain e1 where e1: "replay_loop api (take k recs) (Engine_new (StubClock_new 0) CounterIdGenerator_new VecSink_new) = Some (Inr e1)"
      "timeless live e1"
    using replay_loop_run [OF records_of_take [OF assms(1)] _ live(1)] by blast
  have same: "map zero_timestamps (stream e1) = map zero_timestamps (stream live)" using e1(2) by (simp add: timeless_def)
  have ok: "list_all (\<lambda>ev. \<exists>bs. md_encode ev [] = Some (Inr bs)) (map zero_timestamps (stream live))"
    using assms(4) pre by (auto simp: list_all_iff elim!: prefixE)
  then have "list_all (\<lambda>ev. \<exists>bs. md_encode (zero_timestamps ev) [] = Some (Inr bs)) (stream e1)"
    by (simp add: list.pred_map comp_def flip: same)
  then have "encode_events True (stream e1) [] = Some (Inr (concat (map (event_bytes \<circ> zero_timestamps) (stream live))))"
    using encode_events_bytes [of "stream e1" "[]"] arg_cong [OF same, of "map event_bytes"] by simp
  then have rep: "replay_bytes api bytes True = Some (Inr (concat (map (event_bytes \<circ> zero_timestamps) (stream live))))"
    using k(4) e1(1) by (simp add: replay_bytes_def VecSink_take_def stream_def)
  show ?thesis
    using k(1,5) len live(1) pre rep by (intro exI [of _ k] exI [of _ live] conjI) simp_all
qed

end
