(* ===== verification/Gateway_Theorems.thy ===== *)
theory Gateway_Theorems
  imports Replay Outbound_Sound Demo_Run
begin

text \<open>
  The properties of the edges of the system: the gateway's reader, the ingress recorder, replay of a
  recording and the client's reader.
\<close>

section \<open>The reader of a connection\<close>

text \<open>C24: commands cross the gateway whole and in order, however the network cuts the stream. A
  client writes the frames of valid commands and possibly the beginning of one more; the bytes reach
  the gateway in non-empty reads of any sizes. The gateway hands exactly those commands, in order, to
  the engine's channel and waits with the unfinished frame buffered. If the channel has no room for
  all of them it forwards those that fit and closes the connection.\<close>

theorem gateway_delivers_in_order:
  assumes "ring try_send contents cap" "list_all inbound_ok ms" "map client_send ms = map Inr frames"
    and "client_send m = Inr next_frame" "strict_prefix part next_frame"
    and "list_all (\<lambda>c. c \<noteq> []) chunks" "concat chunks = concat frames @ part"
  shows "\<exists>q'. handle_connection try_send (map Rd chunks) q =
      (if length ms \<le> cap q - length (contents q) then Open part else Closed RingFull, q') \<and>
    contents q' = contents q @ take (cap q - length (contents q)) ms"
proof -
  have "client_send = Inr \<circ> inbound_frame" by (rule ext) (simp add: client_send_frame)
  then have "map Inr frames = (map Inr (map inbound_frame ms) :: (client_error + u8 list) list)"
    using assms(3) by simp
  then have frames: "frames = map inbound_frame ms" by (rule map_injective) (simp add: inj_def)
  have "try_decode part = NeedMore" using assms(4,5) try_decode_part [of part m] by (simp add: client_send_frame)
  then have r: "reads gateway_scan (concat chunks) (map Inr ms) part"
    using reads_commands [OF assms(2)] assms(7) frames by simp
  have "handle_connection try_send (map Rd chunks) q = drain try_send (concat chunks) q"
    using handle_reads_concat [OF assms(6), of try_send "[]" q] by (simp add: handle_connection_def)
  then show ?thesis
    using drain_deliver [OF r, of try_send q] ring.deliver_messages [OF assms(1), of ms q]
    by (auto split: if_splits)
qed

lemma bytewise: "list_all (\<lambda>c. c \<noteq> []) (map (\<lambda>b. [b]) xs)" "concat (map (\<lambda>b. [b]) xs) = xs"
  by (simp_all add: list.pred_map comp_def list.pred_True)

theorem gateway_delivers_in_order_witness:
  "\<exists>q'. handle_connection list_ring
      (map Rd (map (\<lambda>b. [b]) (inbound_frame (cancel_msg 1 7) @ inbound_frame halt_msg @ [41]))) (1, []) =
     (Closed RingFull, q') \<and> snd q' = [cancel_msg 1 7]"
proof -
  let ?bs = "inbound_frame (cancel_msg 1 7) @ inbound_frame halt_msg @ [41]"
  have ok: "list_all inbound_ok [cancel_msg 1 7, halt_msg]"
    by (simp add: cancel_msg_def halt_msg_def cancel_order_ok_def ok_defs)
  have part: "strict_prefix [41] (inbound_frame (new_msg 1 7 Ask 101 5 Gtc))" by code_simp
  show ?thesis
    using gateway_delivers_in_order [where frames = "[inbound_frame (cancel_msg 1 7), inbound_frame halt_msg]"
        and chunks = "map (\<lambda>b. [b]) ?bs" and q = "(1, [])", OF lr.ring_axioms ok _ client_send_frame part bytewise(1)]
    by (simp only: bytewise(2)) (simp add: client_send_frame)
qed

text \<open>C34: a frame of length zero stalls a connection for good. Once the stream starts with a zero
  length prefix, the gateway neither decodes nor refuses anything that follows: whatever is sent, the
  connection stays open, nothing is forwarded and every byte stays in the buffer.\<close>

theorem zero_length_frame_stalls:
  assumes "list_all (\<lambda>c. c \<noteq> []) chunks" "prefix [0, 0, 0, 0] (concat chunks)"
  shows "handle_connection try_send (map Rd chunks) q = (Open (concat chunks), q)"
proof -
  obtain rest where c: "concat chunks = [0, 0, 0, 0] @ rest" using assms(2) by (auto elim: prefixE)
  have "from_le_bytes [0, 0, 0, 0 :: u8] = (0 :: u32)" by code_simp
  then have "try_decode (concat chunks) = NeedMore"
    unfolding c by (simp add: try_decode_def frame_consts parse_or_skip_def get_prefix_def)
  then show ?thesis
    using handle_reads_concat [OF assms(1), of try_send "[]" q]
    by (simp add: handle_connection_def drain.simps)
qed

theorem zero_length_frame_stalls_witness:
  "handle_connection list_ring (map Rd [[0, 0, 0, 0], inbound_frame halt_msg]) (8, []) =
     (Open ([0, 0, 0, 0] @ inbound_frame halt_msg), (8, []))"
proof -
  have "inbound_frame halt_msg \<noteq> []" by (simp add: inbound_frame_def frame_bytes_def)
  then show ?thesis
    using zero_length_frame_stalls [of "[[0, 0, 0, 0], inbound_frame halt_msg]" list_ring "(8, [])"] by simp
qed

section \<open>The ingress recorder\<close>


definition demo_records :: "rec_entry list" where
  "demo_records = map (\<lambda>m. \<lparr>rc_frame = inbound_frame m, rc_recv_ts = RecvTs 17\<rparr>) demo_msgs"

lemma demo_records_of: "records_of demo_msgs demo_records"
  by (simp add: records_of_def demo_records_def demo_msgs_ok)



section \<open>Replay\<close>

lemma coherent_zero_timestamps:
  "validate_coherent (r\<lparr>er_recv_ts := t, er_emit_ts := t'\<rparr>) = validate_coherent r"
  by (cases r) (simp only: validate_coherent_def Let_def exec_report.simps cong: exec_state.case_cong if_cong)

lemma fit_zero_timestamps:
  assumes "fit n m"
  shows "fit n (zero_timestamps m)"
proof (cases m)
  case (Out_ExecReport r)
  have "validate_coherent (r\<lparr>er_recv_ts := RecvTs 0, er_emit_ts := RecvTs 0, er_leaves_qty := None\<rparr>) =
      validate_coherent (r\<lparr>er_leaves_qty := None\<rparr>)"
    using coherent_zero_timestamps [where r = "r\<lparr>er_leaves_qty := None\<rparr>" and t = "RecvTs 0" and t' = "RecvTs 0"]
    by (cases r) (simp only: exec_report.simps)
  then show ?thesis
    using assms Out_ExecReport
    by (cases "er_state r = Replaced") (simp_all add: fit_def exec_report_ok_def coherent_zero_timestamps)
qed (use assms in \<open>simp_all add: fit_def trade_print_ok_def book_update_top_ok_def l2_delta_ok_def snapshot_ok_def\<close>)

text \<open>C7: a replay reproduces the live run. Take any recording of valid commands, with whatever
  arrival times, and cut it anywhere, as a crash would. Replaying it with timestamps suppressed gives
  exactly the bytes of the events a live engine published for the first \<open>k\<close> commands under its own
  clock, with timestamps zeroed; when the recording is complete, \<open>k\<close> is all of them.\<close>

theorem replay_reproduces_live:
  assumes "price_level_total api queue level_ok" "records_of msgs recs" "prefix bytes (recording recs)"
    and "length msgs < 2 ^ 27"
  shows "\<exists>k live. k \<le> length msgs \<and> (bytes = recording recs \<longrightarrow> k = length msgs) \<and>
    run_steps api (take k msgs) (Engine_new c CounterIdGenerator_new VecSink_new) = Some live \<and>
    replay_bytes api bytes True = Some (Inr (concat (map (event_bytes \<circ> zero_timestamps) (stream live))))"
proof -
  have ok: "list_all inbound_ok msgs" using assms(2) by (simp add: records_of_def)
  obtain e where e: "run_steps api msgs (Engine_new c CounterIdGenerator_new VecSink_new) = Some e"
    using price_level_total.fresh_run_returns [OF assms(1) ok] assms(4) by fastforce
  have "reachable api CounterIdGenerator_new (length msgs) e"
    using run_steps_reachable [OF e reachable.start ok] by simp
  then have "list_all (fit (length msgs)) (stream e)"
    using price_level_total.reachable_fit [OF assms(1)] assms(4) by simp
  then have "list_all (\<lambda>ev. \<exists>bs. md_encode (zero_timestamps ev) [] = Some (Inr bs)) (stream e)"
    using fit_sendable [OF fit_zero_timestamps assms(4)] by (auto simp: list_all_iff sendable_def)
  from replay_recording [OF assms(2,3) e this] show ?thesis by blast
qed

theorem replay_reproduces_live_witness:
  "\<exists>live. run_steps fifo_api demo_msgs (Engine_new (StubClock_new 5) CounterIdGenerator_new VecSink_new) = Some live \<and>
     replay_bytes fifo_api (recording demo_records) True =
       Some (Inr (concat (map (event_bytes \<circ> zero_timestamps) (stream live))))"
  using replay_reproduces_live [OF fifo.price_level_total_axioms demo_records_of prefix_order.refl, of "StubClock_new 5"]
    demo_msgs_ok(2) by auto

end
