(* ===== verification/Server_Theorems.thy ===== *)
theory Server_Theorems
  imports Demo_Server Gateway_Theorems
begin

text \<open>
  The properties of the whole process, from the sockets of the clients through the engine and back,
  under any interleaving of its tasks.
\<close>

section \<open>Inbound\<close>

text \<open>C6: no command is lost, invented or reordered on its way to the engine. In every state of a
  running server, the commands the gateway accepted, in the order it accepted them, are those the
  engine has processed, then those on the bridge, then those in the channel, which never holds more
  than its capacity; and the engine is in the state that processing those commands one after the other
  leads to, whose stream is what has been published and what is about to be. For each connection, the commands accepted from it are exactly the ones decoded
  from consecutive frames at the start of the bytes it sent, in their order; while it is open nothing
  decodable is left in its buffer.\<close>

theorem server_keeps_order:
  assumes "network net contents cap sent pos" "serving api net s"
  shows "map snd (sv_log s) = sv_done s @ sv_bridge s @ contents (sv_ring s) \<and>
    length (contents (sv_ring s)) \<le> INBOUND_CHANNEL_CAPACITY \<and>
    (\<exists>c. run_steps api (sv_done s) (Engine_new c CounterIdGenerator_new VecSink_new) = Some (th_engine (sv_thread s))) \<and>
    stream (th_engine (sv_thread s)) = sv_published s @ sv_pending s \<and>
    (\<forall>c ss. sv_conns s c = Some ss \<longrightarrow>
       (\<exists>frames rest. se_in ss = concat frames @ rest \<and> list_all2 decodes frames (sent_by c (sv_log s)) \<and>
          (\<forall>buf. se_conn ss = Open buf \<longrightarrow> rest = buf \<and> try_decode buf = NeedMore)))"
proof -
  have inv: "inbound_inv contents cap s" by (rule network.serving_inbound [OF assms])
  have "\<exists>frames rest. se_in ss = concat frames @ rest \<and> list_all2 decodes frames (sent_by c (sv_log s)) \<and>
      (\<forall>buf. se_conn ss = Open buf \<longrightarrow> rest = buf \<and> try_decode buf = NeedMore)" if ss: "sv_conns s c = Some ss" for c ss
  proof -
    have "session_reads (sv_log s) c ss" using inv ss unfolding inbound_inv_def by blast
    then obtain outs rest where r: "reads gateway_scan (se_in ss) (map Inr (sent_by c (sv_log s)) @ outs) rest"
        "\<forall>buf. se_conn ss = Open buf \<longrightarrow> outs = [] \<and> rest = buf"
      unfolding session_reads_def by blast
    obtain fs suf where f: "se_in ss = concat fs @ suf" "list_all2 decodes fs (sent_by c (sv_log s))"
        "reads gateway_scan suf outs rest"
      using reads_sound [OF r(1)] by blast
    have "suf = buf \<and> try_decode buf = NeedMore" if "se_conn ss = Open buf" for buf
      using that r(2) f(3) gateway_scan_None by (auto elim: reads_NilE)
    then show ?thesis using f by blast
  qed
  then show ?thesis using inv serving_engine [OF assms(2)] by (simp add: inbound_inv_def engine_inv_of_def)
qed

theorem server_keeps_order_witness:
  "serving fifo_api list_net demo_server \<and>
   map snd (sv_log demo_server) = [new_msg 1 7 Ask 101 5 Gtc] @ sv_bridge demo_server @ snd (sv_ring demo_server) \<and>
   (\<exists>frames. se_in demo_session = concat frames @ [37, 0] \<and> list_all2 decodes frames (sent_by 0 (sv_log demo_server)))"
  using server_keeps_order [OF ln.network_axioms demo_serving] demo_serving demo_server_values by fastforce

section \<open>The engine thread\<close>

text \<open>C8: the server never panics, never gets stuck, and its engine stays sound. While fewer than 2^27
  commands have been processed, every task can take its next turn: the engine's step returns and
  every event it publishes can be encoded. The engine satisfies its invariant in every state. And
  from every state there are turns of the server's own tasks, whatever the clients do, after which
  every command accepted so far has been processed and every event of the engine published.\<close>

theorem server_never_panics:
  assumes "live_server net contents cap sent pos api queue level_ok" "serving api net s"
    and "length (sv_log s) < 2 ^ 27"
  shows "(\<exists>s'. server_turn api net t s = Some s') \<and> engine_inv queue level_ok (th_engine (sv_thread s)) \<and>
    (\<exists>ts s'. server_turns api net ts s = Some s' \<and> sv_log s' = sv_log s \<and> sv_conns s' = sv_conns s \<and>
       sv_done s' = map snd (sv_log s) \<and> sv_published s' = stream (th_engine (sv_thread s')))"
proof -
  have net: "network net contents cap sent pos" "price_level_total api queue level_ok"
    using assms(1) by (simp_all add: live_server_def)
  have "map snd (sv_log s) = sv_done s @ sv_bridge s @ contents (sv_ring s)"
    using network.serving_inbound [OF net(1) assms(2)] by (simp add: inbound_inv_def)
  from arg_cong [OF this, of length] have d: "length (sv_done s) < 2 ^ 27" using assms(3) by simp
  have "reachable api CounterIdGenerator_new (length (sv_done s)) (th_engine (sv_thread s))"
    by (rule network.serving_reachable [OF net(1) assms(2)])
  then have "engine_inv queue level_ok (th_engine (sv_thread s))"
    using price_level_total.reachable_inv [OF net(2)] d by simp
  then show ?thesis
    using live_server.serving_returns [OF assms(1,2) d] live_server.serving_drains [OF assms] by blast
qed

theorem server_never_panics_witness:
  "(\<exists>s'. server_turn fifo_api list_net Engine_Turn demo_server = Some s') \<and>
   engine_inv (\<lambda>l. l) (\<lambda>_. True) (th_engine (sv_thread demo_server)) \<and>
   (\<exists>ts s'. server_turns fifo_api list_net ts demo_server = Some s' \<and> sv_done s' = map snd (sv_log demo_server))"
  using server_never_panics [OF live.live_server_axioms demo_serving, of Engine_Turn] demo_server_values by auto

section \<open>Outbound\<close>




text \<open>C35: a session that lags goes on trading blind. When the writer of an open session finds that it
  has lagged it stops for good, but the connection stays open: the next valid command on it is still
  decoded and handed to the engine while nothing more is written to the socket.\<close>

theorem lagged_session_keeps_trading:
  assumes "network net contents cap sent pos" "sv_conns s c = Some ss" "se_conn ss = Open []" "se_writing ss"
    and "bc_recv (nt_bcast net) (cs_tx (sv_sink s)) (se_rx ss) = (Lagged n, rx)" "inbound_ok m"
    and "length (contents (sv_ring s)) < cap (sv_ring s)"
    and s': "s' = on_read net c (Rd (inbound_frame m)) (on_write net c w s)"
  shows "\<exists>ss'. sv_conns s' c = Some ss' \<and> se_conn ss' = Open [] \<and> \<not> se_writing ss' \<and> se_out ss' = se_out ss \<and>
    contents (sv_ring s') = contents (sv_ring s) @ [m]"
proof -
  let ?ss = "ss\<lparr>se_rx := rx, se_writing := False\<rparr>"
  have ring: "ring (nt_try_send net) contents cap" using assms(1) by (simp add: network_def)
  have w: "on_write net c w s = s\<lparr>sv_conns := (sv_conns s)(c \<mapsto> ?ss)\<rparr>"
    using assms(2,4,5) by (simp add: on_write_def)
  have "nt_try_send net (sv_ring s) m \<noteq> None" using ring.try_send_None [OF ring, of "sv_ring s" m] assms(7) by simp
  then obtain q' where sq: "nt_try_send net (sv_ring s) m = Some q'" by blast
  then have q': "nt_try_send net (sv_ring s) m = Some q'" "contents q' = contents (sv_ring s) @ [m]"
    using ring.try_send_Some [OF ring sq] by blast+
  have r: "reads gateway_scan (inbound_frame m) [Inr m] []"
    using reads_commands [of "[m]" "[]"] assms(6) gateway_scan_None [of "[]"] by simp
  have ne: "inbound_frame m \<noteq> []" by (simp add: inbound_frame_def frame_bytes_def)
  have "handle_reads (tagged c (nt_try_send net)) [Rd (inbound_frame m)] [] (sv_ring s, sv_log s) =
      drain (tagged c (nt_try_send net)) (inbound_frame m) (sv_ring s, sv_log s)"
    using handle_reads_concat [of "[inbound_frame m]" "tagged c (nt_try_send net)" "[]"] ne by simp
  also have "\<dots> = (Open [], q', sv_log s @ [(c, m)])"
    using drain_deliver [OF r, of "tagged c (nt_try_send net)" "(sv_ring s, sv_log s)"] q'(1) by (simp add: tagged_eq)
  finally show ?thesis
    using assms(2,3) q'(2) by (simp add: s' w on_read_def)
qed

theorem lagged_session_keeps_trading_witness:
  "\<exists>s :: demo_server_state. \<exists>ss'. sv_conns s 0 = Some \<lparr>se_conn = Open [], se_rx = 0, se_out = [], se_writing = True, se_in = [], se_from = 0\<rparr> \<and>
     sv_conns (on_read list_net 0 (Rd (inbound_frame halt_msg)) (on_write list_net 0 Written s)) 0 = Some ss' \<and>
     se_conn ss' = Open [] \<and> \<not> se_writing ss'"
proof -
  let ?ss = "\<lparr>se_conn = Open [], se_rx = 0, se_out = [], se_writing = True, se_in = [], se_from = 0\<rparr> :: nat session"
  let ?s = "demo_boot\<lparr>sv_sink := \<lparr>cs_tx = \<lparr>lc_capacity = 1, lc_sent = [[1], [2]]\<rparr>\<rparr>, sv_conns := [0 \<mapsto> ?ss]\<rparr>"
  have "sv_conns ?s 0 = Some ?ss" "inbound_ok halt_msg" "length (snd (sv_ring ?s)) < fst (sv_ring ?s)"
    "bc_recv (nt_bcast list_net) (cs_tx (sv_sink ?s)) (se_rx ?ss) = (Lagged 1, 1)"
    by (simp_all add: halt_msg_def demo_boot_def server_new_def list_net_def list_broadcast_def INBOUND_CHANNEL_CAPACITY_def)
  with lagged_session_keeps_trading [OF ln.network_axioms this(1) _ _ this(4,2,3) refl, of Written]
  show ?thesis by (intro exI [of _ ?s]) auto
qed

section \<open>The command line\<close>

text \<open>The core option replaces the default address. When the engine is started with
  \<^verbatim>\<open>--engine-core N\<close> as its first option and an address is not given before it, the value \<open>N\<close> is taken
  as the address to bind; the documented default is not used.\<close>

lemma core_option_sets_address:
  assumes "\<not> prefix ''--'' v"
  shows "engine_addr (prog # ''--engine-core'' # v # args) = v"
  using assms by (simp add: engine_addr_def)

lemma core_option_example:
  "engine_addr [''engine'', ''--engine-core'', ''3''] = ''3''" "engine_addr [''engine''] = DEFAULT_ADDR"
  "parse_engine_core [''engine'', ''--engine-core'', ''3''] = Some 3"
  by code_simp+

end
