(* ===== verification/Fixture.thy ===== *)
theory Fixture
  imports Replay Demo
begin

text \<open>
  The committed replay fixture. \<^verbatim>\<open>gen_fixture\<close> (\<^verbatim>\<open>engine/src/bin/gen_fixture.rs\<close>) writes a small recording;
  the two files under \<^verbatim>\<open>fixtures\<close> hold that recording and what \<^verbatim>\<open>replay --no-timestamps\<close> made of it when
  they were generated. \<open>None\<close> is a failed \<^verbatim>\<open>expect\<close>.
\<close>

section \<open>\<^verbatim>\<open>gen_fixture\<close>\<close>

definition push_new_order ::
  "u8 list \<Rightarrow> u64 \<Rightarrow> u32 \<Rightarrow> side \<Rightarrow> i64 \<Rightarrow> u64 \<Rightarrow> i64 \<Rightarrow> u8 list option" where
  "push_new_order out oid account s p q recv_ts = do {
     oid \<leftarrow> ok (OrderId_new oid);
     a \<leftarrow> ok (AccountId_new account);
     p \<leftarrow> ok (Price_new p);
     q \<leftarrow> ok (Qty_new q);
     frame \<leftarrow> ok (frame_write MK_NewOrder (new_order_encode
       \<lparr>no_client_ts = ClientTs 0, no_order_id = oid, no_account_id = a, no_side = s,
        no_order_type = Limit, no_tif = Gtc, no_price = Some p, no_qty = q\<rparr> []) []);
     Some (out @ frame @ to_le_bytes recv_ts)
   }"

definition push_cancel :: "u8 list \<Rightarrow> u64 \<Rightarrow> u32 \<Rightarrow> i64 \<Rightarrow> u8 list option" where
  "push_cancel out oid account recv_ts = do {
     oid \<leftarrow> ok (OrderId_new oid);
     a \<leftarrow> ok (AccountId_new account);
     frame \<leftarrow> ok (frame_write MK_CancelOrder (cancel_order_encode
       \<lparr>co_client_ts = ClientTs 0, co_order_id = oid, co_account_id = a\<rparr> []) []);
     Some (out @ frame @ to_le_bytes recv_ts)
   }"

fun push_orders :: "u64 \<Rightarrow> u32 \<Rightarrow> side \<Rightarrow> (i64 \<times> u64 \<times> i64) list \<Rightarrow> u8 list \<Rightarrow> u8 list option" where
  "push_orders oid account s [] out = Some out"
| "push_orders oid account s ((p, q, ts) # rest) out = do {
     out \<leftarrow> push_new_order out oid account s p q ts;
     push_orders (oid + 1) account s rest out
   }"

definition gen_fixture :: "u8 list option" where
  "gen_fixture = do {
     bytes \<leftarrow> push_orders 1 2 Ask [(100, 5, 1000), (102, 3, 1001), (105, 4, 1002)] [];
     bytes \<leftarrow> push_orders 10 7 Bid [(95, 4, 1010), (97, 2, 1011)] bytes;
     bytes \<leftarrow> push_new_order bytes 100 9 Bid 102 6 2000;
     bytes \<leftarrow> push_new_order bytes 101 9 Ask 95 3 2001;
     push_cancel bytes 3 2 2002
   }"

text \<open>\<^verbatim>\<open>main\<close>, with the exit code; \<open>fs_write\<close> is the file system.\<close>

definition gen_fixture_main ::
  "('fs \<Rightarrow> string \<Rightarrow> u8 list \<Rightarrow> io_error + 'fs) \<Rightarrow> string list \<Rightarrow> 'fs \<Rightarrow> (nat \<times> 'fs) option" where
  "gen_fixture_main fs_write args fs =
     (if length args < 2 then Some (2, fs)
      else Option.bind gen_fixture (\<lambda>bytes.
        case fs_write fs (args ! 1) bytes of
          Inl e \<Rightarrow> Some (2, fs)
        | Inr fs' \<Rightarrow> Some (0, fs')))"

section \<open>The committed files\<close>

text \<open>\<^verbatim>\<open>fixtures/inbound.bin\<close>, one record per paragraph.\<close>

definition inbound_bin :: "u8 list" where
  "inbound_bin =
     [41, 0, 0, 0, 1, 0, 0, 0, 0, 0, 0, 0, 0, 1, 0, 0, 0, 0, 0, 0, 0, 2, 0, 0, 0, 2, 1, 1, 0, 100, 0, 0, 0, 0,
      0, 0, 0, 5, 0, 0, 0, 0, 0, 0, 0, 232, 3, 0, 0, 0, 0, 0, 0,
      41, 0, 0, 0, 1, 0, 0, 0, 0, 0, 0, 0, 0, 2, 0, 0, 0, 0, 0, 0, 0, 2, 0, 0, 0, 2, 1, 1, 0, 102, 0, 0, 0, 0,
      0, 0, 0, 3, 0, 0, 0, 0, 0, 0, 0, 233, 3, 0, 0, 0, 0, 0, 0,
      41, 0, 0, 0, 1, 0, 0, 0, 0, 0, 0, 0, 0, 3, 0, 0, 0, 0, 0, 0, 0, 2, 0, 0, 0, 2, 1, 1, 0, 105, 0, 0, 0, 0,
      0, 0, 0, 4, 0, 0, 0, 0, 0, 0, 0, 234, 3, 0, 0, 0, 0, 0, 0,
      41, 0, 0, 0, 1, 0, 0, 0, 0, 0, 0, 0, 0, 10, 0, 0, 0, 0, 0, 0, 0, 7, 0, 0, 0, 1, 1, 1, 0, 95, 0, 0, 0, 0,
      0, 0, 0, 4, 0, 0, 0, 0, 0, 0, 0, 242, 3, 0, 0, 0, 0, 0, 0,
      41, 0, 0, 0, 1, 0, 0, 0, 0, 0, 0, 0, 0, 11, 0, 0, 0, 0, 0, 0, 0, 7, 0, 0, 0, 1, 1, 1, 0, 97, 0, 0, 0, 0,
      0, 0, 0, 2, 0, 0, 0, 0, 0, 0, 0, 243, 3, 0, 0, 0, 0, 0, 0,
      41, 0, 0, 0, 1, 0, 0, 0, 0, 0, 0, 0, 0, 100, 0, 0, 0, 0, 0, 0, 0, 9, 0, 0, 0, 1, 1, 1, 0, 102, 0, 0, 0,
      0, 0, 0, 0, 6, 0, 0, 0, 0, 0, 0, 0, 208, 7, 0, 0, 0, 0, 0, 0,
      41, 0, 0, 0, 1, 0, 0, 0, 0, 0, 0, 0, 0, 101, 0, 0, 0, 0, 0, 0, 0, 9, 0, 0, 0, 2, 1, 1, 0, 95, 0, 0, 0,
      0, 0, 0, 0, 3, 0, 0, 0, 0, 0, 0, 0, 209, 7, 0, 0, 0, 0, 0, 0,
      25, 0, 0, 0, 2, 0, 0, 0, 0, 0, 0, 0, 0, 3, 0, 0, 0, 0, 0, 0, 0, 2, 0, 0, 0, 0, 0, 0, 0, 210, 7, 0, 0, 0,
      0, 0, 0]"

text \<open>\<^verbatim>\<open>fixtures/outbound.golden\<close>, one frame per paragraph.\<close>

definition outbound_golden :: "u8 list" where
  "outbound_golden =
     [65, 0, 0, 0, 101, 1, 0, 0, 0, 0, 0, 0, 0, 1, 0, 0, 0, 0, 0, 0, 0, 2, 0, 0, 0, 1, 0, 0, 0, 0, 0, 0, 0, 0,
      0, 0, 0, 0, 0, 0, 0, 0, 0, 0, 0, 5, 0, 0, 0, 0, 0, 0, 0, 0, 0, 0, 0, 0, 0, 0, 0, 0, 0, 0, 0, 0, 0, 0, 0,
      41, 0, 0, 0, 104, 2, 0, 0, 0, 0, 0, 0, 0, 100, 0, 0, 0, 0, 0, 0, 0, 5, 0, 0, 0, 0, 0, 0, 0, 2, 0, 0, 0,
      0, 0, 0, 0, 0, 0, 0, 0, 0, 0, 0, 0,
      49, 0, 0, 0, 103, 3, 0, 0, 0, 0, 0, 0, 0, 0, 0, 0, 0, 0, 0, 0, 0, 0, 0, 0, 0, 0, 0, 0, 0, 100, 0, 0, 0,
      0, 0, 0, 0, 5, 0, 0, 0, 0, 0, 0, 0, 0, 0, 0, 0, 0, 0, 0, 0,
      65, 0, 0, 0, 101, 4, 0, 0, 0, 0, 0, 0, 0, 2, 0, 0, 0, 0, 0, 0, 0, 2, 0, 0, 0, 1, 0, 0, 0, 0, 0, 0, 0, 0,
      0, 0, 0, 0, 0, 0, 0, 0, 0, 0, 0, 3, 0, 0, 0, 0, 0, 0, 0, 0, 0, 0, 0, 0, 0, 0, 0, 0, 0, 0, 0, 0, 0, 0, 0,
      41, 0, 0, 0, 104, 5, 0, 0, 0, 0, 0, 0, 0, 102, 0, 0, 0, 0, 0, 0, 0, 3, 0, 0, 0, 0, 0, 0, 0, 2, 0, 0, 0,
      0, 0, 0, 0, 0, 0, 0, 0, 0, 0, 0, 0,
      49, 0, 0, 0, 103, 6, 0, 0, 0, 0, 0, 0, 0, 0, 0, 0, 0, 0, 0, 0, 0, 0, 0, 0, 0, 0, 0, 0, 0, 100, 0, 0, 0,
      0, 0, 0, 0, 8, 0, 0, 0, 0, 0, 0, 0, 0, 0, 0, 0, 0, 0, 0, 0,
      65, 0, 0, 0, 101, 7, 0, 0, 0, 0, 0, 0, 0, 3, 0, 0, 0, 0, 0, 0, 0, 2, 0, 0, 0, 1, 0, 0, 0, 0, 0, 0, 0, 0,
      0, 0, 0, 0, 0, 0, 0, 0, 0, 0, 0, 4, 0, 0, 0, 0, 0, 0, 0, 0, 0, 0, 0, 0, 0, 0, 0, 0, 0, 0, 0, 0, 0, 0, 0,
      41, 0, 0, 0, 104, 8, 0, 0, 0, 0, 0, 0, 0, 105, 0, 0, 0, 0, 0, 0, 0, 4, 0, 0, 0, 0, 0, 0, 0, 2, 0, 0, 0,
      0, 0, 0, 0, 0, 0, 0, 0, 0, 0, 0, 0,
      49, 0, 0, 0, 103, 9, 0, 0, 0, 0, 0, 0, 0, 0, 0, 0, 0, 0, 0, 0, 0, 0, 0, 0, 0, 0, 0, 0, 0, 100, 0, 0, 0,
      0, 0, 0, 0, 12, 0, 0, 0, 0, 0, 0, 0, 0, 0, 0, 0, 0, 0, 0, 0,
      65, 0, 0, 0, 101, 10, 0, 0, 0, 0, 0, 0, 0, 10, 0, 0, 0, 0, 0, 0, 0, 7, 0, 0, 0, 1, 0, 0, 0, 0, 0, 0, 0,
      0, 0, 0, 0, 0, 0, 0, 0, 0, 0, 0, 0, 4, 0, 0, 0, 0, 0, 0, 0, 0, 0, 0, 0, 0, 0, 0, 0, 0, 0, 0, 0, 0, 0, 0,
      0,
      41, 0, 0, 0, 104, 11, 0, 0, 0, 0, 0, 0, 0, 95, 0, 0, 0, 0, 0, 0, 0, 4, 0, 0, 0, 0, 0, 0, 0, 1, 0, 0, 0,
      0, 0, 0, 0, 0, 0, 0, 0, 0, 0, 0, 0,
      49, 0, 0, 0, 103, 12, 0, 0, 0, 0, 0, 0, 0, 95, 0, 0, 0, 0, 0, 0, 0, 4, 0, 0, 0, 0, 0, 0, 0, 100, 0, 0,
      0, 0, 0, 0, 0, 12, 0, 0, 0, 0, 0, 0, 0, 0, 0, 0, 0, 0, 0, 0, 0,
      65, 0, 0, 0, 101, 13, 0, 0, 0, 0, 0, 0, 0, 11, 0, 0, 0, 0, 0, 0, 0, 7, 0, 0, 0, 1, 0, 0, 0, 0, 0, 0, 0,
      0, 0, 0, 0, 0, 0, 0, 0, 0, 0, 0, 0, 2, 0, 0, 0, 0, 0, 0, 0, 0, 0, 0, 0, 0, 0, 0, 0, 0, 0, 0, 0, 0, 0, 0,
      0,
      41, 0, 0, 0, 104, 14, 0, 0, 0, 0, 0, 0, 0, 97, 0, 0, 0, 0, 0, 0, 0, 2, 0, 0, 0, 0, 0, 0, 0, 1, 0, 0, 0,
      0, 0, 0, 0, 0, 0, 0, 0, 0, 0, 0, 0,
      49, 0, 0, 0, 103, 15, 0, 0, 0, 0, 0, 0, 0, 97, 0, 0, 0, 0, 0, 0, 0, 6, 0, 0, 0, 0, 0, 0, 0, 100, 0, 0,
      0, 0, 0, 0, 0, 12, 0, 0, 0, 0, 0, 0, 0, 0, 0, 0, 0, 0, 0, 0, 0,
      49, 0, 0, 0, 102, 16, 0, 0, 0, 0, 0, 0, 0, 1, 0, 0, 0, 0, 0, 0, 0, 100, 0, 0, 0, 0, 0, 0, 0, 5, 0, 0, 0,
      0, 0, 0, 0, 1, 0, 0, 0, 0, 0, 0, 0, 0, 0, 0, 0, 0, 0, 0, 0,
      65, 0, 0, 0, 101, 17, 0, 0, 0, 0, 0, 0, 0, 1, 0, 0, 0, 0, 0, 0, 0, 2, 0, 0, 0, 4, 0, 0, 0, 100, 0, 0, 0,
      0, 0, 0, 0, 5, 0, 0, 0, 0, 0, 0, 0, 0, 0, 0, 0, 0, 0, 0, 0, 0, 0, 0, 0, 0, 0, 0, 0, 0, 0, 0, 0, 0, 0, 0,
      0,
      65, 0, 0, 0, 101, 18, 0, 0, 0, 0, 0, 0, 0, 100, 0, 0, 0, 0, 0, 0, 0, 9, 0, 0, 0, 3, 0, 0, 0, 100, 0, 0,
      0, 0, 0, 0, 0, 5, 0, 0, 0, 0, 0, 0, 0, 1, 0, 0, 0, 0, 0, 0, 0, 0, 0, 0, 0, 0, 0, 0, 0, 0, 0, 0, 0, 0, 0,
      0, 0,
      49, 0, 0, 0, 102, 19, 0, 0, 0, 0, 0, 0, 0, 2, 0, 0, 0, 0, 0, 0, 0, 102, 0, 0, 0, 0, 0, 0, 0, 1, 0, 0, 0,
      0, 0, 0, 0, 1, 0, 0, 0, 0, 0, 0, 0, 0, 0, 0, 0, 0, 0, 0, 0,
      65, 0, 0, 0, 101, 20, 0, 0, 0, 0, 0, 0, 0, 2, 0, 0, 0, 0, 0, 0, 0, 2, 0, 0, 0, 3, 0, 0, 0, 102, 0, 0, 0,
      0, 0, 0, 0, 1, 0, 0, 0, 0, 0, 0, 0, 2, 0, 0, 0, 0, 0, 0, 0, 0, 0, 0, 0, 0, 0, 0, 0, 0, 0, 0, 0, 0, 0, 0,
      0,
      65, 0, 0, 0, 101, 21, 0, 0, 0, 0, 0, 0, 0, 100, 0, 0, 0, 0, 0, 0, 0, 9, 0, 0, 0, 4, 0, 0, 0, 102, 0, 0,
      0, 0, 0, 0, 0, 1, 0, 0, 0, 0, 0, 0, 0, 0, 0, 0, 0, 0, 0, 0, 0, 0, 0, 0, 0, 0, 0, 0, 0, 0, 0, 0, 0, 0, 0,
      0, 0,
      41, 0, 0, 0, 104, 22, 0, 0, 0, 0, 0, 0, 0, 100, 0, 0, 0, 0, 0, 0, 0, 0, 0, 0, 0, 0, 0, 0, 0, 2, 0, 0, 0,
      0, 0, 0, 0, 0, 0, 0, 0, 0, 0, 0, 0,
      41, 0, 0, 0, 104, 23, 0, 0, 0, 0, 0, 0, 0, 102, 0, 0, 0, 0, 0, 0, 0, 2, 0, 0, 0, 0, 0, 0, 0, 2, 0, 0, 0,
      0, 0, 0, 0, 0, 0, 0, 0, 0, 0, 0, 0,
      49, 0, 0, 0, 103, 24, 0, 0, 0, 0, 0, 0, 0, 97, 0, 0, 0, 0, 0, 0, 0, 6, 0, 0, 0, 0, 0, 0, 0, 102, 0, 0,
      0, 0, 0, 0, 0, 6, 0, 0, 0, 0, 0, 0, 0, 0, 0, 0, 0, 0, 0, 0, 0,
      65, 0, 0, 0, 101, 25, 0, 0, 0, 0, 0, 0, 0, 101, 0, 0, 0, 0, 0, 0, 0, 9, 0, 0, 0, 2, 6, 0, 0, 0, 0, 0, 0,
      0, 0, 0, 0, 0, 0, 0, 0, 0, 0, 0, 0, 0, 0, 0, 0, 0, 0, 0, 0, 0, 0, 0, 0, 0, 0, 0, 0, 0, 0, 0, 0, 0, 0, 0,
      0,
      49, 0, 0, 0, 103, 26, 0, 0, 0, 0, 0, 0, 0, 97, 0, 0, 0, 0, 0, 0, 0, 6, 0, 0, 0, 0, 0, 0, 0, 102, 0, 0,
      0, 0, 0, 0, 0, 6, 0, 0, 0, 0, 0, 0, 0, 0, 0, 0, 0, 0, 0, 0, 0,
      65, 0, 0, 0, 101, 27, 0, 0, 0, 0, 0, 0, 0, 3, 0, 0, 0, 0, 0, 0, 0, 2, 0, 0, 0, 5, 0, 1, 0, 0, 0, 0, 0,
      0, 0, 0, 0, 0, 0, 0, 0, 0, 0, 0, 0, 0, 0, 0, 0, 0, 0, 0, 0, 0, 0, 0, 0, 0, 0, 0, 0, 0, 0, 0, 0, 0, 0, 0,
      0,
      41, 0, 0, 0, 104, 28, 0, 0, 0, 0, 0, 0, 0, 105, 0, 0, 0, 0, 0, 0, 0, 0, 0, 0, 0, 0, 0, 0, 0, 2, 0, 0, 0,
      0, 0, 0, 0, 0, 0, 0, 0, 0, 0, 0, 0,
      49, 0, 0, 0, 103, 29, 0, 0, 0, 0, 0, 0, 0, 97, 0, 0, 0, 0, 0, 0, 0, 6, 0, 0, 0, 0, 0, 0, 0, 102, 0, 0,
      0, 0, 0, 0, 0, 2, 0, 0, 0, 0, 0, 0, 0, 0, 0, 0, 0, 0, 0, 0, 0]"

lemma fixture_generated: "gen_fixture = Some inbound_bin"
  by code_simp

lemma fixture_replayed: "replay_bytes fifo_api inbound_bin True = Some (Inr outbound_golden)"
  by code_simp

text \<open>Generating the fixture and replaying it, over any file system in which a written file reads back.\<close>

lemma fixture_pipeline:
  assumes "fs_write fs ''inbound.bin'' inbound_bin = Inr fs1" "fs_read fs1 ''inbound.bin'' = Inr inbound_bin"
    and "fs_write fs1 ''out.bin'' outbound_golden = Inr fs2"
  shows "gen_fixture_main fs_write [''gen_fixture'', ''inbound.bin''] fs = Some (0, fs1)"
    and "replay_run fifo_api fs_read fs_write [''replay'', ''inbound.bin'', ''out.bin'', ''--no-timestamps''] fs1 =
      Some (Inr fs2)"
  using assms by (simp_all add: gen_fixture_main_def fixture_generated replay_run_def fixture_replayed Let_def map_err_def)

end
