(* ===== verification/Examples.thy ===== *)
theory Examples
  imports Outbound_Sound Demo
begin

text \<open>
  The example programs of the client library (\<^verbatim>\<open>clob-client/examples\<close>). Each opens a connection to a
  freshly started engine, sends a few commands, collects what comes back and checks it. They run here
  as a dialogue with the engine in which every answer arrives within the time-out of the call that
  waits for it; what the client then collects is the engine's stream as it looks after the wire. A
  failed \<^verbatim>\<open>expect\<close> is \<open>None\<close>.
\<close>

section \<open>The dialogue\<close>

record 'l dialogue =
  dg_engine :: "'l engine"
  dg_seen :: nat
  dg_next_id :: u64

datatype verdict = Passed | Failed | Not_Surfaced

definition connect :: "'l engine \<Rightarrow> 'l dialogue" where
  "connect e = \<lparr>dg_engine = e, dg_seen = length (stream e), dg_next_id = 1\<rparr>"

definition say :: "'l pl_api \<Rightarrow> inbound \<Rightarrow> 'l dialogue \<Rightarrow> 'l dialogue option" where
  "say api m d = map_option (\<lambda>e. d\<lparr>dg_engine := e\<rparr>) (step api m (dg_engine d))"

definition hear :: "nat \<Rightarrow> 'l dialogue \<Rightarrow> outbound list \<times> 'l dialogue" where
  "hear max_events d =
     (let evs = take max_events (drop (dg_seen d) (stream (dg_engine d)))
      in (map wire_view evs, d\<lparr>dg_seen := dg_seen d + length evs\<rparr>))"

section \<open>\<^verbatim>\<open>_common.rs\<close>\<close>

definition ENGINE_ADDR :: string where "ENGINE_ADDR = ''127.0.0.1:9000''"

definition example_engine_addr :: "string option \<Rightarrow> string" where
  "example_engine_addr var = (case var of Some a \<Rightarrow> a | None \<Rightarrow> ENGINE_ADDR)"

definition next_order_id :: "'l dialogue \<Rightarrow> (order_id \<times> 'l dialogue) option" where
  "next_order_id d = do {
     oid \<leftarrow> ok (OrderId_new (dg_next_id d));
     Some (oid, d\<lparr>dg_next_id := dg_next_id d + 1\<rparr>)
   }"

definition common_limit :: "order_id \<Rightarrow> u32 \<Rightarrow> side \<Rightarrow> i64 \<Rightarrow> u64 \<Rightarrow> tif \<Rightarrow> inbound option" where
  "common_limit oid account s p q t = do {
     a \<leftarrow> ok (AccountId_new account);
     p \<leftarrow> ok (Price_new p);
     q \<leftarrow> ok (Qty_new q);
     Some (In_NewOrder \<lparr>no_client_ts = ClientTs 0, no_order_id = oid, no_account_id = a, no_side = s,
       no_order_type = Limit, no_tif = t, no_price = Some p, no_qty = q\<rparr>)
   }"

definition common_market :: "order_id \<Rightarrow> u32 \<Rightarrow> side \<Rightarrow> u64 \<Rightarrow> inbound option" where
  "common_market oid account s q = do {
     a \<leftarrow> ok (AccountId_new account);
     q \<leftarrow> ok (Qty_new q);
     Some (In_NewOrder \<lparr>no_client_ts = ClientTs 0, no_order_id = oid, no_account_id = a, no_side = s,
       no_order_type = Market, no_tif = Ioc, no_price = None, no_qty = q\<rparr>)
   }"

definition common_cancel :: "order_id \<Rightarrow> u32 \<Rightarrow> inbound option" where
  "common_cancel oid account = do {
     a \<leftarrow> ok (AccountId_new account);
     Some (In_CancelOrder \<lparr>co_client_ts = ClientTs 0, co_order_id = oid, co_account_id = a\<rparr>)
   }"

definition common_cancel_replace :: "order_id \<Rightarrow> u32 \<Rightarrow> i64 \<Rightarrow> u64 \<Rightarrow> inbound option" where
  "common_cancel_replace oid account new_price new_qty = do {
     a \<leftarrow> ok (AccountId_new account);
     p \<leftarrow> ok (Price_new new_price);
     q \<leftarrow> ok (Qty_new new_qty);
     Some (In_CancelReplace \<lparr>cr_client_ts = ClientTs 0, cr_order_id = oid, cr_account_id = a,
       cr_new_price = p, cr_new_qty = q\<rparr>)
   }"

definition common_mass_cancel :: "u32 \<Rightarrow> inbound option" where
  "common_mass_cancel account = do {
     a \<leftarrow> ok (AccountId_new account);
     Some (In_MassCancel \<lparr>mx_client_ts = ClientTs 0, mx_account_id = a\<rparr>)
   }"

definition common_kill_switch :: "kill_switch_state \<Rightarrow> inbound" where
  "common_kill_switch st = In_KillSwitchSet \<lparr>ks_client_ts = ClientTs 0, ks_admin_token = 0, ks_state = st\<rparr>"

definition common_snapshot_request :: "u64 \<Rightarrow> inbound" where
  "common_snapshot_request rid = In_SnapshotRequest \<lparr>sr_request_id = rid\<rparr>"

text \<open>Sending an order built by the helpers, as every example does.\<close>

definition say_limit ::
  "'l pl_api \<Rightarrow> order_id \<Rightarrow> u32 \<Rightarrow> side \<Rightarrow> i64 \<Rightarrow> u64 \<Rightarrow> tif \<Rightarrow> 'l dialogue \<Rightarrow> 'l dialogue option" where
  "say_limit api oid account s p q t d = do {
     m \<leftarrow> common_limit oid account s p q t;
     say api m d
   }"

text \<open>\<^verbatim>\<open>events.iter().any(|o| matches!(o, Outbound::ExecReport(r) if ...))\<close>\<close>

fun report_with :: "(exec_report \<Rightarrow> bool) \<Rightarrow> outbound \<Rightarrow> bool" where
  "report_with P (Out_ExecReport r) = P r"
| "report_with P _ = False"

fun is_trade_print :: "outbound \<Rightarrow> bool" where
  "is_trade_print (Out_TradePrint _) = True"
| "is_trade_print _ = False"

fun is_top_update :: "outbound \<Rightarrow> bool" where
  "is_top_update (Out_BookUpdateTop _) = True"
| "is_top_update _ = False"

definition verdict_of :: "bool \<Rightarrow> verdict" where
  "verdict_of b = (if b then Passed else Failed)"

section \<open>The examples\<close>

definition new_order_gtc_rests :: "'l pl_api \<Rightarrow> 'l dialogue \<Rightarrow> verdict option" where
  "new_order_gtc_rests api d = do {
     (oid, d) \<leftarrow> next_order_id d;
     d \<leftarrow> say_limit api oid 7 Bid 100 5 Gtc d;
     let evs = fst (hear 16 d);
     let accepted = list_ex (report_with (\<lambda>r. er_state r = Accepted \<and> er_order_id r = oid)) evs;
     let tob = list_ex is_top_update evs;
     Some (verdict_of (accepted \<and> tob))
   }"

definition new_order_gtc_crosses :: "'l pl_api \<Rightarrow> 'l dialogue \<Rightarrow> verdict option" where
  "new_order_gtc_crosses api d = do {
     (maker_id, d) \<leftarrow> next_order_id d;
     d \<leftarrow> say_limit api maker_id 2 Ask 100 5 Gtc d;
     let d = snd (hear 16 d);
     (taker_id, d) \<leftarrow> next_order_id d;
     d \<leftarrow> say_limit api taker_id 7 Bid 100 5 Gtc d;
     let evs = fst (hear 16 d);
     let trade_print = list_ex is_trade_print evs;
     let filled = list_ex (report_with (\<lambda>r. er_state r = Filled)) evs;
     Some (verdict_of (trade_print \<and> filled))
   }"

definition new_order_ioc_partial :: "'l pl_api \<Rightarrow> 'l dialogue \<Rightarrow> verdict option" where
  "new_order_ioc_partial api d = do {
     (maker_id, d) \<leftarrow> next_order_id d;
     d \<leftarrow> say_limit api maker_id 2 Ask 100 3 Gtc d;
     let d = snd (hear 16 d);
     (taker_id, d) \<leftarrow> next_order_id d;
     d \<leftarrow> say_limit api taker_id 7 Bid 100 10 Ioc d;
     let evs = fst (hear 16 d);
     let part = list_ex (report_with (\<lambda>r. er_order_id r = taker_id \<and> er_state r = PartiallyFilled)) evs;
     let gone = list_ex (report_with (\<lambda>r. er_order_id r = taker_id \<and> er_state r = Cancelled \<and>
       er_cancel_reason r = Some CR_IocRemaining)) evs;
     Some (verdict_of (part \<and> gone))
   }"

definition post_only_would_cross :: "'l pl_api \<Rightarrow> 'l dialogue \<Rightarrow> verdict option" where
  "post_only_would_cross api d = do {
     (maker_id, d) \<leftarrow> next_order_id d;
     d \<leftarrow> say_limit api maker_id 2 Ask 100 5 Gtc d;
     let d = snd (hear 16 d);
     (post_only_id, d) \<leftarrow> next_order_id d;
     d \<leftarrow> say_limit api post_only_id 7 Bid 100 5 PostOnly d;
     let evs = fst (hear 16 d);
     Some (verdict_of (list_ex (report_with (\<lambda>r. er_order_id r = post_only_id \<and> er_state r = Rejected \<and>
       er_reject_reason r = Some PostOnlyWouldCross)) evs))
   }"

definition market_in_empty_book :: "'l pl_api \<Rightarrow> 'l dialogue \<Rightarrow> verdict option" where
  "market_in_empty_book api d = do {
     let d = snd (hear 64 d);
     (oid, d) \<leftarrow> next_order_id d;
     m \<leftarrow> common_market oid 9 Ask 5;
     d \<leftarrow> say api m d;
     let evs = fst (hear 16 d);
     Some (verdict_of (list_ex (report_with (\<lambda>r. er_order_id r = oid \<and> er_state r = Rejected \<and>
       er_reject_reason r = Some MarketOrderInEmptyBook)) evs))
   }"

definition cancel_order_example :: "'l pl_api \<Rightarrow> 'l dialogue \<Rightarrow> verdict option" where
  "cancel_order_example api d = do {
     (oid, d) \<leftarrow> next_order_id d;
     d \<leftarrow> say_limit api oid 7 Bid 100 5 Gtc d;
     let d = snd (hear 16 d);
     m \<leftarrow> common_cancel oid 7;
     d \<leftarrow> say api m d;
     let evs = fst (hear 16 d);
     Some (verdict_of (list_ex (report_with (\<lambda>r. er_order_id r = oid \<and> er_state r = Cancelled \<and>
       er_cancel_reason r = Some CR_UserRequested)) evs))
   }"

definition cancel_replace_keeps_priority :: "'l pl_api \<Rightarrow> 'l dialogue \<Rightarrow> verdict option" where
  "cancel_replace_keeps_priority api d = do {
     (oid, d) \<leftarrow> next_order_id d;
     d \<leftarrow> say_limit api oid 7 Bid 100 10 Gtc d;
     let d = snd (hear 16 d);
     m \<leftarrow> common_cancel_replace oid 7 100 5;
     d \<leftarrow> say api m d;
     let evs = fst (hear 16 d);
     Some (verdict_of (list_ex (report_with (\<lambda>r. er_order_id r = oid \<and> er_state r = Replaced)) evs))
   }"

definition duplicate_order_id :: "'l pl_api \<Rightarrow> 'l dialogue \<Rightarrow> verdict option" where
  "duplicate_order_id api d = do {
     (oid, d) \<leftarrow> next_order_id d;
     d \<leftarrow> say_limit api oid 7 Bid 100 5 Gtc d;
     let d = snd (hear 16 d);
     d \<leftarrow> say_limit api oid 7 Bid 100 5 Gtc d;
     let evs = fst (hear 16 d);
     let rejected = list_ex (report_with (\<lambda>r. er_order_id r = oid \<and> er_state r = Rejected \<and>
       er_reject_reason r = Some DuplicateOrderId)) evs;
     Some (if rejected then Passed else Not_Surfaced)
   }"

fun say_limits :: "'l pl_api \<Rightarrow> (order_id \<times> side \<times> i64 \<times> u64) list \<Rightarrow> 'l dialogue \<Rightarrow> 'l dialogue option" where
  "say_limits api [] d = Some d"
| "say_limits api ((oid, s, p, q) # rest) d = do {
     d \<leftarrow> say_limit api oid 7 s p q Gtc d;
     say_limits api rest d
   }"

definition mass_cancel_example :: "'l pl_api \<Rightarrow> 'l dialogue \<Rightarrow> verdict option" where
  "mass_cancel_example api d = do {
     (id_a, d) \<leftarrow> next_order_id d;
     (id_b, d) \<leftarrow> next_order_id d;
     (id_c, d) \<leftarrow> next_order_id d;
     d \<leftarrow> say_limits api [(id_a, Bid, 99, 3), (id_b, Bid, 98, 3), (id_c, Ask, 110, 3)] d;
     let d = snd (hear 64 d);
     m \<leftarrow> common_mass_cancel 7;
     d \<leftarrow> say api m d;
     let evs = fst (hear 64 d);
     let cancelled_count = length (filter (report_with (\<lambda>r. er_state r = Cancelled \<and>
       er_cancel_reason r = Some CR_MassCancel)) evs);
     Some (verdict_of (3 \<le> cancelled_count))
   }"

definition kill_switch_example :: "'l pl_api \<Rightarrow> 'l dialogue \<Rightarrow> verdict option" where
  "kill_switch_example api d = do {
     d \<leftarrow> say api (common_kill_switch Halt) d;
     let d = snd (hear 8 d);
     (halted_id, d) \<leftarrow> next_order_id d;
     d \<leftarrow> say_limit api halted_id 7 Bid 100 5 Gtc d;
     let (halted_events, d) = hear 16 d;
     let killed = list_ex (report_with (\<lambda>r. er_order_id r = halted_id \<and> er_state r = Rejected \<and>
       er_reject_reason r = Some KillSwitched)) halted_events;
     if \<not> killed then Some Failed else do {
       d \<leftarrow> say api (common_kill_switch Resume) d;
       let d = snd (hear 8 d);
       (resumed_id, d) \<leftarrow> next_order_id d;
       d \<leftarrow> say_limit api resumed_id 7 Bid 100 5 Gtc d;
       let resumed_events = fst (hear 16 d);
       Some (verdict_of
         (list_ex (report_with (\<lambda>r. er_order_id r = resumed_id \<and> er_state r = Accepted)) resumed_events))
     }
   }"

fun say_next_limits :: "'l pl_api \<Rightarrow> (side \<times> i64 \<times> u64) list \<Rightarrow> 'l dialogue \<Rightarrow> 'l dialogue option" where
  "say_next_limits api [] d = Some d"
| "say_next_limits api ((s, p, q) # rest) d = do {
     (oid, d) \<leftarrow> next_order_id d;
     d \<leftarrow> say_limit api oid 7 s p q Gtc d;
     say_next_limits api rest d
   }"

fun find_snapshot :: "outbound list \<Rightarrow> snapshot_response option" where
  "find_snapshot [] = None"
| "find_snapshot (Out_SnapshotResponse s # _) = Some s"
| "find_snapshot (_ # evs) = find_snapshot evs"

definition snapshot_request_example :: "'l pl_api \<Rightarrow> 'l dialogue \<Rightarrow> verdict option" where
  "snapshot_request_example api d = do {
     d \<leftarrow> say_next_limits api [(Bid, 99, 5), (Bid, 100, 3), (Ask, 101, 4), (Ask, 102, 6)] d;
     let d = snd (hear 64 d);
     d \<leftarrow> say api (common_snapshot_request 7) d;
     let evs = fst (hear 64 d);
     Some (case find_snapshot evs of
         None \<Rightarrow> Failed
       | Some snap \<Rightarrow> verdict_of (sp_request_id snap = 7 \<and> sp_bids snap \<noteq> [] \<and> sp_asks snap \<noteq> []))
   }"

fun strictly_monotonic :: "u64 \<Rightarrow> outbound list \<Rightarrow> bool" where
  "strictly_monotonic prev [] = True"
| "strictly_monotonic prev (ev # evs) =
     (if engine_seq_raw (outbound_seq ev) \<le> prev then False
      else strictly_monotonic (engine_seq_raw (outbound_seq ev)) evs)"

definition engine_seq_monotonic :: "'l pl_api \<Rightarrow> 'l dialogue \<Rightarrow> verdict option" where
  "engine_seq_monotonic api d = do {
     let d = snd (hear 64 d);
     (maker_id, d) \<leftarrow> next_order_id d;
     d \<leftarrow> say_limit api maker_id 2 Ask 100 5 Gtc d;
     (oid, d) \<leftarrow> next_order_id d;
     d \<leftarrow> say_limit api oid 7 Bid 100 3 Gtc d;
     m \<leftarrow> common_cancel oid 7;
     d \<leftarrow> say api m d;
     let evs = fst (hear 64 d);
     Some (verdict_of (strictly_monotonic 0 evs))
   }"

section \<open>What the dialogue stands for\<close>

text \<open>When the bytes of the pending events arrive, in reads of any sizes, before the deadline, the
  client's receive loop returns what \<open>hear\<close> returns.\<close>

lemma hear_is_recv:
  assumes "list_all sendable (drop (dg_seen d) (stream (dg_engine d)))"
    and "concat chunks = concat (map event_bytes (drop (dg_seen d) (stream (dg_engine d))))" "list_all (\<lambda>c. c \<noteq> []) chunks"
    and "length (stream (dg_engine d)) < length zeros" "True \<notin> set zeros" "length (stream (dg_engine d)) < max_events"
  shows "recv_until_timeout zeros max_events (map Read_Done chunks @ [Past_Deadline]) [] =
    (Some (Inr (fst (hear max_events d))), [])"
  using recv_loop_collects [OF assms(1) partial_event_Nil assms(3), of "[]" zeros "[]" max_events] assms(2,4-6)
  by (simp add: recv_until_timeout_def hear_def Let_def)

section \<open>All of them pass\<close>

definition example_dialogue :: "pl_order list dialogue" where
  "example_dialogue = connect (Engine_new (StubClock_new 1000) CounterIdGenerator_new VecSink_new)"

lemma order_entry_examples_pass:
  "new_order_gtc_rests fifo_api example_dialogue = Some Passed"
  "new_order_gtc_crosses fifo_api example_dialogue = Some Passed"
  "new_order_ioc_partial fifo_api example_dialogue = Some Passed"
  "post_only_would_cross fifo_api example_dialogue = Some Passed"
  "market_in_empty_book fifo_api example_dialogue = Some Passed"
  by code_simp+

lemma cancel_examples_pass:
  "cancel_order_example fifo_api example_dialogue = Some Passed"
  "cancel_replace_keeps_priority fifo_api example_dialogue = Some Passed"
  "duplicate_order_id fifo_api example_dialogue = Some Passed"
  "mass_cancel_example fifo_api example_dialogue = Some Passed"
  by code_simp+

lemma control_examples_pass:
  "kill_switch_example fifo_api example_dialogue = Some Passed"
  "snapshot_request_example fifo_api example_dialogue = Some Passed"
  "engine_seq_monotonic fifo_api example_dialogue = Some Passed"
  by code_simp+

text \<open>The sequence check does not depend on the levels or on the state of the engine: whatever happened
  before the connection, it cannot fail.\<close>

lemma outbound_seq_wire_view [simp]: "outbound_seq (wire_view m) = outbound_seq m"
  by (cases m) simp_all

lemma strictly_monotonic_upt:
  assumes "seq_numbers evs = [a ..< a + length evs]" "unat prev < a"
  shows "strictly_monotonic prev evs"
  using assms
proof (induction evs arbitrary: prev a)
  case (Cons ev evs)
  have "seq_numbers (ev # evs) = a # [Suc a ..< Suc a + length evs]"
    using Cons.prems(1) upt_conv_Cons [of a "a + length (ev # evs)"] by (simp del: upt_Suc)
  then have h: "unat (engine_seq_raw (outbound_seq ev)) = a" "seq_numbers evs = [Suc a ..< Suc a + length evs]"
    by (simp_all add: seq_numbers_def)
  have "\<not> engine_seq_raw (outbound_seq ev) \<le> prev" using h(1) Cons.prems(2) by (simp add: word_le_nat_alt)
  then show ?case using Cons.IH [OF h(2)] h(1) by simp
qed simp

lemma hear_monotonic:
  assumes "emits msgs e e'" "0 < seq_no e" "dg_seen d = length (stream e)" "dg_engine d = e'"
  shows "strictly_monotonic 0 (fst (hear n d))"
proof -
  have "seq_numbers (map wire_view (take n msgs)) = take n (seq_numbers msgs)"
    by (simp add: seq_numbers_def take_map)
  also have "\<dots> = [seq_no e ..< seq_no e + length (map wire_view (take n msgs))]"
    using assms(1) by (simp add: emits_def take_upt min_def)
  finally have "strictly_monotonic 0 (map wire_view (take n msgs))"
    using assms(2) by (intro strictly_monotonic_upt) simp_all
  then show ?thesis using assms by (simp add: hear_def Let_def emits_def)
qed

lemma say_emits: "say api m d = Some d' \<Longrightarrow> \<exists>msgs. emits msgs (dg_engine d) (dg_engine d') \<and> dg_seen d' = dg_seen d"
  using step_emits by (auto simp: say_def)

lemma say_limit_emits:
  "say_limit api oid a s p q t d = Some d' \<Longrightarrow> \<exists>msgs. emits msgs (dg_engine d) (dg_engine d') \<and> dg_seen d' = dg_seen d"
  using say_emits by (auto simp: say_limit_def Option.bind_eq_Some_conv)

lemma next_order_id_same:
  "next_order_id d = Some (oid, d') \<Longrightarrow> dg_engine d' = dg_engine d \<and> dg_seen d' = dg_seen d"
  by (auto simp: next_order_id_def Option.bind_eq_Some_conv)

lemma hear_nothing: "snd (hear n (connect e)) = connect e"
  by (simp add: hear_def connect_def)

lemma engine_seq_monotonic_passes:
  assumes "engine_seq_monotonic api (connect e) = Some v" "0 < seq_no e"
  shows "v = Passed"
proof -
  obtain i1 d1 d2 i2 d3 d4 m d5 where s:
      "next_order_id (connect e) = Some (i1, d1)" "say_limit api i1 2 Ask 100 5 Gtc d1 = Some d2"
      "next_order_id d2 = Some (i2, d3)" "say_limit api i2 7 Bid 100 3 Gtc d3 = Some d4" "say api m d4 = Some d5"
      "v = verdict_of (strictly_monotonic 0 (fst (hear 64 d5)))"
    using assms(1) by (auto simp: engine_seq_monotonic_def hear_nothing Option.bind_eq_Some_conv Let_def)
  have "\<exists>msgs. emits msgs e (dg_engine d5) \<and> dg_seen d5 = length (stream e)"
    using next_order_id_same [OF s(1)] say_limit_emits [OF s(2)] next_order_id_same [OF s(3)]
      say_limit_emits [OF s(4)] say_emits [OF s(5)] by (auto simp: connect_def dest: emits_trans)
  then show ?thesis using hear_monotonic [OF _ assms(2) _ refl] s(6) by (auto simp: verdict_of_def)
qed

end
