(* ===== verification/Workload.thy ===== *)
theory Workload
  imports Server Demo
begin

text \<open>
  The synthetic workload of the benchmark binaries (\<^verbatim>\<open>engine/src/bin/throughput_bench.rs\<close>; the same
  generator is repeated in \<^verbatim>\<open>smoke_bench.rs\<close>, \<^verbatim>\<open>co_bench.rs\<close> and \<^verbatim>\<open>dhat_bench.rs\<close>): a linear
  congruential generator, the operations drawn from it, and the loop that drives the engine. \<open>None\<close>
  is a failed \<^verbatim>\<open>expect\<close> or a panic of the engine. The binaries differ in the number of operations, the
  seeds and what they measure around each step; the measurements do not touch the engine.
\<close>

section \<open>The generator\<close>

definition ACCOUNT_COUNT :: u64 where "ACCOUNT_COUNT = 8"
definition PRICE_LOW :: i64 where "PRICE_LOW = 90"
definition PRICE_HIGH :: i64 where "PRICE_HIGH = 110"

definition BenchClock_new :: clock where
  "BenchClock_new = (\<lambda>n. RecvTs (of_nat (Suc n)))"

definition Lcg_next :: "u64 \<Rightarrow> u64 \<times> u64" where
  "Lcg_next s = (let s' = s * 6364136223846793005 + 1 in (s', s'))"

datatype op =
    Op_Add u64 u32 side i64 u64
  | Op_Cancel u64 u32
  | Op_Aggressive u64 u32 side i64 u64

text \<open>\<^verbatim>\<open>Vec::swap_remove\<close>\<close>

definition swap_remove :: "nat \<Rightarrow> 'a list \<Rightarrow> 'a \<times> 'a list" where
  "swap_remove i xs = (xs ! i, if i = length xs - 1 then butlast xs else (butlast xs)[i := last xs])"

record gen_state =
  gn_rng :: u64
  gn_next_id :: u64
  gn_active :: "u64 list"
  gn_ops :: "op list"

text \<open>The remainder of \<^verbatim>\<open>i64\<close>, which has the sign of the dividend.\<close>

definition i64_rem :: "i64 \<Rightarrow> i64 \<Rightarrow> i64" where
  "i64_rem a b = word_of_int (sint a smod sint b)"

text \<open>One round of the loop.\<close>

definition gen_round :: "gen_state \<Rightarrow> gen_state" where
  "gen_round g =
     (let (v1, g1) = Lcg_next (gn_rng g);
          r = v1 mod 100;
          (v2, g2) = Lcg_next g1;
          account = (ucast (v2 mod ACCOUNT_COUNT + 1) :: u32);
          (v3, g3) = Lcg_next g2;
          sd = (if v3 mod 2 = 0 then Bid else Ask);
          (v4, g4) = Lcg_next g3;
          quantity = v4 mod 9 + 1
      in if r < 20 \<and> gn_active g \<noteq> [] then
           (let (v5, g5) = Lcg_next g4;
                idx = nat (uint v5 mod int (length (gn_active g)));
                (i, active) = swap_remove idx (gn_active g)
            in g\<lparr>gn_rng := g5, gn_active := active, gn_ops := gn_ops g @ [Op_Cancel i account]\<rparr>)
         else if r < 30 then
           (let (v5, g5) = Lcg_next g4;
                price = PRICE_LOW + i64_rem v5 (PRICE_HIGH - PRICE_LOW + 1)
            in g\<lparr>gn_rng := g5, gn_next_id := gn_next_id g + 1,
                 gn_ops := gn_ops g @ [Op_Aggressive (gn_next_id g) account sd price quantity]\<rparr>)
         else
           (let safe_price = (case sd of Bid \<Rightarrow> PRICE_LOW | Ask \<Rightarrow> PRICE_HIGH)
            in g\<lparr>gn_rng := g4, gn_next_id := gn_next_id g + 1, gn_active := gn_active g @ [gn_next_id g],
                 gn_ops := gn_ops g @ [Op_Add (gn_next_id g) account sd safe_price quantity]\<rparr>))"

definition gen_new :: "u64 \<Rightarrow> gen_state" where
  "gen_new seed = \<lparr>gn_rng = seed, gn_next_id = 1, gn_active = [], gn_ops = []\<rparr>"

definition generate_ops :: "nat \<Rightarrow> u64 \<Rightarrow> op list" where
  "generate_ops n seed = gn_ops ((gen_round ^^ n) (gen_new seed))"

section \<open>Driving the engine\<close>

definition bench_new_order :: "u64 \<Rightarrow> u32 \<Rightarrow> side \<Rightarrow> i64 \<Rightarrow> u64 \<Rightarrow> inbound option" where
  "bench_new_order i a sd p q = do {
     oid \<leftarrow> ok (OrderId_new i);
     acc \<leftarrow> ok (AccountId_new a);
     prc \<leftarrow> ok (Price_new p);
     qt \<leftarrow> ok (Qty_new q);
     Some (In_NewOrder \<lparr>no_client_ts = ClientTs 0, no_order_id = oid, no_account_id = acc, no_side = sd,
       no_order_type = Limit, no_tif = Gtc, no_price = Some prc, no_qty = qt\<rparr>)
   }"

fun op_to_inbound :: "op \<Rightarrow> inbound option" where
  "op_to_inbound (Op_Add i a sd p q) = bench_new_order i a sd p q"
| "op_to_inbound (Op_Aggressive i a sd p q) = bench_new_order i a sd p q"
| "op_to_inbound (Op_Cancel i a) = do {
     oid \<leftarrow> ok (OrderId_new i);
     acc \<leftarrow> ok (AccountId_new a);
     Some (In_CancelOrder \<lparr>co_client_ts = ClientTs 0, co_order_id = oid, co_account_id = acc\<rparr>)
   }"

fun drive :: "'l pl_api \<Rightarrow> op list \<Rightarrow> 'l engine \<Rightarrow> 'l engine option" where
  "drive api [] e = Some e"
| "drive api (x # xs) e = do {
     m \<leftarrow> op_to_inbound x;
     e \<leftarrow> step api m e;
     drive api xs (e\<lparr>eng_sink := (eng_sink e)\<lparr>events := []\<rparr>\<rparr>)
   }"

definition N_WARMUP :: nat where "N_WARMUP = 100000"
definition N_MEASURE :: nat where "N_MEASURE = 1000000"

definition bench_engine :: "'l engine" where
  "bench_engine = Engine_new BenchClock_new CounterIdGenerator_new VecSink_new"

definition throughput_bench :: "'l pl_api \<Rightarrow> 'l engine option" where
  "throughput_bench api = do {
     e \<leftarrow> drive api (generate_ops N_WARMUP 0xdeadbeef) bench_engine;
     drive api (generate_ops N_MEASURE 0xc0ffee) e
   }"

definition smoke_bench :: "'l pl_api \<Rightarrow> 'l engine option" where
  "smoke_bench api = drive api (generate_ops 10000 0xdeadbeefdeadbeef) bench_engine"

definition dhat_bench :: "'l pl_api \<Rightarrow> 'l engine option" where
  "dhat_bench api = do {
     e \<leftarrow> drive api (generate_ops 10000 0xdeadbeef) bench_engine;
     drive api (generate_ops 100000 0xc0ffee) e
   }"

text \<open>\<^verbatim>\<open>co_bench\<close> takes the target rate from the environment; the division by it may panic.\<close>

definition DEFAULT_TARGET_OPS_PER_SEC :: u64 where "DEFAULT_TARGET_OPS_PER_SEC = 200000"

definition target_rate :: "string option \<Rightarrow> u64" where
  "target_rate var =
     (case Option.bind var parse_usize of Some r \<Rightarrow> r | None \<Rightarrow> DEFAULT_TARGET_OPS_PER_SEC)"

definition interval_ns :: "u64 \<Rightarrow> u64 option" where
  "interval_ns rate = (if rate = 0 then None else Some (1000000000 div rate))"

definition co_bench :: "'l pl_api \<Rightarrow> string option \<Rightarrow> (u64 \<times> 'l engine) option" where
  "co_bench api var = do {
     interval \<leftarrow> interval_ns (target_rate var);
     e \<leftarrow> drive api (generate_ops 50000 0xdeadbeef) bench_engine;
     e \<leftarrow> drive api (generate_ops 1000000 0xc0ffee) e;
     Some (interval, e)
   }"

section \<open>The operations\<close>

definition op_ok :: "op \<Rightarrow> bool" where
  "op_ok x \<longleftrightarrow>
     (case x of
        Op_Cancel i a \<Rightarrow> i \<noteq> 0 \<and> a \<noteq> 0
      | Op_Add i a sd p q \<Rightarrow> i \<noteq> 0 \<and> a \<noteq> 0 \<and> q \<noteq> 0 \<and> sint p \<in> {90, 110}
      | Op_Aggressive i a sd p q \<Rightarrow> i \<noteq> 0 \<and> a \<noteq> 0 \<and> q \<noteq> 0 \<and> 70 \<le> sint p \<and> sint p \<le> 110)"

fun added :: "op \<Rightarrow> u64 list" where
  "added (Op_Add i a sd p q) = [i]"
| "added _ = []"

fun cancelled :: "op \<Rightarrow> u64 list" where
  "cancelled (Op_Cancel i a) = [i]"
| "cancelled _ = []"

fun fresh_id :: "op \<Rightarrow> u64 list" where
  "fresh_id (Op_Cancel i a) = []"
| "fresh_id (Op_Add i a sd p q) = [i]"
| "fresh_id (Op_Aggressive i a sd p q) = [i]"

text \<open>What the generator has produced after some rounds: valid operations, ids counted up from one, and
  cancels that each name an order added before and not cancelled yet.\<close>

definition cancels_known :: "op list \<Rightarrow> bool" where
  "cancels_known xs \<longleftrightarrow> (\<forall>k < length xs. set (cancelled (xs ! k)) \<subseteq> set (concat (map added (take k xs))))"

definition gen_inv :: "nat \<Rightarrow> gen_state \<Rightarrow> bool" where
  "gen_inv k g \<longleftrightarrow>
     gn_next_id g = of_nat (Suc k) \<and> list_all op_ok (gn_ops g) \<and>
     concat (map fresh_id (gn_ops g)) = map of_nat [1 ..< Suc k] \<and> cancels_known (gn_ops g) \<and>
     mset (concat (map added (gn_ops g))) = mset (gn_active g) + mset (concat (map cancelled (gn_ops g)))"

lemma unat_account: "unat (ucast (v mod ACCOUNT_COUNT + 1 :: u64) :: u32) = Suc (unat v mod 8)"
proof -
  have m: "unat (v mod ACCOUNT_COUNT) = unat v mod 8" by (simp add: ACCOUNT_COUNT_def unat_mod_distrib)
  then have "unat (v mod ACCOUNT_COUNT + 1) = Suc (unat v mod 8)" by (simp add: unat_word_ariths)
  moreover have "unat v mod 8 < 8" by simp
  ultimately show ?thesis by (simp add: unsigned_ucast_eq take_bit_nat_eq_self)
qed

lemma account_range: "(ucast (v mod ACCOUNT_COUNT + 1 :: u64) :: u32) \<noteq> 0"
  using unat_account [of v] by (metis Zero_not_Suc unat_0)

lemma quantity_range: "v mod 9 + 1 \<noteq> (0 :: u64)"
proof -
  have "unat (v mod 9) < 9" by (simp add: unat_mod_distrib)
  then have "unat (v mod 9 + 1) = Suc (unat (v mod 9))" by (simp add: unat_word_ariths)
  then show ?thesis by (metis Zero_not_Suc unat_0)
qed

lemma price_range: "70 \<le> sint (PRICE_LOW + i64_rem v (PRICE_HIGH - PRICE_LOW + 1)) \<and>
    sint (PRICE_LOW + i64_rem v (PRICE_HIGH - PRICE_LOW + 1)) \<le> 110"
proof -
  let ?x = "sint v smod 21"
  have x: "- 21 < ?x" "?x < 21"
    using smod_int_compares [of "sint v" 21] by (cases "0 \<le> sint v"; force)+
  have "PRICE_LOW + i64_rem v (PRICE_HIGH - PRICE_LOW + 1) = word_of_int (90 + ?x)"
    by (simp add: PRICE_LOW_def PRICE_HIGH_def i64_rem_def)
  moreover have "sint (word_of_int (90 + ?x) :: i64) = 90 + ?x"
    unfolding signed_of_int of_int_eq_id id_apply by (rule signed_take_bit_int_eq_self) (use x in simp_all)
  ultimately have "sint (PRICE_LOW + i64_rem v (PRICE_HIGH - PRICE_LOW + 1)) = 90 + ?x" by (simp only:)
  then show ?thesis using x by simp
qed

lemma swap_remove_mset:
  assumes "i < length xs" "swap_remove i xs = (x, ys)"
  shows "mset xs = add_mset x (mset ys)"
proof -
  obtain zs z where xs: "xs = zs @ [z]" using assms(1) by (cases xs rule: rev_cases) auto
  show ?thesis
  proof (cases "i = length zs")
    case True
    then show ?thesis using assms(2) xs by (auto simp: swap_remove_def)
  next
    case False
    then have i: "i < length zs" using assms(1) xs by simp
    then have "mset (zs[i := z]) = add_mset z (mset zs - {#zs ! i#})" by (rule mset_update)
    moreover have "zs ! i \<in># mset zs" using i by simp
    moreover have "x = zs ! i" "ys = zs[i := z]" using assms(2) xs i False by (auto simp: swap_remove_def nth_append)
    ultimately show ?thesis using xs by (simp add: insert_DiffM)
  qed
qed

lemma cancels_known_snoc:
  "cancels_known (xs @ [x]) \<longleftrightarrow> cancels_known xs \<and> set (cancelled x) \<subseteq> set (concat (map added xs))"
  by (auto simp: cancels_known_def nth_append less_Suc_eq all_conj_distrib)

lemma gen_inv_active:
  assumes inv: "gen_inv k g"
  shows "set (gn_active g) \<subseteq> set (concat (map added (gn_ops g)))" "0 \<notin> set (gn_active g)"
proof -
  have "mset (concat (map added (gn_ops g))) = mset (gn_active g) + mset (concat (map cancelled (gn_ops g)))"
    using inv unfolding gen_inv_def by blast
  from arg_cong [OF this, of set_mset] show act: "set (gn_active g) \<subseteq> set (concat (map added (gn_ops g)))"
    by (simp only: set_mset_mset set_mset_union Un_upper1)
  have "0 \<notin> set (added x)" if "x \<in> set (gn_ops g)" for x
  proof -
    have "op_ok x" using inv that by (simp add: gen_inv_def list_all_iff)
    then show ?thesis by (cases x) (auto simp: op_ok_def)
  qed
  then show "0 \<notin> set (gn_active g)" using act by auto
qed

text \<open>What one round does, with the draws it makes.\<close>

lemma gen_round_cases:
  obtains (cancel) i active rng v2 where "gn_active g \<noteq> []" "mset (gn_active g) = add_mset i (mset active)"
      "gen_round g = g\<lparr>gn_rng := rng, gn_active := active,
         gn_ops := gn_ops g @ [Op_Cancel i (ucast (v2 mod ACCOUNT_COUNT + 1))]\<rparr>"
  | (aggressive) rng v2 v4 v5 sd where "gen_round g = g\<lparr>gn_rng := rng, gn_next_id := gn_next_id g + 1,
         gn_ops := gn_ops g @ [Op_Aggressive (gn_next_id g) (ucast (v2 mod ACCOUNT_COUNT + 1)) sd
           (PRICE_LOW + i64_rem v5 (PRICE_HIGH - PRICE_LOW + 1)) (v4 mod 9 + 1)]\<rparr>"
  | (add) rng v2 v4 sd where "gen_round g = g\<lparr>gn_rng := rng, gn_next_id := gn_next_id g + 1,
         gn_active := gn_active g @ [gn_next_id g], gn_ops := gn_ops g @ [Op_Add (gn_next_id g)
           (ucast (v2 mod ACCOUNT_COUNT + 1)) sd (case sd of Bid \<Rightarrow> PRICE_LOW | Ask \<Rightarrow> PRICE_HIGH) (v4 mod 9 + 1)]\<rparr>"
proof -
  obtain v1 g1 where l1: "Lcg_next (gn_rng g) = (v1, g1)" by fastforce
  obtain v2 g2 where l2: "Lcg_next g1 = (v2, g2)" by fastforce
  obtain v3 g3 where l3: "Lcg_next g2 = (v3, g3)" by fastforce
  obtain v4 g4 where l4: "Lcg_next g3 = (v4, g4)" by fastforce
  obtain v5 g5 where l5: "Lcg_next g4 = (v5, g5)" by fastforce
  note round = gen_round_def [of g, unfolded l1 l2 l3 l4 l5 prod.case Let_def]
  let ?idx = "nat (uint v5 mod int (length (gn_active g)))"
  obtain i active where sr: "swap_remove ?idx (gn_active g) = (i, active)" by fastforce
  show thesis
  proof (cases "v1 mod 100 < 20 \<and> gn_active g \<noteq> []")
    case True
    then have "int ?idx < int (length (gn_active g))" by simp
    then have "?idx < length (gn_active g)" by linarith
    from cancel [OF _ swap_remove_mset [OF this sr]] show thesis using True round sr by simp
  next
    case False
    show thesis
    proof (cases "v1 mod 100 < 30")
      case True
      show thesis by (rule aggressive, unfold round if_not_P [OF False] if_P [OF True], rule refl)
    next
      case ge: False
      show thesis by (rule add, unfold round if_not_P [OF False] if_not_P [OF ge], rule refl)
    qed
  qed
qed

lemma gen_round_inv:
  assumes inv: "gen_inv k g" and room: "Suc k < 2 ^ 64"
  shows "gen_inv k (gen_round g) \<or> gen_inv (Suc k) (gen_round g)"
proof -
  have nid: "gn_next_id g \<noteq> 0" "gn_next_id g = of_nat (Suc k)"
    using inv room by (auto simp: gen_inv_def word_unat_eq_iff unat_of_nat simp del: of_nat_Suc)
  note act = gen_inv_active [OF inv]
  show ?thesis
  proof (cases g rule: gen_round_cases)
    case (cancel i active rng v2)
    have i: "i \<in> set (gn_active g)" using cancel(2) by (metis set_mset_mset union_single_eq_member)
    then have "i \<noteq> 0" using act(2) by auto
    then have "gen_inv k (gen_round g)"
      using inv cancel(2,3) i act(1) account_range [of v2] by (auto simp: gen_inv_def op_ok_def cancels_known_snoc)
    then show ?thesis ..
  next
    case (aggressive rng v2 v4 v5 sd)
    then have "gen_inv (Suc k) (gen_round g)"
      using inv nid account_range [of v2] quantity_range [of v4] price_range [of v5]
      by (simp add: gen_inv_def op_ok_def cancels_known_snoc)
    then show ?thesis ..
  next
    case (add rng v2 v4 sd)
    then have "gen_inv (Suc k) (gen_round g)"
      using inv nid account_range [of v2] quantity_range [of v4]
      by (cases sd) (simp_all add: gen_inv_def op_ok_def cancels_known_snoc PRICE_LOW_def PRICE_HIGH_def)
    then show ?thesis ..
  qed
qed

lemma generated_inv:
  assumes "n < 2 ^ 64 - 1"
  shows "\<exists>k \<le> n. gen_inv k ((gen_round ^^ n) (gen_new seed))"
  using assms
proof (induction n)
  case 0
  show ?case by (simp add: gen_inv_def gen_new_def cancels_known_def)
next
  case (Suc n)
  then obtain k where k: "k \<le> n" "gen_inv k ((gen_round ^^ n) (gen_new seed))" by auto
  then have "Suc k < 2 ^ 64" using Suc.prems by simp
  from gen_round_inv [OF k(2) this] show ?case using k(1) by (auto intro: le_SucI)
qed

lemma gen_round_length: "length (gn_ops (gen_round g)) = Suc (length (gn_ops g))"
  by (auto simp: gen_round_def Let_def split: prod.split)

lemma length_generate_ops: "length (generate_ops n seed) = n"
proof -
  have "length (gn_ops ((gen_round ^^ n) (gen_new seed))) = n"
    by (induction n) (simp_all add: gen_round_length, simp add: gen_new_def)
  then show ?thesis by (simp add: generate_ops_def)
qed

lemma generate_ops_ok: "n < 2 ^ 64 - 1 \<Longrightarrow> list_all op_ok (generate_ops n seed)"
  using generated_inv [of n seed] by (auto simp: gen_inv_def generate_ops_def)

lemma op_to_inbound_ok: "op_ok x \<Longrightarrow> \<exists>m. op_to_inbound x = Some m \<and> inbound_ok m"
  by (cases x)
    (auto simp: op_ok_def bench_new_order_def OrderId_new_def AccountId_new_def Price_new_def Qty_new_def
      TICK_SIZE_def LOT_SIZE_def new_order_ok_def cancel_order_ok_def ok_defs word_sless_alt)

section \<open>The run\<close>

context price_level_total
begin

lemma drive_returns:
  assumes "engine_inv queue level_ok e" "list_all op_ok xs" "room (length xs) e"
  shows "\<exists>e'. drive api xs e = Some e' \<and> engine_inv queue level_ok e'"
  using assms
proof (induction xs arbitrary: e)
  case (Cons x xs)
  obtain m where m: "op_to_inbound x = Some m" "inbound_ok m" using op_to_inbound_ok Cons.prems(2) by auto
  obtain e1 where e1: "step api m e = Some e1" "engine_inv queue level_ok e1" "room (length xs) e1"
    using step_room [OF Cons.prems(1) m(2)] Cons.prems(3) by auto
  let ?e1 = "e1\<lparr>eng_sink := (eng_sink e1)\<lparr>events := []\<rparr>\<rparr>"
  have "engine_inv queue level_ok ?e1" "room (length xs) ?e1"
    using e1(2,3) engine_inv_cong [of ?e1 e1 queue level_ok]
    by (simp_all add: room_def arrivals_def seq_no_def trade_no_def resting_def)
  then show ?case using Cons.IH [of ?e1] Cons.prems(2) m(1) e1(1) by simp
qed simp

end

lemma drive_append: "drive api (xs @ ys) e = Option.bind (drive api xs e) (drive api ys)"
  by (induction xs arbitrary: e) (auto split: Option.bind_split)

context price_level_total
begin

lemma bench_returns:
  assumes "n + m \<le> 2 ^ 30"
  shows "\<exists>e e'. drive api (generate_ops n s1) bench_engine = Some e \<and> drive api (generate_ops m s2) e = Some e' \<and>
    engine_inv queue level_ok e \<and> engine_inv queue level_ok e'"
proof -
  have ok: "list_all op_ok (generate_ops n s1)" "list_all op_ok (generate_ops m s2)"
    using assms by (simp_all add: generate_ops_ok)
  have inv: "engine_inv queue level_ok bench_engine" unfolding bench_engine_def by (rule engine_inv_new)
  have "room (length (generate_ops n s1 @ generate_ops m s2)) (bench_engine :: 'l engine)"
    unfolding bench_engine_def by (rule room_fresh) (use assms in \<open>simp add: length_generate_ops\<close>)
  from drive_returns [OF inv _ this] ok obtain e' where
    e': "drive api (generate_ops n s1 @ generate_ops m s2) bench_engine = Some e'" "engine_inv queue level_ok e'"
    by auto
  have "room (length (generate_ops n s1)) (bench_engine :: 'l engine)"
    unfolding bench_engine_def by (rule room_fresh) (use assms in \<open>simp add: length_generate_ops\<close>)
  from drive_returns [OF inv ok(1) this] show ?thesis using e' by (auto simp: drive_append)
qed

end

section \<open>Properties\<close>

text \<open>C33: the benchmarks never panic. Whatever the length and the seed, the generated operations
  are valid, carry consecutive ids from one and cancel only orders generated before; so
  \<^verbatim>\<open>throughput_bench\<close>, \<^verbatim>\<open>smoke_bench\<close> and \<^verbatim>\<open>dhat_bench\<close> run to their end and leave the engine sound, and
  \<^verbatim>\<open>co_bench\<close> does unless the target rate it is given is zero, when it panics.\<close>

theorem benchmark_never_panics:
  assumes "price_level_total api queue level_ok"
  shows "(\<exists>e. throughput_bench api = Some e \<and> engine_inv queue level_ok e) \<and>
    (\<exists>e. smoke_bench api = Some e \<and> engine_inv queue level_ok e) \<and>
    (\<exists>e. dhat_bench api = Some e \<and> engine_inv queue level_ok e) \<and>
    (if target_rate var = 0 then co_bench api var = None
     else \<exists>e. co_bench api var = Some (1000000000 div target_rate var, e) \<and> engine_inv queue level_ok e) \<and>
    (n < 2 ^ 64 - 1 \<longrightarrow> list_all op_ok (generate_ops n seed) \<and> cancels_known (generate_ops n seed) \<and>
       (\<exists>k \<le> n. concat (map fresh_id (generate_ops n seed)) = map of_nat [1 ..< Suc k]))"
proof -
  note ret = price_level_total.bench_returns [OF assms]
  have "\<exists>e. throughput_bench api = Some e \<and> engine_inv queue level_ok e"
    using ret [of N_WARMUP N_MEASURE "0xdeadbeef" "0xc0ffee"]
    by (auto simp: throughput_bench_def N_WARMUP_def N_MEASURE_def)
  moreover have "\<exists>e. smoke_bench api = Some e \<and> engine_inv queue level_ok e"
    using ret [of 10000 0 "0xdeadbeefdeadbeef"] by (auto simp: smoke_bench_def)
  moreover have "\<exists>e. dhat_bench api = Some e \<and> engine_inv queue level_ok e"
    using ret [of 10000 100000 "0xdeadbeef" "0xc0ffee"] by (auto simp: dhat_bench_def)
  moreover have "if target_rate var = 0 then co_bench api var = None
     else \<exists>e. co_bench api var = Some (1000000000 div target_rate var, e) \<and> engine_inv queue level_ok e"
    using ret [of 50000 1000000 "0xdeadbeef" "0xc0ffee"] by (auto simp: co_bench_def interval_ns_def)
  moreover have "list_all op_ok (generate_ops n seed) \<and> cancels_known (generate_ops n seed) \<and>
       (\<exists>k \<le> n. concat (map fresh_id (generate_ops n seed)) = map of_nat [1 ..< Suc k])" if "n < 2 ^ 64 - 1"
    using generated_inv [OF that, of seed] unfolding gen_inv_def generate_ops_def by blast
  ultimately show ?thesis by blast
qed

theorem benchmark_never_panics_witness:
  "(\<exists>e. smoke_bench fifo_api = Some e \<and> engine_inv (\<lambda>l. l) (\<lambda>_. True) e) \<and> co_bench fifo_api (Some ''0'') = None \<and>
   (\<exists>e. co_bench fifo_api (Some ''500000'') = Some (2000, e)) \<and> cancels_known (generate_ops 5 0xc0ffee)"
proof -
  have r: "target_rate (Some ''0'') = 0" "target_rate (Some ''500000'') = 500000" by code_simp+
  show ?thesis
    using benchmark_never_panics [OF fifo.price_level_total_axioms, of "Some ''0''" 5 "0xc0ffee"]
      benchmark_never_panics [OF fifo.price_level_total_axioms, of "Some ''500000''" 5 "0xc0ffee"]
    by (auto simp: r)
qed

text \<open>The low bit of the generator alternates, so the draw for the side is decided by the draw for the
  account before it: even accounts only ever bid, odd accounts only ever offer.\<close>

fun one_sided :: "op \<Rightarrow> bool" where
  "one_sided (Op_Add i a sd p q) \<longleftrightarrow> sd = (if even (unat a) then Bid else Ask)"
| "one_sided (Op_Aggressive i a sd p q) \<longleftrightarrow> sd = (if even (unat a) then Bid else Ask)"
| "one_sided (Op_Cancel i a) \<longleftrightarrow> True"

lemma Lcg_alternates: "Lcg_next s = (v, s') \<Longrightarrow> v = s' \<and> (even (unat v) \<longleftrightarrow> odd (unat s))"
  by (auto simp: Lcg_next_def Let_def unat_word_ariths dvd_mod_iff)

lemma gen_round_one_sided: "list_all one_sided (gn_ops g) \<Longrightarrow> list_all one_sided (gn_ops (gen_round g))"
proof -
  assume ok: "list_all one_sided (gn_ops g)"
  obtain v1 g1 where l1: "Lcg_next (gn_rng g) = (v1, g1)" by fastforce
  obtain v2 g2 where l2: "Lcg_next g1 = (v2, g2)" by fastforce
  obtain v3 g3 where l3: "Lcg_next g2 = (v3, g3)" by fastforce
  have "v3 mod 2 = 0 \<longleftrightarrow> even (unat v3)" by (simp add: word_unat_eq_iff unat_mod_distrib even_iff_mod_2_eq_zero)
  moreover have "even (unat (ucast (v2 mod ACCOUNT_COUNT + 1) :: u32)) \<longleftrightarrow> odd (unat v2)"
    unfolding unat_account by (simp add: dvd_mod_iff)
  ultimately have "(if v3 mod 2 = 0 then Bid else Ask) =
      (if even (unat (ucast (v2 mod ACCOUNT_COUNT + 1) :: u32)) then Bid else Ask)"
    using Lcg_alternates [OF l2] Lcg_alternates [OF l3] by auto
  then show ?thesis using ok by (auto simp: gen_round_def l1 l2 l3 Let_def split: prod.split if_splits)
qed

lemma generated_one_sided: "list_all one_sided (generate_ops n seed)"
proof -
  have "list_all one_sided (gn_ops ((gen_round ^^ n) (gen_new seed)))"
    by (induction n) (simp_all add: gen_round_one_sided, simp add: gen_new_def)
  then show ?thesis by (simp add: generate_ops_def)
qed

text \<open>The prices drawn are not those of the interval \<^verbatim>\<open>PRICE_LOW ..= PRICE_HIGH\<close>: the remainder of a
  negative draw is negative. The first operation of the warm-up is a bid at 72.\<close>

lemma first_draw_below_low: "generate_ops 1 0xdeadbeef = [Op_Aggressive 1 6 Bid 72 2]"
  by code_simp

end
