(* ===== verification/Spec2Isabelle.thy ===== *)
theory Spec2Isabelle
  imports Matching_Theorems Book_Theorems Wire_Theorems Risk_Theorems Server_Theorems Fixture Examples Workload
begin

text \<open>
  Verification of a central limit order book: a matching engine that runs as a single writer behind
  a TCP gateway, its wire protocol, its recorder and replay, and the client library. The sources are
  the Rust crates under \<^verbatim>\<open>src/crates\<close>; paths below are relative to that directory.

  \<^bold>\<open>The program.\<close> A client frames commands (\<^verbatim>\<open>clob-client\<close>, \<^verbatim>\<open>wire\<close>) and writes them to a socket. A reader
  task per connection (\<^verbatim>\<open>gateway/src/listener.rs\<close>) cuts the bytes into frames, decodes them and hands
  the commands to a bounded channel. A forwarder moves them to the engine thread
  (\<^verbatim>\<open>engine/src/bin/engine.rs\<close>), which steps the engine (\<^verbatim>\<open>engine/src/engine.rs\<close>) on one command at a time: risk
  checks (\<^verbatim>\<open>risk\<close>), matching against the book (\<^verbatim>\<open>matching\<close>), reports, trade prints, level deltas and a
  quote into the sink. The sink (\<^verbatim>\<open>gateway/src/sink.rs\<close>, \<^verbatim>\<open>marketdata\<close>) encodes each event and broadcasts it;
  a writer task per connection copies the frames to its socket.

  \<^bold>\<open>Conventions.\<close> A Rust function is a HOL function of the same name, suffixed or prefixed where HOL has
  the name already; state is passed explicitly. Machine integers are words of their width, \<^verbatim>\<open>i64\<close> being
  the 64-bit word read with \<^term>\<open>sint\<close>. \<^verbatim>\<open>Result\<close> is a sum with the error on the left, a panic or an
  endless loop is \<open>None\<close>. A \<^verbatim>\<open>BTreeMap\<close> is a sorted association list, a \<^verbatim>\<open>HashMap\<close> a map. Code that is not
  in the repository is an argument of the definitions and comes with a locale of the laws its
  documentation states: the crate \<^verbatim>\<open>pricelevel\<close> (record \<open>pl_api\<close>, locales \<open>price_level\<close> and
  \<open>price_level_total\<close>), tokio's channels (\<open>ring\<close>, \<open>broadcast\<close>, \<open>network\<close>) and the file a recorder appends
  to (\<open>append_file\<close>). Each locale is interpreted on a concrete implementation, and those carry the
  concrete instances of the theorems: \<open>fifo_api\<close>, a queue as a list, and \<open>list_net\<close>.

  \<^bold>\<open>Theories and sources.\<close>
  \<^item> \<open>Prelude\<close>: machine integers, the \<^verbatim>\<open>?\<close> operator, checked arithmetic, sorted maps, little-endian bytes.
  \<^item> \<open>Domain\<close>: \<^verbatim>\<open>domain\<close>, the policy constants, validated newtypes and enumerations. \<open>Ports\<close>:
    \<^verbatim>\<open>engine/src/ids.rs\<close> and \<^verbatim>\<open>clock.rs\<close>.
  \<^item> \<open>PriceLevel_API\<close>: the level interface as \<^verbatim>\<open>matching\<close> uses it. \<open>Book\<close>: \<^verbatim>\<open>matching/src/book.rs\<close>, every
    operation; \<open>Book_Inv\<close> and \<open>Book_Ops\<close> its invariant and the contracts of insertion and removal;
    \<open>Match\<close>, \<open>Match_Refine\<close> and \<open>Match_Props\<close> the specification of price-time priority on a flat list of
    makers and the proof that the two nested loops implement it.
  \<^item> \<open>Wire\<close>, \<open>Wire_Inbound\<close>, \<open>Wire_Outbound\<close>: \<^verbatim>\<open>wire\<close>, framing and all messages down to bytes. \<open>Marketdata\<close>:
    \<^verbatim>\<open>marketdata\<close>, the encoder, the decoder and the vector sink. \<open>Risk\<close>: \<^verbatim>\<open>risk/src/state.rs\<close>.
  \<^item> \<open>Engine\<close>: \<^verbatim>\<open>engine/src/engine.rs\<close>, every handler and emission. \<open>Engine_Seq\<close> (sequence numbers),
    \<open>Ledger\<close> and \<open>Mirror\<close> (registry and risk counters against the book), \<open>Engine_Inv\<close>, \<open>Engine_Replace\<close> and
    \<open>Engine_Run\<close> (the invariant, along every run), \<open>L2\<close> (level deltas), \<open>Liveness\<close> (every step returns),
    \<open>Commands\<close> and \<open>Trades\<close> (single commands, the tape), \<open>Timeless\<close> (independence of the clock),
    \<open>Outbound_Sound\<close> (everything published can be encoded and read back).
  \<^item> \<open>Framing\<close>, \<open>Client\<close>, \<open>Gateway\<close>, \<open>Session\<close>: incremental reading in general,
    \<^verbatim>\<open>clob-client/src/lib.rs\<close>, the read side of \<^verbatim>\<open>gateway/src/listener.rs\<close>, and its write side with
    \<^verbatim>\<open>gateway/src/sink.rs\<close>.
  \<^item> \<open>Recorder\<close> and \<open>Replay\<close>: \<^verbatim>\<open>gateway/src/recorder.rs\<close> and \<^verbatim>\<open>engine/src/bin/replay.rs\<close>. \<open>Fixture\<close>:
    \<^verbatim>\<open>engine/src/bin/gen_fixture.rs\<close> and the two committed files, which the model reproduces byte for byte.
  \<^item> \<open>Server\<close> and \<open>Server_Inv\<close>: \<^verbatim>\<open>engine/src/bin/engine.rs\<close>; the process as a transition system whose turns
    are the accept loop, a read, the forwarder, the engine thread, one publication and a write of any
    connection, interleaved in any order.
  \<^item> \<open>Examples\<close>: the programs under \<^verbatim>\<open>clob-client/examples\<close>, which all pass. \<open>Workload\<close>: the benchmark
    binaries \<^verbatim>\<open>engine/src/bin/*_bench.rs\<close>.
  \<^item> \<open>Demo\<close>, \<open>Demo_Run\<close>, \<open>Demo_Server\<close>: concrete states. \<open>Matching_Theorems\<close>, \<open>Book_Theorems\<close>,
    \<open>Wire_Theorems\<close>, \<open>Risk_Theorems\<close>, \<open>Gateway_Theorems\<close>, \<open>Server_Theorems\<close>, \<open>Workload\<close> and this theory hold the
    properties, numbered C1 to C40.

  \<^bold>\<open>What is shown.\<close>
  \<^item> Matching is price-time priority: the fills, the residual, the self-trade cancellation and the book
    left are those of the flat specification; fills are legal, lots are conserved, the book is never
    crossed, replace keeps or gives up the place in the queue as documented.
  \<^item> In every reachable state of the engine the book, its indices, the registry and the risk counters
    agree; sequence numbers and trade ids have no gaps; the deltas published reproduce the depth;
    refusals, the kill switch and foreign orders leave no trace. Every step returns.
  \<^item> The codecs are exact inverses that accept nothing else.
  \<^item> Across the process, no command is lost, invented or reordered, the engine is where a sequential
    run of the accepted commands leads, any backlog can be worked off, and each client reads the
    published stream from its subscription on, however the network cuts it. A recording survives a
    crash up to its last whole record, and its replay is the live stream up to timestamps.
  \<^item> The last seven properties, C34 to C40, describe behaviour at odds with the documentation or with
    another part of the code.

  \<^bold>\<open>Bounds.\<close> Loops are structural, or have a termination proof; the matching walk, which in the source
  stops only because levels become empty, is a partial function and shown to return. The counters are
  64 bits wide, so runs are bounded: the invariant holds for fewer than 2^64 commands, a fresh engine is
  shown to return from 2^30 commands (a command emits at most five messages per resting order and six
  more, so 2^30 commands draw fewer than 2^64 numbers), and the encoder to accept every event of 2^27
  commands, because a snapshot of more levels would not fit the 32-bit length of a frame. The client's
  loops read their scripts of socket and timer answers, which may have any length.

  \<^bold>\<open>Not modelled.\<close> The internals of \<^verbatim>\<open>pricelevel\<close>, of tokio and of the operating system, beyond the laws
  above. What the programs print and log, except the progress lines of the engine loop and the outcome
  of pinning. The time and allocation measurements of the benchmarks, which do not touch the engine,
  and their histograms. \<^verbatim>\<open>Display\<close> and \<^verbatim>\<open>Debug\<close> formatting. Test modules, integration tests and the
  Criterion harness \<^verbatim>\<open>engine/benches\<close>. In the examples, time: an answer is assumed to arrive before the
  time-out that waits for it.
\<close>

section \<open>Along every run of the engine\<close>

text \<open>C2: the engine's invariant. Whatever well-formed commands the single writer has processed, with
  the sink drained and the clock set in between, the book satisfies its representation invariant
  (sorted, non-empty levels; both indices agree with the queues; no order twice), best bid is below
  best ask, the registry holds exactly the resting orders with their current side, quantity and
  notional, no account is above a cap, and the notional recorded for every account is exactly the
  sum of the notionals of its resting orders.\<close>

theorem engine_invariant:
  assumes "price_level_total api queue level_ok" "reachable api ids n e" "n < 2 ^ 64"
  shows "book_inv queue level_ok (eng_book e) \<and> uncrossed (eng_book e) \<and>
    registry e = reg_of queue (eng_book e) \<and> risk_inv (eng_risk e) \<and>
    (\<forall>a. unat (notional (acct (eng_risk e) a)) = exposure (registry e) a)"
  using price_level_total.reachable_inv [OF assms]
  by (auto simp: engine_inv_def good_book_def ledger_ok_def)

theorem engine_invariant_witness:
  "reachable fifo_api CounterIdGenerator_new 5 demo_state \<and> uncrossed (eng_book demo_state) \<and>
   registry demo_state (OrderId 1) = None \<and>
   unat (notional (acct (eng_risk demo_state) (AccountId 8))) = 796 \<and>
   exposure (registry demo_state) (AccountId 8) = 796"
proof -
  note c = engine_invariant [OF fifo.price_level_total_axioms demo_reachable]
  have n: "unat (notional (acct (eng_risk demo_state) (AccountId 8))) = 796" by (simp add: acct_def demo_values)
  then have "exposure (registry demo_state) (AccountId 8) = 796" using c by simp
  then show ?thesis using c n demo_reachable demo_values(2) by simp
qed

text \<open>C11: the outbound stream has no gaps. Whatever the commands and whatever the levels do, the
  messages a run appends to the stream carry consecutive engine sequence numbers, starting from the
  value of the counter before the run and leaving it one past the last message.\<close>

theorem stream_has_no_gaps:
  assumes "run_steps api msgs e = Some e'"
  shows "\<exists>out. events (eng_sink e') = events (eng_sink e) @ out \<and>
    map (\<lambda>m. unat (engine_seq_raw (outbound_seq m))) out =
      [unat (next_seq_raw (eng_ids e)) ..< unat (next_seq_raw (eng_ids e'))]"
  using run_steps_emits [OF assms]
  by (auto simp: emits_def stream_def seq_no_def seq_numbers_def)

theorem stream_has_no_gaps_witness:
  "map (\<lambda>m. unat (engine_seq_raw (outbound_seq m))) (events (eng_sink demo_state)) = [1 ..< 21]"
  using stream_has_no_gaps [OF demo_run(1)] demo_values(6) demo_engine_facts(3,6)
  by (simp add: seq_no_def stream_def)

text \<open>C10: trade ids on the tape. In a run from a state that satisfies the invariant, the trade prints
  published carry exactly the trade ids between the two values of the counter, in increasing order:
  every id drawn for a fill is printed once, none is skipped and none is printed twice.\<close>

theorem tape_prints_every_trade_once:
  assumes "price_level_total api queue level_ok" "engine_inv queue level_ok e" "list_all inbound_ok msgs"
    and "arrivals e + length msgs < 2 ^ 64" "run_steps api msgs e = Some e'"
  shows "\<exists>out. events (eng_sink e') = events (eng_sink e) @ out \<and>
    print_ids out = [unat (next_trade (eng_ids e)) ..< unat (next_trade (eng_ids e'))]"
  using price_level_total.run_steps_traded [OF assms]
  by (auto simp: traded_def emits_def stream_def trade_no_def)

theorem tape_prints_every_trade_once_witness:
  "run_steps fifo_api demo_msgs demo_engine = Some demo_state \<and> print_ids (events (eng_sink demo_state)) = [1, 2]"
proof -
  have "\<exists>out. events (eng_sink demo_state) = events (eng_sink demo_engine) @ out \<and>
      print_ids out = [unat (next_trade (eng_ids demo_engine)) ..< unat (next_trade (eng_ids demo_state))]"
    by (rule tape_prints_every_trade_once [OF fifo.price_level_total_axioms demo_engine_facts(1) demo_msgs_ok(1) _ demo_run(1)])
      (simp add: demo_engine_facts demo_msgs_ok)
  then show ?thesis
    using demo_run(1) demo_values(7) demo_engine_facts(4,6)
    by (auto simp: trade_no_def stream_def upt_rec)
qed

text \<open>C4: the level-2 feed is a faithful copy of the depth. Every command that may change the book
  publishes its reports, then the level deltas, then one top-of-book update; the reports contain no
  delta, the deltas come in strictly increasing key order, and a consumer that applies them to the
  depth before the command has exactly the depth after it. The prices of the final quote are the
  best prices of the new book.\<close>

theorem l2_feed_mirrors_depth:
  assumes "price_level_total api queue level_ok" "engine_inv queue level_ok e" "inbound_ok msg"
    and "arrivals e < 2 ^ 64 - 1" "emit_book_changes msg" "step api msg e = Some e'"
  shows "\<exists>reports deltas quote.
    events (eng_sink e') = events (eng_sink e) @ reports @ map Out_BookUpdateL2Delta deltas @ [Out_BookUpdateTop quote] \<and>
    list_all is_report reports \<and> sorted_wrt key_less (map (\<lambda>d. (bd_side d, bd_price d)) deltas) \<and>
    fold apply_delta deltas (shown api (eng_book e)) = shown api (eng_book e') \<and>
    map_option fst (bt_bid quote) = best_bid (eng_book e') \<and> map_option fst (bt_ask quote) = best_ask (eng_book e')"
proof -
  have wf: "levels_wf level_ok (eng_book e)" "levels_wf level_ok (eng_book e')"
    using assms(2) price_level_total.step_inv [OF assms(1-4,6)]
    by (auto simp: keeps_inv_def engine_inv_def good_book_def book_inv_def book_wf_def)
  obtain reports feed where f: "emits (reports @ feed) e e'" "list_all is_report reports"
      "tail_of api (eng_book e) (eng_book e') feed"
    using step_feed [OF assms(6,5)] by blast
  then obtain deltas quote where d: "feed = map Out_BookUpdateL2Delta deltas @ [Out_BookUpdateTop quote]"
      "list_all delta_ok deltas"
      "map delta_level deltas = l2_diff (capture_levels api (eng_book e)) (capture_levels api (eng_book e'))"
      "map_option fst (bt_bid quote) = best_bid (eng_book e')" "map_option fst (bt_ask quote) = best_ask (eng_book e')"
    unfolding tail_of_def by blast
  have "key_sorted (map delta_level deltas)"
    unfolding d(3) by (rule l2_diff_sorted [OF capture_levels_sorted [OF wf(1)] capture_levels_sorted [OF wf(2)]])
  then have "sorted_wrt key_less (map (\<lambda>d. (bd_side d, bd_price d)) deltas)"
    by (simp add: key_sorted_def delta_level_def comp_def)
  moreover have "fold apply_delta deltas (shown api (eng_book e)) = shown api (eng_book e')"
    using deltas_mirror [OF wf d(3,2)] .
  ultimately show ?thesis
    using f(1,2) d(4,5) unfolding d(1)
    by (intro exI [of _ reports] exI [of _ deltas] exI [of _ quote] conjI) (simp_all add: emits_def stream_def)
qed

theorem l2_feed_mirrors_depth_witness:
  "\<exists>e' reports deltas quote. step fifo_api (cancel_msg 4 8) demo_state = Some e' \<and>
    events (eng_sink e') = events (eng_sink demo_state) @ reports @ map Out_BookUpdateL2Delta deltas @ [Out_BookUpdateTop quote] \<and>
    fold apply_delta deltas (shown fifo_api (eng_book demo_state)) = shown fifo_api (eng_book e')"
proof -
  have ok: "inbound_ok (cancel_msg 4 8)" "emit_book_changes (cancel_msg 4 8)"
    by (simp_all add: cancel_msg_def cancel_order_ok_def ok_defs)
  obtain e' where s: "step fifo_api (cancel_msg 4 8) demo_state = Some e'" using demo_next [OF ok(1)] by blast
  have "arrivals demo_state < 2 ^ 64 - 1" using demo_arrivals by simp
  from l2_feed_mirrors_depth [OF fifo.price_level_total_axioms demo_run(2) ok(1) this ok(2) s] s
  show ?thesis by blast
qed

text \<open>C5: the engine never gets stuck. From a fresh engine, any sequence of at most 2^30 well-formed
  commands is processed to its end: no command diverges in the matching loop, and neither the trade
  id nor the sequence counter runs out.\<close>

theorem engine_never_stuck:
  assumes "price_level_total api queue level_ok" "list_all inbound_ok msgs" "length msgs \<le> 2 ^ 30"
  shows "\<exists>e'. run_steps api msgs (Engine_new c CounterIdGenerator_new VecSink_new) = Some e'"
  using price_level_total.fresh_run_returns [OF assms] by blast

theorem engine_never_stuck_witness:
  "\<exists>e'. run_steps fifo_api demo_msgs (Engine_new (StubClock_new 1000) CounterIdGenerator_new VecSink_new) = Some e'"
  using engine_never_stuck [OF fifo.price_level_total_axioms demo_msgs_ok(1)] demo_msgs_ok(2) by simp

section \<open>What single commands do\<close>

text \<open>C17: the kill switch stops everything. While it is engaged, a new order, a cancel, a replace or a
  mass cancel leaves the book, the risk state and the registry exactly as they are and is answered
  by a single rejection with reason \<^verbatim>\<open>KillSwitched\<close> to the sender's account, followed by the
  unchanged top of book and no level delta.\<close>

theorem kill_switch_stops_everything:
  assumes "kill_switch (eng_risk e)" "emit_book_changes msg" "step api msg e = Some e'"
  shows "eng_book e' = eng_book e \<and> eng_risk e' = eng_risk e \<and> registry e' = registry e \<and>
    (\<exists>r quote. events (eng_sink e') = events (eng_sink e) @ [Out_ExecReport r, Out_BookUpdateTop quote] \<and>
       er_state r = Rejected \<and> er_reject_reason r = Some KillSwitched \<and> er_account_id r = account_of msg)"
  using halted_refuses [OF assms(3,2,1)] by (auto simp: refused_def emits_def stream_def)

theorem kill_switch_stops_everything_witness:
  "\<exists>e e'. step fifo_api halt_msg demo_state = Some e \<and> step fifo_api (cancel_msg 4 8) e = Some e' \<and>
     eng_book e' = eng_book demo_state \<and> registry e' = registry demo_state"
proof -
  let ?e = "snd (clock_now demo_state)"
  define e where "e = ?e\<lparr>eng_risk := set_kill_switch True (eng_risk demo_state)\<rparr>"
  have s: "step fifo_api halt_msg demo_state = Some e"
    by (simp add: step_def halt_msg_def handle_kill_switch_def Let_def e_def clock_now_def)
  have ok: "list_all inbound_ok (demo_msgs @ [halt_msg, cancel_msg 4 8])" "emit_book_changes (cancel_msg 4 8)"
    using demo_msgs_ok(1) by (simp_all add: halt_msg_def cancel_msg_def cancel_order_ok_def ok_defs)
  obtain e' where s': "step fifo_api (cancel_msg 4 8) e = Some e'"
    using demo_runs [OF ok(1)] demo_run(1) demo_msgs_ok(2) s
    by (auto simp: run_steps_append Option.bind_eq_Some_conv)
  have k: "kill_switch (eng_risk e)" by (simp add: e_def set_kill_switch_def)
  have "eng_book e = eng_book demo_state" "registry e = registry demo_state" by (simp_all add: e_def clock_now_def)
  then show ?thesis
    using kill_switch_stops_everything [OF k ok(2) s'] s s' by (intro exI [of _ e] exI [of _ e']) simp
qed

text \<open>C18: nobody touches another account's order. A cancel for an order registered to a different
  account changes nothing and is answered by a single \<^verbatim>\<open>UnknownOrderId\<close> rejection; a replace of
  such an order changes nothing either and is rejected, with \<^verbatim>\<open>UnknownOrderId\<close> unless its new price
  or size already fails the risk check.\<close>

theorem foreign_orders_are_safe:
  assumes "\<not> kill_switch (eng_risk e)"
  shows "(registry e (co_order_id c) = Some en \<and> re_account_id en \<noteq> co_account_id c \<and>
      step api (In_CancelOrder c) e = Some e' \<longrightarrow> refused (co_account_id c) UnknownOrderId e e') \<and>
    (registry e (cr_order_id m) = Some en \<and> re_account_id en \<noteq> cr_account_id m \<and>
      step api (In_CancelReplace m) e = Some e' \<longrightarrow>
      (\<exists>reason. reason \<in> {UnknownOrderId, PriceBand, MaxNotional} \<and> refused (cr_account_id m) reason e e'))"
  by (intro conjI impI; elim conjE) (rule cancel_foreign_refused [OF _ assms] replace_foreign_refused [OF _ assms]; assumption)+

theorem foreign_orders_are_safe_witness:
  "\<exists>e'. step fifo_api (cancel_msg 4 7) demo_state = Some e' \<and> refused (AccountId 7) UnknownOrderId demo_state e'"
proof -
  have ok: "inbound_ok (cancel_msg 4 7)" by (simp add: cancel_msg_def cancel_order_ok_def ok_defs)
  obtain e' where s: "step fifo_api (cancel_msg 4 7) demo_state = Some e'" using demo_next [OF ok] by blast
  let ?c = "\<lparr>co_client_ts = ClientTs 0, co_order_id = OrderId 4, co_account_id = AccountId 7\<rparr>"
  have "refused (co_account_id ?c) UnknownOrderId demo_state e'"
    using foreign_orders_are_safe [OF demo_values(8), where c = ?c and api = fifo_api and e' = e' and
        en = "\<lparr>re_account_id = AccountId 8, re_side = Bid, re_qty = Qty 6, re_notional = 594\<rparr>"] demo_values(5) s
    by (simp add: cancel_msg_def)
  with s show ?thesis by auto
qed

text \<open>C15: the owner's cancel removes exactly that order. The order leaves both the index and the
  registry, every queue keeps its other orders in the same order, its notional is given back to the
  account, and the account is told \<^verbatim>\<open>Cancelled\<close> with reason \<^verbatim>\<open>UserRequested\<close> before the feed.\<close>

theorem cancel_removes_exactly_one:
  assumes "price_level_total api queue level_ok" "engine_inv queue level_ok e"
    and "\<not> kill_switch (eng_risk e)" "registry e (co_order_id c) = Some en" "re_account_id en = co_account_id c"
    and "step api (In_CancelOrder c) e = Some e'"
  shows "index (eng_book e') = (index (eng_book e))(co_order_id c := None) \<and>
    registry e' = (registry e)(co_order_id c := None) \<and>
    eng_risk e' = on_order_removed (co_account_id c) (re_notional en) (eng_risk e) \<and>
    (\<forall>s p. queue_at queue (eng_book e') s p =
       filter (\<lambda>x. pl_id x \<noteq> Sequential (order_id_raw (co_order_id c))) (queue_at queue (eng_book e) s p)) \<and>
    (\<exists>r feed. events (eng_sink e') = events (eng_sink e) @ Out_ExecReport r # feed \<and>
       tail_of api (eng_book e) (eng_book e') feed \<and> er_state r = Cancelled \<and>
       er_cancel_reason r = Some CR_UserRequested \<and> er_order_id r = co_order_id c)"
  using price_level_total.cancel_owned [OF assms(1,2,6,3-5)] by (auto simp: emits_def stream_def)

theorem cancel_removes_exactly_one_witness:
  "\<exists>e'. step fifo_api (cancel_msg 4 8) demo_state = Some e' \<and>
     registry e' = (registry demo_state)(OrderId 4 := None) \<and>
     unat (notional (acct (eng_risk e') (AccountId 8))) = 202"
proof -
  have ok: "inbound_ok (cancel_msg 4 8)" by (simp add: cancel_msg_def cancel_order_ok_def ok_defs)
  obtain e' where s: "step fifo_api (cancel_msg 4 8) demo_state = Some e'" using demo_next [OF ok] by blast
  let ?c = "\<lparr>co_client_ts = ClientTs 0, co_order_id = OrderId 4, co_account_id = AccountId 8\<rparr>"
  have "registry e' = (registry demo_state)(OrderId 4 := None)"
    "eng_risk e' = on_order_removed (AccountId 8) 594 (eng_risk demo_state)"
    using cancel_removes_exactly_one [OF fifo.price_level_total_axioms demo_run(2) demo_values(8), of ?c] demo_values(5) s
    by (simp_all add: cancel_msg_def)
  then show ?thesis
    using s on_order_removed_spec(2) [of "AccountId 8" 594 "eng_risk demo_state"] by (simp add: acct_def demo_values)
qed



text \<open>C20: a snapshot lists the visible depth. The response echoes the request id, leaves the engine's
  book, risk state and registry alone, and lists, bids from the best price down and asks from the
  best price up, exactly the levels with a positive quantity, each with that quantity.\<close>

theorem snapshot_lists_the_depth:
  assumes "price_level_total api queue level_ok" "engine_inv queue level_ok e"
    and "step api (In_SnapshotRequest m) e = Some e'"
  shows "eng_book e' = eng_book e \<and> eng_risk e' = eng_risk e \<and> registry e' = registry e \<and>
    (\<exists>r. events (eng_sink e') = events (eng_sink e) @ [Out_SnapshotResponse r] \<and>
       sp_request_id r = sr_request_id m \<and>
       sorted_wrt (>) (map lv_price (sp_bids r)) \<and> sorted_wrt (<) (map lv_price (sp_asks r)) \<and>
       (\<forall>p q. \<lparr>lv_price = p, lv_qty = q\<rparr> \<in> set (sp_bids r) \<longleftrightarrow> shown api (eng_book e) (Bid, p) = Some (as_lots q)) \<and>
       (\<forall>p q. \<lparr>lv_price = p, lv_qty = q\<rparr> \<in> set (sp_asks r) \<longleftrightarrow> shown api (eng_book e) (Ask, p) = Some (as_lots q)))"
proof -
  have wf: "levels_wf level_ok (eng_book e)"
    using assms(2) by (simp add: engine_inv_def good_book_def book_inv_def book_wf_def)
  obtain r where r: "events (eng_sink e') = events (eng_sink e) @ [Out_SnapshotResponse r]"
      "eng_book e' = eng_book e" "eng_risk e' = eng_risk e" "registry e' = registry e"
      "sp_request_id r = sr_request_id m" "sp_bids r = snapshot_levels (bid_levels api (eng_book e))"
      "sp_asks r = snapshot_levels (ask_levels api (eng_book e))"
    using step_snapshot [OF assms(3)] by blast
  then show ?thesis
    using depth_lists(1,2) [OF wf, of api] depth_lists(3,4) [OF wf, of _ _ api]
      snapshot_levels_prices [of "(>)"] snapshot_levels_prices [of "(<)"]
    by (intro conjI exI [of _ r]) (simp_all add: snapshot_levels_mem)
qed

theorem snapshot_lists_the_depth_witness:
  "\<exists>e' r. step fifo_api (In_SnapshotRequest \<lparr>sr_request_id = 7\<rparr>) demo_state = Some e' \<and>
     events (eng_sink e') = events (eng_sink demo_state) @ [Out_SnapshotResponse r] \<and> sp_request_id r = 7 \<and>
     \<lparr>lv_price = Price 101, lv_qty = Qty 2\<rparr> \<in> set (sp_asks r)"
proof -
  obtain e' where s: "step fifo_api (In_SnapshotRequest \<lparr>sr_request_id = 7\<rparr>) demo_state = Some e'"
    using demo_next [of "In_SnapshotRequest \<lparr>sr_request_id = 7\<rparr>"] by auto
  have "shown fifo_api (eng_book demo_state) (Ask, Price 101) = Some 2"
    by (simp add: shown_capture demo_values)
  then show ?thesis
    using snapshot_lists_the_depth [OF fifo.price_level_total_axioms demo_run(2) s] s by (intro exI [of _ e']) auto
qed

text \<open>C19: a new order that fails a pre-trade check is refused with that reason and leaves no trace: the
  book, the risk state and the registry are unchanged, and one rejection to the sender and the
  unchanged top of book are all that is published.\<close>

theorem failed_check_leaves_no_trace:
  assumes "check_new_order (eng_risk e) m (best_opposite (no_side m) (eng_book e)) = Inl reason"
    and "step api (In_NewOrder m) e = Some e'"
  shows "eng_book e' = eng_book e \<and> eng_risk e' = eng_risk e \<and> registry e' = registry e \<and>
    (\<exists>r quote. events (eng_sink e') = events (eng_sink e) @ [Out_ExecReport r, Out_BookUpdateTop quote] \<and>
       er_state r = Rejected \<and> er_reject_reason r = Some reason \<and> er_account_id r = no_account_id m)"
  using risk_refused [OF assms(2,1)] by (auto simp: refused_def emits_def stream_def)

theorem failed_check_leaves_no_trace_witness:
  "\<exists>e'. step fifo_api (new_msg 9 7 Bid 200 1 Gtc) demo_state = Some e' \<and> eng_book e' = eng_book demo_state \<and>
     registry e' = registry demo_state"
proof -
  define m where "m = \<lparr>no_client_ts = ClientTs 0, no_order_id = OrderId 9, no_account_id = AccountId 7, no_side = Bid,
    no_order_type = Limit, no_tif = Gtc, no_price = Some (Price 200), no_qty = Qty 1\<rparr>"
  have msg: "new_msg 9 7 Bid 200 1 Gtc = In_NewOrder m" by (simp add: new_msg_def m_def)
  have ok: "inbound_ok (In_NewOrder m)" by (simp add: m_def new_order_ok_def ok_defs)
  obtain e' where s: "step fifo_api (In_NewOrder m) demo_state = Some e'" using demo_next [OF ok] by blast
  have "check_price_band (Price 200) (Some (Price 101)) = Inl PriceBand" by code_simp
  then have "check_new_order (eng_risk demo_state) m b = Inl PriceBand" for b
    by (simp add: check_new_order_def m_def demo_values demo_last_price)
  from failed_check_leaves_no_trace [OF this s] s show ?thesis unfolding msg by blast
qed

section \<open>Divergences\<close>





text \<open>C40: the acknowledgement of a replace breaks the report rules. The \<^verbatim>\<open>Replaced\<close> report carries the
  new quantity as its leaves quantity, which the coherence check of execution reports forbids; the
  encoder drops it, so the receiver decodes the same report without the quantity.\<close>

theorem replaced_report_loses_leaves:
  assumes "order_id_ok oid" "account_id_ok a" "emit_exec_report_replaced oid a q recv e = Some e'"
  shows "\<exists>r. events (eng_sink e') = events (eng_sink e) @ [Out_ExecReport r] \<and> er_leaves_qty r = Some q \<and>
    validate_coherent r \<noteq> Inr () \<and> exec_report_parse (exec_report_encode r []) = Inr (r\<lparr>er_leaves_qty := None\<rparr>)"
proof -
  define mk where "mk s now = \<lparr>er_engine_seq = s, er_order_id = oid, er_account_id = a, er_state = Replaced,
    er_fill_price = None, er_fill_qty = None, er_leaves_qty = Some q, er_reject_reason = None,
    er_cancel_reason = Some CR_Replaced, er_recv_ts = recv, er_emit_ts = now\<rparr>" for s now
  have p: "publish (\<lambda>s now. Out_ExecReport (mk s now)) e = Some e'"
    using assms(3) by (simp add: emit_exec_report_replaced_def mk_def)
  have "\<And>s now. outbound_seq (Out_ExecReport (mk s now)) = s" by (simp add: mk_def)
  from publish_spec(1) [OF p this] obtain s now where r: "emits [Out_ExecReport (mk s now)] e e'" by blast
  have enc: "exec_report_encode (mk s now) [] = exec_report_encode ((mk s now)\<lparr>er_leaves_qty := None\<rparr>) []"
    by (simp add: exec_report_encode_def exec_report_wire_of_def mk_def)
  have "exec_report_ok ((mk s now)\<lparr>er_leaves_qty := None\<rparr>)"
    using assms(1,2) by (simp add: exec_report_ok_def mk_def validate_coherent_def Let_def)
  from exec_report.parse_encode [OF this] show ?thesis
    using r unfolding enc [symmetric]
    by (intro exI [of _ "mk s now"] conjI)
      (simp_all add: emits_def stream_def mk_def validate_coherent_def Let_def)
qed

theorem replaced_report_loses_leaves_witness:
  "\<exists>e' r. emit_exec_report_replaced (OrderId 4) (AccountId 8) (Qty 3) (RecvTs 9) demo_engine = Some e' \<and>
     events (eng_sink e') = [Out_ExecReport r] \<and> er_leaves_qty r = Some (Qty 3) \<and>
     exec_report_parse (exec_report_encode r []) = Inr (r\<lparr>er_leaves_qty := None\<rparr>)"
proof -
  obtain e' where e': "emit_exec_report_replaced (OrderId 4) (AccountId 8) (Qty 3) (RecvTs 9) demo_engine = Some e'"
    using emit_returns(5) [of demo_engine "OrderId 4" "AccountId 8" "Qty 3" "RecvTs 9"] demo_engine_facts(3)
    by (auto simp: returns_def)
  from replaced_report_loses_leaves [OF _ _ this] show ?thesis
    using e' demo_engine_facts(6) by (auto simp: order_id_ok_def account_id_ok_def stream_def)
qed

end
